(* ===== verification/Prelude.thy ===== *)
theory Prelude
  imports Complex_Main "HOL-Library.AList"
begin

section \<open>Shared vocabulary of the development\<close>

text \<open>
  Go data in HOL, for every component:
  \<^item> a Go \<^verbatim>\<open>string\<close> is a byte string and is modelled by \<^typ>\<open>string\<close>; the byte
    with code \<open>n\<close> is \<open>char_of n\<close>;
  \<^item> a Go \<^verbatim>\<open>map\<close> is an association list with distinct keys (\<open>wf_map\<close>): indexing is
    \<^const>\<open>map_of\<close>, assignment \<open>AList.update\<close>, \<^verbatim>\<open>delete\<close> is \<open>AList.delete\<close>, \<^verbatim>\<open>len\<close> is
    \<^const>\<open>length\<close>. A nil map reads like the empty one, so both are \<^term>\<open>[]\<close>. The order of the list
    is the order in which a \<^verbatim>\<open>range\<close> visits the entries; Go leaves that order open, so no
    statement of the development depends on it;
  \<^item> a Go \<^verbatim>\<open>(T, error)\<close> result is a sum, the error on the left. The text of an error message is
    not modelled; the sentinel it wraps is (\<open>go_error\<close>);
  \<^item> a Go \<^verbatim>\<open>int\<close> is a HOL \<^typ>\<open>int\<close>: the counters it is used for here are bounded by
    configuration far below the 64-bit range, and where a bound matters it is stated.
\<close>

subsection \<open>Errors\<close>

text \<open>
  The sentinel errors of \<^verbatim>\<open>internal/service/errors.go\<close> and \<^verbatim>\<open>pkg/authz\<close>, and one constructor
  for every other error value, which carries the driver's error.
\<close>

datatype go_error =
    ErrNotFound
  | ErrAlreadyExists
  | ErrInvalidArgument
  | ErrPermissionDenied
  | ErrFailedPrecondition
  | ErrResourceExhausted
  | ErrRegionNotServable
  | ErrEvalBudgetExceeded
  | ErrExpandTooLarge
  | ErrTooManyObjects
  | ErrOther string

type_synonym 'a result = "go_error + 'a"

text \<open>\<^verbatim>\<open>errors.Is\<close>: the region error wraps the failed-precondition one.\<close>

definition errors_Is :: "go_error \<Rightarrow> go_error \<Rightarrow> bool" where
  "errors_Is e target \<longleftrightarrow>
     e = target \<or> (e = ErrRegionNotServable \<and> target = ErrFailedPrecondition)"

subsection \<open>Go maps\<close>

type_synonym ('k, 'v) gomap = "('k \<times> 'v) list"

definition wf_map :: "('k, 'v) gomap \<Rightarrow> bool" where
  "wf_map m \<longleftrightarrow> distinct (map fst m)"

text \<open>Indexing a map of maps with a missing outer key reads the nil inner map.\<close>

definition submap :: "('a, ('k, 'v) gomap) gomap \<Rightarrow> 'a \<Rightarrow> ('k, 'v) gomap" where
  "submap m a = (case map_of m a of None \<Rightarrow> [] | Some s \<Rightarrow> s)"

subsection \<open>Named collections and shared lemmas\<close>

named_theorems frame_simps \<open>what an operation leaves unchanged\<close>
named_theorems store_defs \<open>definitions of the store operations\<close>
named_theorems inv_intros \<open>invariant preservation\<close>

lemma wf_map_Nil [simp, intro]: "wf_map []"
  by (simp add: wf_map_def)

lemma wf_map_update [simp, intro]: "wf_map m \<Longrightarrow> wf_map (AList.update k v m)"
  by (simp add: wf_map_def distinct_update)

lemma wf_map_delete [simp, intro]: "wf_map m \<Longrightarrow> wf_map (AList.delete k m)"
  by (simp add: wf_map_def distinct_delete)

lemma wf_map_filter [simp, intro]: "wf_map m \<Longrightarrow> wf_map (filter P m)"
  by (simp add: wf_map_def distinct_map_filter)

lemma map_of_AList_update [simp]:
  "map_of (AList.update k v m) k' = (if k' = k then Some v else map_of m k')"
  by (simp add: update_conv')

lemma map_of_AList_delete [simp]:
  "map_of (AList.delete k m) k' = (if k' = k then None else map_of m k')"
  by (simp add: delete_conv')

lemma wf_map_mem_iff: "wf_map m \<Longrightarrow> (k, v) \<in> set m \<longleftrightarrow> map_of m k = Some v"
  by (simp add: wf_map_def)

lemma map_of_filter_wf:
  "wf_map m \<Longrightarrow> map_of (filter P m) k =
    (case map_of m k of None \<Rightarrow> None | Some v \<Rightarrow> if P (k, v) then Some v else None)"
proof (induction m)
  case Nil
  then show ?case by simp
next
  case (Cons p m)
  obtain k' v' where p: "p = (k', v')" by force
  from Cons.prems p have "k' \<notin> fst ` set m" and wf: "wf_map m"
    by (auto simp: wf_map_def)
  then have "map_of m k' = None" by (simp add: map_of_eq_None_iff)
  with Cons.IH [OF wf] p show ?case by auto
qed

lemma submap_Nil [simp]: "submap [] a = []"
  by (simp add: submap_def)

lemma submap_update [simp]:
  "submap (AList.update a s m) b = (if b = a then s else submap m b)"
  by (simp add: submap_def)

lemma prefix_free_append:
  assumes "xs @ [c] @ ys = xs' @ [c] @ ys'" and "c \<notin> set xs" and "c \<notin> set xs'"
  shows "xs = xs' \<and> ys = ys'"
  using assms
proof (induction xs arbitrary: xs')
  case Nil
  then show ?case by (cases xs') auto
next
  case (Cons x xs)
  then show ?case by (cases xs') auto
qed

lemma suffix_free_append:
  assumes "xs @ [c] @ ys = xs' @ [c] @ ys'" and "c \<notin> set ys" and "c \<notin> set ys'"
  shows "xs = xs' \<and> ys = ys'"
proof -
  have "rev ys @ [c] @ rev xs = rev ys' @ [c] @ rev xs'"
    using arg_cong [OF assms(1), of rev] by simp
  from prefix_free_append [OF this] assms(2,3) show ?thesis by simp
qed

lemma list_all_pairs: "list_all (\<lambda>(a, b). P a b) xs \<longleftrightarrow> (\<forall>a b. (a, b) \<in> set xs \<longrightarrow> P a b)"
  by (auto simp: list_all_iff)

lemma fst_set_update:
  "(k', v') \<in> set (AList.update k v m) \<Longrightarrow> (k', v') = (k, v) \<or> (k', v') \<in> set m"
  by (induction m) (auto split: if_splits)

subsection \<open>Maps whose entries all satisfy a condition\<close>

text \<open>
  A map with distinct keys in which every entry satisfies \<open>P\<close>. Map invariants are stated with it,
  also nested, and every way the code changes a map has a preservation rule.
\<close>

definition all_map :: "('k \<Rightarrow> 'v \<Rightarrow> bool) \<Rightarrow> ('k, 'v) gomap \<Rightarrow> bool" where
  "all_map P m \<longleftrightarrow> wf_map m \<and> list_all (\<lambda>(k, v). P k v) m"

lemma all_map_Nil [simp, inv_intros]: "all_map P []"
  by (simp add: all_map_def)

lemma all_mapD: "all_map P m \<Longrightarrow> map_of m k = Some v \<Longrightarrow> P k v"
  by (auto simp: all_map_def list_all_iff dest!: map_of_SomeD)

lemma all_map_wf [intro]: "all_map P m \<Longrightarrow> wf_map m"
  by (simp add: all_map_def)

lemma all_map_update [inv_intros]: "all_map P m \<Longrightarrow> P k v \<Longrightarrow> all_map P (AList.update k v m)"
  by (fastforce simp: all_map_def list_all_iff dest: fst_set_update)

lemma all_map_delete [inv_intros]: "all_map P m \<Longrightarrow> all_map P (AList.delete k m)"
  by (auto simp: all_map_def list_all_iff AList.delete_eq wf_map_filter)

lemma all_map_filter [inv_intros]: "all_map P m \<Longrightarrow> all_map P (filter Q m)"
  by (auto simp: all_map_def list_all_iff)

lemma all_map_submap [inv_intros]:
  "all_map (\<lambda>a. all_map (P a)) m \<Longrightarrow> all_map (P a) (submap m a)"
  by (auto simp: submap_def split: option.splits dest: all_mapD)

lemma all_map_entry [inv_intros]:
  assumes "all_map P m" and "\<And>v. P k v \<Longrightarrow> P k (f v)"
  shows "all_map P (AList.map_entry k f m)"
proof -
  have "wf_map (AList.map_entry k f m)"
    using assms(1) by (simp add: all_map_def wf_map_def distinct_map_entry)
  moreover have "list_all (\<lambda>(k, v). P k v) (AList.map_entry k f m)"
    using assms by (induction m) (auto simp: all_map_def wf_map_def)
  ultimately show ?thesis by (simp add: all_map_def)
qed

lemma all_map_map [inv_intros]:
  assumes "all_map P m" and "\<And>k v. P k v \<Longrightarrow> P k (f k v)"
  shows "all_map P (map (\<lambda>(k, v). (k, f k v)) m)"
proof -
  have keys: "map fst (map (\<lambda>(k, v). (k, f k v)) m) = map fst m"
    by (induction m) auto
  have "wf_map (map (\<lambda>(k, v). (k, f k v)) m)"
    using assms(1) unfolding all_map_def wf_map_def keys by simp
  with assms show ?thesis
    by (auto simp: all_map_def list_all_iff)
qed

lemma map_of_map_entry [simp]:
  "map_of (AList.map_entry k f m) k' = (if k' = k then map_option f (map_of m k) else map_of m k')"
  by (induction m) auto

lemma submap_map_entry [simp]:
  "submap (AList.map_entry k f m) k' =
    (if k' = k then (case map_of m k of None \<Rightarrow> [] | Some v \<Rightarrow> f v) else submap m k')"
  by (auto simp: submap_def split: option.splits)

lemma submap_map_entry_Nil:
  "f [] = [] \<Longrightarrow> submap (AList.map_entry k f m) k' = (if k' = k then f (submap m k) else submap m k')"
  by (auto simp: submap_def split: option.splits)

lemma map_of_map_kv [simp]: "map_of (map (\<lambda>(k, v). (k, f k v)) m) k' = map_option (f k') (map_of m k')"
  by (induction m) auto

text \<open>Assignment to an inner map, which is created when the outer key is missing.\<close>

definition put2 :: "'a \<Rightarrow> 'k \<Rightarrow> 'v \<Rightarrow> ('a, ('k, 'v) gomap) gomap \<Rightarrow> ('a, ('k, 'v) gomap) gomap" where
  "put2 a k v m = AList.update a (AList.update k v (submap m a)) m"

definition put3 ::
  "'a \<Rightarrow> 'b \<Rightarrow> 'k \<Rightarrow> 'v \<Rightarrow> ('a, ('b, ('k, 'v) gomap) gomap) gomap \<Rightarrow> ('a, ('b, ('k, 'v) gomap) gomap) gomap" where
  "put3 a b k v m = AList.update a (put2 b k v (submap m a)) m"

lemma all_map_put2 [inv_intros]:
  "all_map (\<lambda>a. all_map (P a)) m \<Longrightarrow> P a k v \<Longrightarrow> all_map (\<lambda>a. all_map (P a)) (put2 a k v m)"
  unfolding put2_def by (intro all_map_update all_map_submap) auto

lemma all_map_put3 [inv_intros]:
  "all_map (\<lambda>a. all_map (\<lambda>b. all_map (P a b))) m \<Longrightarrow> P a b k v \<Longrightarrow>
   all_map (\<lambda>a. all_map (\<lambda>b. all_map (P a b))) (put3 a b k v m)"
  unfolding put3_def by (intro all_map_update all_map_put2 all_map_submap) auto

lemma submap_put2 [simp]:
  "submap (put2 a k v m) a' = (if a' = a then AList.update k v (submap m a) else submap m a')"
  by (simp add: put2_def)

lemma submap_put3 [simp]:
  "submap (put3 a b k v m) a' = (if a' = a then put2 b k v (submap m a) else submap m a')"
  by (simp add: put3_def)

subsection \<open>Sequencing of fallible, state-changing operations\<close>

text \<open>
  A method that may change the state and may fail. \<open>bindR\<close> is the early return on an error,
  \<open>tryR\<close> hands the error to the continuation where the code inspects it.
\<close>

type_synonym ('a, 's) operation = "'s \<Rightarrow> 'a result \<times> 's"

definition ret :: "'a \<Rightarrow> ('a, 's) operation" where
  "ret x s = (Inr x, s)"

definition fail :: "go_error \<Rightarrow> ('a, 's) operation" where
  "fail e s = (Inl e, s)"

definition bindR :: "('a, 's) operation \<Rightarrow> ('a \<Rightarrow> ('b, 's) operation) \<Rightarrow> ('b, 's) operation" where
  "bindR m f s = (case m s of (Inl e, s') \<Rightarrow> (Inl e, s') | (Inr x, s') \<Rightarrow> f x s')"

definition tryR :: "('a, 's) operation \<Rightarrow> ('a result \<Rightarrow> ('b, 's) operation) \<Rightarrow> ('b, 's) operation" where
  "tryR m f s = (case m s of (r, s') \<Rightarrow> f r s')"

lemma ret_apply [simp]: "ret x s = (Inr x, s)"
  by (simp add: ret_def)

lemma fail_apply [simp]: "fail e s = (Inl e, s)"
  by (simp add: fail_def)

text \<open>Preservation of a state predicate, whatever the outcome.\<close>

definition preserves :: "('s \<Rightarrow> bool) \<Rightarrow> ('a, 's) operation \<Rightarrow> bool" where
  "preserves I m \<longleftrightarrow> (\<forall>s. I s \<longrightarrow> I (snd (m s)))"

named_theorems preserve \<open>preservation rules\<close>

lemma preservesD: "preserves I m \<Longrightarrow> I s \<Longrightarrow> m s = (r, s') \<Longrightarrow> I s'"
  by (auto simp: preserves_def)

lemma preserves_ret [preserve]: "preserves I (ret x)"
  by (simp add: preserves_def)

lemma preserves_fail [preserve]: "preserves I (fail e)"
  by (simp add: preserves_def)

lemma preserves_bindR [preserve]:
  "preserves I m \<Longrightarrow> (\<And>x. preserves I (f x)) \<Longrightarrow> preserves I (bindR m f)"
  by (fastforce simp: preserves_def bindR_def split: prod.split sum.split dest: spec)

lemma preserves_tryR [preserve]:
  "preserves I m \<Longrightarrow> (\<And>x. preserves I (f x)) \<Longrightarrow> preserves I (tryR m f)"
  by (fastforce simp: preserves_def tryR_def split: prod.split dest: spec)

lemma preserves_if [preserve]:
  "(b \<Longrightarrow> preserves I m) \<Longrightarrow> (\<not> b \<Longrightarrow> preserves I n) \<Longrightarrow> preserves I (if b then m else n)"
  by simp

lemma preserves_sum [preserve]:
  "(\<And>e. preserves I (f e)) \<Longrightarrow> (\<And>x. preserves I (g x)) \<Longrightarrow> preserves I (case r of Inl e \<Rightarrow> f e | Inr x \<Rightarrow> g x)"
  by (simp split: sum.split)

end
