(* ===== verification/Authz_Model.thy ===== *)
theory Authz_Model
  imports Prelude
begin

section \<open>The authorization model (pkg/authz/model.go)\<close>

text \<open>
  Tuples, subjects and userset rewrites. The Go structs are records; \<^verbatim>\<open>Rewrite\<close> is recursive,
  so it is a datatype with one constructor and a selector per field. A zero \<^verbatim>\<open>Rewrite\<close> means
  ``this'', and several fields may be set at once: every function looks at the fields in the
  order of the Go code.
\<close>

subsection \<open>Data\<close>

text \<open>
  The values of a \<^verbatim>\<open>map[string]any\<close>: what JSON decoding and a protobuf \<^verbatim>\<open>Struct\<close> yield
  (booleans, float64 numbers, strings, lists, objects, null), and the Go integers and string
  slices an in-process caller may pass. A float64 is a rational, an infinity or NaN.
\<close>

datatype float64 = Fin rat | PosInf | NegInf | NaN

datatype any =
    ABool bool
  | AFloat float64
  | AInt int
  | AInt64 int
  | AStr string
  | AStrs "string list"
  | AList "any list"
  | AMap "(string \<times> any) list"
  | ANil

type_synonym params = "(string, any) gomap"

record condition =
  c_Name :: string
  c_Params :: params

record subjectSet =
  ss_Namespace :: string
  ss_ObjectID :: string
  ss_Relation :: string

record subject =
  UserID :: string
  s_Set :: "subjectSet option"
  Wildcard :: bool
  s_Condition :: "condition option"

text \<open>An instant is a number of nanoseconds.\<close>

type_synonym time = int

record tuple =
  t_Namespace :: string
  t_ObjectID :: string
  t_Relation :: string
  t_Subject :: subject
  t_ExpiresAt :: "time option"

definition ActiveAt :: "tuple \<Rightarrow> time \<Rightarrow> bool" where
  "ActiveAt t now = (case t_ExpiresAt t of None \<Rightarrow> True | Some e \<Rightarrow> now < e)"

datatype rewrite = Rewrite
  (rw_Union: "rewrite list")
  (rw_Intersection: "rewrite list")
  (rw_Exclusion: "(rewrite \<times> rewrite) option")
  (rw_Computed: string)
  (rw_TuplesetRelation: string)
  (rw_ComputedRelation: string)

text \<open>The pair of \<^verbatim>\<open>Exclusion\<close> is (Include, Exclude).\<close>

definition this_rw :: rewrite where
  "this_rw = Rewrite [] [] None [] [] []"

definition union_rw :: "rewrite list \<Rightarrow> rewrite" where
  "union_rw rs = Rewrite rs [] None [] [] []"

definition intersection_rw :: "rewrite list \<Rightarrow> rewrite" where
  "intersection_rw rs = Rewrite [] rs None [] [] []"

definition exclusion_rw :: "rewrite \<Rightarrow> rewrite \<Rightarrow> rewrite" where
  "exclusion_rw include exclude = Rewrite [] [] (Some (include, exclude)) [] [] []"

definition computed_rw :: "string \<Rightarrow> rewrite" where
  "computed_rw rel = Rewrite [] [] None rel [] []"

definition tupleToUserset_rw :: "string \<Rightarrow> string \<Rightarrow> rewrite" where
  "tupleToUserset_rw tupleset computedRel = Rewrite [] [] None [] tupleset computedRel"

definition isThis :: "rewrite \<Rightarrow> bool" where
  "isThis r \<longleftrightarrow> length (rw_Union r) = 0 \<and> length (rw_Intersection r) = 0 \<and>
     rw_Exclusion r = None \<and> rw_Computed r = [] \<and> rw_TuplesetRelation r = []"

fun readsStoredTuples :: "rewrite \<Rightarrow> bool" where
  "readsStoredTuples (Rewrite u i x c t cr) =
     (if isThis (Rewrite u i x c t cr) then True
      else if list_ex readsStoredTuples u then True
      else if list_ex readsStoredTuples i then True
      else (case x of None \<Rightarrow> False
            | Some (inc, exc) \<Rightarrow> readsStoredTuples inc \<or> readsStoredTuples exc))"

type_synonym nspace = "(string, rewrite) gomap"
type_synonym model = "(string, nspace) gomap"

definition WritableRelation :: "model \<Rightarrow> string \<Rightarrow> string \<Rightarrow> bool" where
  "WritableRelation m namespace relation =
     (case map_of m namespace of
        None \<Rightarrow> True
      | Some ns \<Rightarrow> (case map_of ns relation of None \<Rightarrow> True | Some rw \<Rightarrow> readsStoredTuples rw))"

definition DefaultModel :: model where
  "DefaultModel =
    [(''workspace'',
       [(''owner'', this_rw),
        (''admin'', union_rw [this_rw, computed_rw ''owner'']),
        (''member'', union_rw [this_rw, computed_rw ''admin'']),
        (''guest'', union_rw [this_rw, computed_rw ''member'']),
        (''editor'', computed_rw ''admin''),
        (''viewer'', computed_rw ''member'')]),
     (''group'', [(''member'', this_rw)]),
     (''resource'',
       [(''parent'', this_rw),
        (''owner'', this_rw),
        (''editor'', union_rw [this_rw, computed_rw ''owner'', tupleToUserset_rw ''parent'' ''editor'']),
        (''viewer'', union_rw [this_rw, computed_rw ''editor'', tupleToUserset_rw ''parent'' ''viewer''])])]"

definition StaticResolver :: "model \<Rightarrow> string \<Rightarrow> model result" where
  "StaticResolver m = (let m' = (if length m = 0 then DefaultModel else m) in (\<lambda>_. Inr m'))"

definition rewrite_of :: "model \<Rightarrow> string \<Rightarrow> string \<Rightarrow> rewrite" where
  "rewrite_of m namespace relation =
     (case map_of m namespace of
        None \<Rightarrow> this_rw
      | Some ns \<Rightarrow> (case map_of ns relation of None \<Rightarrow> this_rw | Some rw \<Rightarrow> rw))"

subsection \<open>Lemmas\<close>

lemmas rw_ctor_defs =
  this_rw_def union_rw_def intersection_rw_def exclusion_rw_def computed_rw_def tupleToUserset_rw_def

lemma isThis_this [simp]: "isThis this_rw"
  by (simp add: isThis_def this_rw_def)

lemma not_isThis_cases:
  assumes "\<not> isThis r"
  obtains (Union) "rw_Union r \<noteq> []"
    | (Inter) "rw_Union r = []" "rw_Intersection r \<noteq> []"
    | (Excl) inc exc where "rw_Union r = []" "rw_Intersection r = []" "rw_Exclusion r = Some (inc, exc)"
    | (Comp) "rw_Union r = []" "rw_Intersection r = []" "rw_Exclusion r = None" "rw_Computed r \<noteq> []"
    | (TTU) "rw_Union r = []" "rw_Intersection r = []" "rw_Exclusion r = None" "rw_Computed r = []"
        "rw_TuplesetRelation r \<noteq> []"
  using assms unfolding isThis_def length_0_conv
  by (metis option.exhaust surj_pair)

end
