(* ===== verification/GoStd.thy ===== *)
theory GoStd
  imports Prelude
begin

section \<open>What the code uses of Go's standard library\<close>

text \<open>
  \<^verbatim>\<open>strconv.Itoa\<close>, \<^verbatim>\<open>net.ParseIP\<close>, \<^verbatim>\<open>net.ParseCIDR\<close> with \<^verbatim>\<open>IPNet.Contains\<close>, \<^verbatim>\<open>time.Parse\<close> with the
  RFC3339 layout, float64 conversion of integers, and string order. These are the library
  functions the modelled code calls; they are written after the library's own algorithms, byte
  by byte, with \<^const>\<open>None\<close> for an error. IP addresses are lists of byte values.
\<close>

subsection \<open>Bytes and strings\<close>

abbreviation code_of :: "char \<Rightarrow> nat" where
  "code_of c \<equiv> of_char c"

definition is_digit :: "char \<Rightarrow> bool" where
  "is_digit c \<longleftrightarrow> 48 \<le> code_of c \<and> code_of c \<le> 57"

definition digit_val :: "char \<Rightarrow> nat" where
  "digit_val c = code_of c - 48"

text \<open>\<^verbatim>\<open>strconv.Itoa\<close> on a non-negative integer.\<close>

fun Itoa :: "nat \<Rightarrow> string" where
  "Itoa n = (if n < 10 then [char_of (48 + n)] else Itoa (n div 10) @ [char_of (48 + n mod 10)])"

declare Itoa.simps [simp del]

text \<open>Go compares strings byte by byte.\<close>

fun str_less :: "string \<Rightarrow> string \<Rightarrow> bool" where
  "str_less [] ys = (ys \<noteq> [])"
| "str_less (x # xs) [] = False"
| "str_less (x # xs) (y # ys) =
     (code_of x < code_of y \<or> (code_of x = code_of y \<and> str_less xs ys))"

fun starts_with :: "string \<Rightarrow> string \<Rightarrow> bool" where
  "starts_with s [] = True"
| "starts_with [] (p # ps) = False"
| "starts_with (c # cs) (p # ps) = (c = p \<and> starts_with cs ps)"

text \<open>
  \<^verbatim>\<open>sort.Slice\<close> with a strict order \<open>lt\<close>. The library's sort is not stable; every list the code
  sorts has pairwise distinct sort keys, so the result is determined.
\<close>

fun insert_by :: "('a \<Rightarrow> 'a \<Rightarrow> bool) \<Rightarrow> 'a \<Rightarrow> 'a list \<Rightarrow> 'a list" where
  "insert_by lt x [] = [x]"
| "insert_by lt x (y # ys) = (if lt y x then y # insert_by lt x ys else x # y # ys)"

definition sort_Slice :: "('a \<Rightarrow> 'a \<Rightarrow> bool) \<Rightarrow> 'a list \<Rightarrow> 'a list" where
  "sort_Slice lt xs = foldr (insert_by lt) xs []"

lemma set_insert_by [simp]: "set (insert_by lt x ys) = insert x (set ys)"
  by (induction ys) auto

lemma set_sort_Slice [simp]: "set (sort_Slice lt xs) = set xs"
  by (induction xs) (auto simp: sort_Slice_def)

lemma length_insert_by [simp]: "length (insert_by lt x ys) = Suc (length ys)"
  by (induction ys) auto

lemma length_sort_Slice [simp]: "length (sort_Slice lt xs) = length xs"
  by (induction xs) (auto simp: sort_Slice_def)

lemma sorted_insert_by:
  assumes "\<And>a b. lt a b \<Longrightarrow> \<not> lt b a" and "\<And>a b c. \<not> lt b a \<Longrightarrow> \<not> lt c b \<Longrightarrow> \<not> lt c a"
    and "sorted_wrt (\<lambda>a b. \<not> lt b a) ys"
  shows "sorted_wrt (\<lambda>a b. \<not> lt b a) (insert_by lt x ys)"
  using assms(3)
proof (induction ys)
  case Nil
  then show ?case by simp
next
  case (Cons y ys)
  then have tail: "\<forall>z \<in> set ys. \<not> lt z y" "sorted_wrt (\<lambda>a b. \<not> lt b a) ys" by simp_all
  show ?case
  proof (cases "lt y x")
    case True
    then have "\<not> lt x y" by (rule assms(1))
    with True tail Cons.IH show ?thesis by simp
  next
    case False
    with tail have "\<forall>z \<in> set ys. \<not> lt z x" using assms(2) by metis
    with False tail show ?thesis by simp
  qed
qed

lemma sorted_sort_Slice:
  assumes "\<And>a b. lt a b \<Longrightarrow> \<not> lt b a" and "\<And>a b c. \<not> lt b a \<Longrightarrow> \<not> lt c b \<Longrightarrow> \<not> lt c a"
  shows "sorted_wrt (\<lambda>a b. \<not> lt b a) (sort_Slice lt xs)"
proof (induction xs)
  case Nil
  show ?case by (simp add: sort_Slice_def)
next
  case (Cons x xs)
  have "sort_Slice lt (x # xs) = insert_by lt x (sort_Slice lt xs)" by (simp add: sort_Slice_def)
  moreover have "sorted_wrt (\<lambda>a b. \<not> lt b a) (insert_by lt x (sort_Slice lt xs))"
    by (rule sorted_insert_by) (fact assms Cons.IH)+
  ultimately show ?case by (simp only:)
qed

text \<open>The decimal value of a digit string.\<close>

definition dec_val :: "string \<Rightarrow> nat" where
  "dec_val ds = foldl (\<lambda>a c. a * 10 + digit_val c) 0 ds"

subsection \<open>IP addresses\<close>

text \<open>
  \<^verbatim>\<open>parseIPv4Fields\<close>: the state is the current octet, its number of digits, the octets read so
  far and whether the previous byte was a dot (or the string has just begun).
\<close>

fun parseIPv4Fields :: "string \<Rightarrow> nat \<Rightarrow> nat \<Rightarrow> nat list \<Rightarrow> bool \<Rightarrow> nat list option" where
  "parseIPv4Fields [] val digLen fields dot =
     (if length fields < 3 then None else Some (fields @ [val]))"
| "parseIPv4Fields (c # cs) val digLen fields dot =
     (if is_digit c then
        (if digLen = 1 \<and> val = 0 then None
         else (let val' = val * 10 + digit_val c in
               if val' > 255 then None else parseIPv4Fields cs val' (digLen + 1) fields False))
      else if c = CHR ''.'' then
        (if dot \<or> cs = [] then None
         else if length fields = 3 then None
         else parseIPv4Fields cs 0 0 (fields @ [val]) True)
      else None)"

definition parseIPv4 :: "string \<Rightarrow> nat list option" where
  "parseIPv4 s = parseIPv4Fields s 0 0 [] True"

definition hex_val :: "char \<Rightarrow> nat option" where
  "hex_val c = (let n = code_of c in
     if 48 \<le> n \<and> n \<le> 57 then Some (n - 48)
     else if 97 \<le> n \<and> n \<le> 102 then Some (n - 87)
     else if 65 \<le> n \<and> n \<le> 70 then Some (n - 55)
     else None)"

text \<open>
  One hexadecimal group of \<^verbatim>\<open>parseIPv6\<close>: the value, the number of digits and the rest. Five
  digits fail; four cannot exceed 16 bits.
\<close>

fun hex_group :: "string \<Rightarrow> nat \<Rightarrow> nat \<Rightarrow> (nat \<times> nat \<times> string) option" where
  "hex_group [] off acc = Some (acc, off, [])"
| "hex_group (c # cs) off acc =
     (case hex_val c of
        None \<Rightarrow> Some (acc, off, c # cs)
      | Some v \<Rightarrow> if off > 3 then None else hex_group cs (off + 1) (acc * 16 + v))"

text \<open>
  The main loop of \<^verbatim>\<open>parseIPv6\<close>: at most eight groups are read (the first argument counts the
  groups that still fit). The result is the bytes read, the ellipsis position and the rest.
\<close>

fun ipv6_loop :: "nat \<Rightarrow> string \<Rightarrow> nat list \<Rightarrow> nat option \<Rightarrow> (nat list \<times> nat option \<times> string) option" where
  "ipv6_loop 0 s bytes ell = Some (bytes, ell, s)"
| "ipv6_loop (Suc k) s bytes ell =
     (case hex_group s 0 0 of
        None \<Rightarrow> None
      | Some (acc, off, rest) \<Rightarrow>
          if off = 0 then None
          else if rest \<noteq> [] \<and> hd rest = CHR ''.'' then
            (if ell = None \<and> length bytes \<noteq> 12 then None
             else if length bytes + 4 > 16 then None
             else (case parseIPv4 s of
                     None \<Rightarrow> None
                   | Some fields \<Rightarrow> Some (bytes @ fields, ell, [])))
          else
            (let bytes' = bytes @ [acc div 256, acc mod 256] in
             if rest = [] then Some (bytes', ell, [])
             else if hd rest \<noteq> CHR '':'' \<or> tl rest = [] then None
             else (let s' = tl rest in
                   if hd s' = CHR '':'' then
                     (if ell \<noteq> None then None
                      else if tl s' = [] then Some (bytes', Some (length bytes'), [])
                      else ipv6_loop k (tl s') bytes' (Some (length bytes')))
                   else ipv6_loop k s' bytes' ell)))"

definition expand_ellipsis :: "nat list \<Rightarrow> nat option \<Rightarrow> nat list option" where
  "expand_ellipsis bytes ell =
     (if length bytes < 16 then
        (case ell of None \<Rightarrow> None
         | Some e \<Rightarrow> Some (take e bytes @ replicate (16 - length bytes) 0 @ drop e bytes))
      else if ell \<noteq> None then None else Some bytes)"

text \<open>
  \<^verbatim>\<open>parseIPv6\<close>. An address with a zone is rejected by both callers (\<^verbatim>\<open>Zone() != ""\<close>), and an
  empty zone is an error, so any percent sign is an error here.
\<close>

definition parseIPv6 :: "string \<Rightarrow> nat list option" where
  "parseIPv6 s =
     (if CHR ''%'' \<in> set s then None
      else if starts_with s ''::'' then
        (if drop 2 s = [] then Some (replicate 16 0)
         else (case ipv6_loop 8 (drop 2 s) [] (Some 0) of
                 None \<Rightarrow> None
               | Some (bytes, ell, rest) \<Rightarrow> if rest \<noteq> [] then None else expand_ellipsis bytes ell))
      else (case ipv6_loop 8 s [] None of
              None \<Rightarrow> None
            | Some (bytes, ell, rest) \<Rightarrow> if rest \<noteq> [] then None else expand_ellipsis bytes ell))"

definition v4InV6Prefix :: "nat list" where
  "v4InV6Prefix = replicate 10 0 @ [255, 255]"

text \<open>
  \<^verbatim>\<open>netip.ParseAddr\<close> with \<^verbatim>\<open>As16\<close> and \<^verbatim>\<open>BitLen\<close>: the first dot, colon or percent sign
  decides the family.
\<close>

fun first_sep :: "string \<Rightarrow> char option" where
  "first_sep [] = None"
| "first_sep (c # cs) = (if c = CHR ''.'' \<or> c = CHR '':'' \<or> c = CHR ''%'' then Some c else first_sep cs)"

definition ParseAddr :: "string \<Rightarrow> (nat list \<times> nat) option" where
  "ParseAddr s =
     (if first_sep s = Some (CHR ''.'') then
        (case parseIPv4 s of None \<Rightarrow> None | Some b \<Rightarrow> Some (v4InV6Prefix @ b, 32))
      else if first_sep s = Some (CHR '':'') then
        (case parseIPv6 s of None \<Rightarrow> None | Some b \<Rightarrow> Some (b, 128))
      else None)"

definition ParseIP :: "string \<Rightarrow> nat list option" where
  "ParseIP s = map_option fst (ParseAddr s)"

definition To4 :: "nat list \<Rightarrow> nat list option" where
  "To4 ip = (if length ip = 4 then Some ip
     else if length ip = 16 \<and> take 12 ip = v4InV6Prefix then Some (drop 12 ip) else None)"

text \<open>A network is the 16-byte address, as parsed, and the number of leading ones of its mask
  with the mask's width in bits (32 or 128).\<close>

record ipnet =
  net_IP :: "nat list"
  net_ones :: nat
  net_bits :: nat

text \<open>\<^verbatim>\<open>dtoi\<close> on the whole mask string; values from \<^verbatim>\<open>0xFFFFFF\<close> on are an error.\<close>

definition dtoi :: "string \<Rightarrow> nat option" where
  "dtoi s = (if s \<noteq> [] \<and> list_all is_digit s \<and> dec_val s < 16777215 then Some (dec_val s) else None)"

text \<open>The \<open>i\<close>-th byte of a mask with \<open>ones\<close> leading ones.\<close>

definition mask_byte :: "nat \<Rightarrow> nat \<Rightarrow> nat" where
  "mask_byte ones i = (let k = min 8 (ones - 8 * i) in 256 - 2 ^ (8 - k))"

definition masked :: "nat \<Rightarrow> nat \<Rightarrow> nat" where
  "masked m b = (if m = 0 then 0 else (b div (256 - m)) * (256 - m))"

definition mask_bytes :: "nat \<Rightarrow> nat list \<Rightarrow> nat list" where
  "mask_bytes ones ip = map (\<lambda>i. masked (mask_byte ones i) (ip ! i)) [0..<length ip]"

definition ParseCIDR :: "string \<Rightarrow> ipnet option" where
  "ParseCIDR s =
     (if CHR ''/'' \<notin> set s then None
      else (let addr = takeWhile (\<lambda>c. c \<noteq> CHR ''/'') s;
                mask = drop (length addr + 1) s in
            (case ParseAddr addr of
               None \<Rightarrow> None
             | Some (ip, bits) \<Rightarrow>
                 (case dtoi mask of
                    None \<Rightarrow> None
                  | Some n \<Rightarrow> if n > bits then None
                      else Some \<lparr>net_IP = (if bits = 32 then mask_bytes n (drop 12 ip) else mask_bytes n ip),
                                 net_ones = n, net_bits = bits\<rparr>))))"

text \<open>
  \<^verbatim>\<open>IPNet.Contains\<close>. \<^verbatim>\<open>networkNumberAndMask\<close> reduces a 4-in-6 network number to four bytes and
  then uses the last four bytes of a 16-byte mask.
\<close>

definition net_Contains :: "ipnet \<Rightarrow> nat list \<Rightarrow> bool" where
  "net_Contains n ip =
     (let nn = (case To4 (net_IP n) of Some x \<Rightarrow> x | None \<Rightarrow> net_IP n);
          ones = (if length nn = 4 \<and> net_bits n = 128 then net_ones n - 96 else net_ones n);
          x = (case To4 ip of Some x \<Rightarrow> x | None \<Rightarrow> ip) in
      length x = length nn \<and> mask_bytes ones nn = mask_bytes ones x)"

subsection \<open>time.Parse with the RFC3339 layout\<close>

text \<open>\<^verbatim>\<open>getnum\<close>: two digits, or one when not \<open>fixed\<close>.\<close>

definition getnum :: "string \<Rightarrow> bool \<Rightarrow> (nat \<times> string) option" where
  "getnum s fixed =
     (case s of
        [] \<Rightarrow> None
      | c # cs \<Rightarrow>
          if \<not> is_digit c then None
          else (case cs of
                  [] \<Rightarrow> if fixed then None else Some (digit_val c, cs)
                | d # ds \<Rightarrow> if is_digit d then Some (digit_val c * 10 + digit_val d, ds)
                            else if fixed then None else Some (digit_val c, cs)))"

definition skip_char :: "char \<Rightarrow> string \<Rightarrow> string option" where
  "skip_char c s = (case s of [] \<Rightarrow> None | x # xs \<Rightarrow> if x = c then Some xs else None)"

definition isLeap :: "nat \<Rightarrow> bool" where
  "isLeap y \<longleftrightarrow> y mod 4 = 0 \<and> (y mod 100 \<noteq> 0 \<or> y mod 400 = 0)"

definition daysIn :: "nat \<Rightarrow> nat \<Rightarrow> nat" where
  "daysIn month year =
     (if month = 2 then (if isLeap year then 29 else 28)
      else if month \<in> {4, 6, 9, 11} then 30 else 31)"

text \<open>Days from 1 January of year 0 to the given date, in the proleptic Gregorian calendar.\<close>

definition days_before_year :: "nat \<Rightarrow> int" where
  "days_before_year y = (if y = 0 then 0
     else 365 * int y + int ((y - 1) div 4) - int ((y - 1) div 100) + int ((y - 1) div 400) + 1)"

definition date_days :: "nat \<Rightarrow> nat \<Rightarrow> nat \<Rightarrow> int" where
  "date_days year month day =
     days_before_year year + (\<Sum>k\<leftarrow>[1..<month]. int (daysIn k year)) + int day - 1"

text \<open>Fractional seconds after the seconds field: at most nine digits count, all are skipped.\<close>

definition parse_frac :: "string \<Rightarrow> nat \<times> string" where
  "parse_frac s =
     (case s of
        c # d # rest \<Rightarrow>
          if (c = CHR ''.'' \<or> c = CHR '','') \<and> is_digit d
          then (let ds = takeWhile is_digit (d # rest); ds9 = take 9 ds in
                (dec_val ds9 * 10 ^ (9 - length ds9), dropWhile is_digit (d # rest)))
          else (0, s)
      | _ \<Rightarrow> (0, s))"

text \<open>The zone field: \<^verbatim>\<open>Z\<close>, or a sign and \<^verbatim>\<open>hh:mm\<close> with the library's lenient ranges; the
  value is the offset in seconds.\<close>

definition parse_zone :: "string \<Rightarrow> (int \<times> string) option" where
  "parse_zone s =
     (if s \<noteq> [] \<and> hd s = CHR ''Z'' then Some (0, tl s)
      else if length s < 6 then None
      else if s ! 3 \<noteq> CHR '':'' then None
      else (case getnum (take 2 (drop 1 s)) True of
              None \<Rightarrow> None
            | Some (hr, _) \<Rightarrow>
                (case getnum (take 2 (drop 4 s)) True of
                   None \<Rightarrow> None
                 | Some (mm, _) \<Rightarrow>
                     if hr > 24 \<or> mm > 60 then None
                     else if s ! 0 = CHR ''+'' then Some (int ((hr * 60 + mm) * 60), drop 6 s)
                     else if s ! 0 = CHR ''-'' then Some (- int ((hr * 60 + mm) * 60), drop 6 s)
                     else None)))"

text \<open>The whole parse: the result is the instant in nanoseconds since year 0, UTC.\<close>

definition ParseRFC3339 :: "string \<Rightarrow> int option" where
  "ParseRFC3339 s =
     (if length s < 4 \<or> \<not> list_all is_digit (take 4 s) then None
      else (let year = dec_val (take 4 s) in
        Option.bind (skip_char CHR ''-'' (drop 4 s)) (\<lambda>s1.
        Option.bind (getnum s1 True) (\<lambda>(month, s2).
        if month = 0 \<or> 12 < month then None else
        Option.bind (skip_char CHR ''-'' s2) (\<lambda>s3.
        Option.bind (getnum s3 True) (\<lambda>(day, s4).
        Option.bind (skip_char CHR ''T'' s4) (\<lambda>s5.
        Option.bind (getnum s5 False) (\<lambda>(hour, s6).
        if 24 \<le> hour then None else
        Option.bind (skip_char CHR '':'' s6) (\<lambda>s7.
        Option.bind (getnum s7 True) (\<lambda>(mnt, s8).
        if 60 \<le> mnt then None else
        Option.bind (skip_char CHR '':'' s8) (\<lambda>s9.
        Option.bind (getnum s9 True) (\<lambda>(sec, s10).
        if 60 \<le> sec then None else
        (case parse_frac s10 of (nsec, s11) \<Rightarrow>
        Option.bind (parse_zone s11) (\<lambda>(off, s12).
        if s12 \<noteq> [] then None
        else if day < 1 \<or> day > daysIn month year then None
        else Some (((date_days year month day * 24 + int hour) * 60 + int mnt) * 60 * 1000000000
                   + int sec * 1000000000 + int nsec - off * 1000000000)))))))))))))))"

subsection \<open>float64\<close>

text \<open>
  Conversion of an integer to float64: exact up to 53 bits, otherwise rounded to nearest, ties
  to even.
\<close>

definition round_shift :: "nat \<Rightarrow> nat \<Rightarrow> nat" where
  "round_shift k n =
     (let q = n div 2 ^ k; r = n mod 2 ^ k; half = 2 ^ k div 2 in
      (if r < half \<or> k = 0 \<or> (r = half \<and> even q) then q else q + 1) * 2 ^ k)"

fun excess_bits :: "nat \<Rightarrow> nat" where
  "excess_bits n = (if n < 2 ^ 53 then 0 else Suc (excess_bits (n div 2)))"

declare excess_bits.simps [simp del]

definition float_of_int :: "int \<Rightarrow> int" where
  "float_of_int n = sgn n * int (round_shift (excess_bits (nat \<bar>n\<bar>)) (nat \<bar>n\<bar>))"

subsection \<open>Decimal numerals\<close>

lemma code_of_char_of_digit: "d < 10 \<Longrightarrow> code_of (char_of (48 + d)) = 48 + d"
  by (simp add: of_char_of)

lemma Itoa_digits: "c \<in> set (Itoa n) \<Longrightarrow> is_digit c"
  by (induction n rule: Itoa.induct)
    (subst (asm) (2) Itoa.simps, auto simp: is_digit_def code_of_char_of_digit split: if_splits)

lemma dec_val_snoc: "dec_val (ds @ [c]) = dec_val ds * 10 + digit_val c"
  by (simp add: dec_val_def)

lemma dec_val_Itoa [simp]: "dec_val (Itoa n) = n"
proof (induction n rule: Itoa.induct)
  case (1 n)
  show ?case
  proof (cases "n < 10")
    case True
    then show ?thesis
      by (subst Itoa.simps) (simp add: dec_val_def digit_val_def code_of_char_of_digit)
  next
    case False
    then show ?thesis
      using 1 by (subst Itoa.simps) (simp add: dec_val_snoc digit_val_def code_of_char_of_digit)
  qed
qed

lemma Itoa_inject: "Itoa m = Itoa n \<longleftrightarrow> m = n"
  by (metis dec_val_Itoa)

lemma Itoa_nonempty [simp]: "Itoa n \<noteq> []"
  by (subst Itoa.simps) simp

lemma Itoa_no_leading_zero: "1 < length (Itoa n) \<Longrightarrow> hd (Itoa n) \<noteq> CHR ''0''"
proof (induction n rule: Itoa.induct)
  case (1 n)
  show ?case
  proof (cases "n < 10")
    case True
    with "1.prems" show ?thesis by (subst (asm) Itoa.simps) simp
  next
    case False
    then have n: "Itoa n = Itoa (n div 10) @ [char_of (48 + n mod 10)]" by (subst Itoa.simps) simp
    show ?thesis
    proof (cases "1 < length (Itoa (n div 10))")
      case True
      with 1 False show ?thesis by (simp add: n)
    next
      case short: False
      have small: "n div 10 < 10"
      proof (rule ccontr)
        assume big: "\<not> n div 10 < 10"
        then have "Itoa (n div 10) = Itoa (n div 10 div 10) @ [char_of (48 + n div 10 mod 10)]"
          by (subst Itoa.simps) simp
        with short show False by (cases "Itoa (n div 10 div 10)") auto
      qed
      then have "Itoa (n div 10) = [char_of (48 + n div 10)]" by (subst Itoa.simps) simp
      then have hd: "hd (Itoa n) = char_of (48 + n div 10)" by (simp add: n)
      have "48 + n div 10 \<noteq> (48::nat)" using False by simp
      then have "code_of (hd (Itoa n)) \<noteq> (48::nat)"
        unfolding hd code_of_char_of_digit [OF small] .
      then show ?thesis by auto
    qed
  qed
qed

end
