(* ===== verification/Authz_Conditions.thy ===== *)
theory Authz_Conditions
  imports Authz_Model GoStd
begin

section \<open>Conditions on grants (pkg/authz/conditions.go)\<close>

text \<open>
  The pinned registry of conditions and its evaluation. A condition function returns a result:
  the error side is every missing or ill-typed input. The two maps are the parameters stored
  with the grant and the context of the request.
\<close>

type_synonym conditionFunc = "params \<Rightarrow> params \<Rightarrow> bool result"

subsection \<open>Typed field helpers\<close>

definition boolField :: "params \<Rightarrow> string \<Rightarrow> bool result" where
  "boolField m k =
     (case map_of m k of
        None \<Rightarrow> Inl (ErrOther ''missing'')
      | Some (ABool b) \<Rightarrow> Inr b
      | Some _ \<Rightarrow> Inl (ErrOther ''must be a bool''))"

definition numField :: "params \<Rightarrow> string \<Rightarrow> float64 result" where
  "numField m k =
     (case map_of m k of
        None \<Rightarrow> Inl (ErrOther ''missing'')
      | Some (AFloat n) \<Rightarrow> Inr n
      | Some (AInt n) \<Rightarrow> Inr (Fin (of_int (float_of_int n)))
      | Some (AInt64 n) \<Rightarrow> Inr (Fin (of_int (float_of_int n)))
      | Some _ \<Rightarrow> Inl (ErrOther ''must be a number''))"

definition strField :: "params \<Rightarrow> string \<Rightarrow> string result" where
  "strField m k =
     (case map_of m k of
        None \<Rightarrow> Inl (ErrOther ''missing'')
      | Some (AStr s) \<Rightarrow> Inr s
      | Some _ \<Rightarrow> Inl (ErrOther ''must be a string''))"

fun all_strings :: "any list \<Rightarrow> string list result" where
  "all_strings [] = Inr []"
| "all_strings (e # es) =
     (case e of
        AStr s \<Rightarrow> (case all_strings es of Inl err \<Rightarrow> Inl err | Inr out \<Rightarrow> Inr (s # out))
      | _ \<Rightarrow> Inl (ErrOther ''must be an array of strings''))"

definition strSliceField :: "params \<Rightarrow> string \<Rightarrow> string list result" where
  "strSliceField m k =
     (case map_of m k of
        None \<Rightarrow> Inl (ErrOther ''missing'')
      | Some (AStrs a) \<Rightarrow> Inr a
      | Some (AList a) \<Rightarrow> all_strings a
      | Some _ \<Rightarrow> Inl (ErrOther ''must be an array of strings''))"

text \<open>The float64 comparison \<^verbatim>\<open>a >= b\<close>: every comparison with NaN is false.\<close>

fun float_ge :: "float64 \<Rightarrow> float64 \<Rightarrow> bool" where
  "float_ge NaN b = False"
| "float_ge a NaN = False"
| "float_ge PosInf b = True"
| "float_ge a NegInf = True"
| "float_ge (Fin a) (Fin b) = (b \<le> a)"
| "float_ge a b = False"

subsection \<open>Built-in conditions\<close>

definition condConsentGranted :: conditionFunc where
  "condConsentGranted _ ctx = boolField ctx ''consent''"

definition condAgeAtLeast :: conditionFunc where
  "condAgeAtLeast params ctx =
     (case numField params ''min_age'' of
        Inl err \<Rightarrow> Inl err
      | Inr mn \<Rightarrow> (case numField ctx ''age'' of Inl err \<Rightarrow> Inl err | Inr age \<Rightarrow> Inr (float_ge age mn)))"

fun ip_in_any :: "nat list \<Rightarrow> string list \<Rightarrow> bool result" where
  "ip_in_any ip [] = Inr False"
| "ip_in_any ip (c # cs) =
     (case ParseCIDR c of
        None \<Rightarrow> Inl (ErrOther ''invalid cidr'')
      | Some network \<Rightarrow> if net_Contains network ip then Inr True else ip_in_any ip cs)"

definition condIPInCIDRs :: conditionFunc where
  "condIPInCIDRs params ctx =
     (case strField ctx ''ip'' of
        Inl err \<Rightarrow> Inl err
      | Inr ipStr \<Rightarrow>
          (case ParseIP ipStr of
             None \<Rightarrow> Inl (ErrOther ''not an IP address'')
           | Some ip \<Rightarrow>
               (case strSliceField params ''cidrs'' of
                  Inl err \<Rightarrow> Inl err
                | Inr cidrs \<Rightarrow> ip_in_any ip cidrs)))"

definition condNotAfter :: conditionFunc where
  "condNotAfter params ctx =
     (case strField params ''until'' of
        Inl err \<Rightarrow> Inl err
      | Inr untilStr \<Rightarrow>
          (case ParseRFC3339 untilStr of
             None \<Rightarrow> Inl (ErrOther ''invalid until'')
           | Some until \<Rightarrow>
               (case strField ctx ''now'' of
                  Inl err \<Rightarrow> Inl err
                | Inr nowStr \<Rightarrow>
                    (case ParseRFC3339 nowStr of
                       None \<Rightarrow> Inl (ErrOther ''invalid now'')
                     | Some now \<Rightarrow> Inr (\<not> until < now)))))"

definition condScopeIn :: conditionFunc where
  "condScopeIn params ctx =
     (case strField ctx ''scope'' of
        Inl err \<Rightarrow> Inl err
      | Inr scope \<Rightarrow>
          (case strSliceField params ''allowed'' of
             Inl err \<Rightarrow> Inl err
           | Inr allowed \<Rightarrow> Inr (list_ex (\<lambda>a. a = scope) allowed)))"

definition conditionRegistry :: "(string, conditionFunc) gomap" where
  "conditionRegistry =
    [(''consent_granted'', condConsentGranted),
     (''age_at_least'', condAgeAtLeast),
     (''ip_in_cidrs'', condIPInCIDRs),
     (''not_after'', condNotAfter),
     (''scope_in'', condScopeIn)]"

definition KnownCondition :: "string \<Rightarrow> bool" where
  "KnownCondition name = (map_of conditionRegistry name \<noteq> None)"

definition EvalCondition :: "condition option \<Rightarrow> params \<Rightarrow> bool" where
  "EvalCondition c ctx =
     (case c of
        None \<Rightarrow> True
      | Some cd \<Rightarrow>
          if c_Name cd = [] then True
          else (case map_of conditionRegistry (c_Name cd) of
                  None \<Rightarrow> False
                | Some fn \<Rightarrow> (case fn (c_Params cd) ctx of Inl err \<Rightarrow> False | Inr ok \<Rightarrow> ok)))"

end
