(* ===== verification/Authz_Engine.thy ===== *)
theory Authz_Engine
  imports Authz_Conditions
begin

section \<open>The check engine (pkg/authz/engine.go, pkg/authz/backstop.go)\<close>

text \<open>
  The evaluation of a relation against the model and the stored tuples. The tuple store and the
  model resolver are fields of the engine, as in the code. The scratch state \<^verbatim>\<open>*evalState\<close> is
  passed and returned; it also carries the backstop collector the Go code keeps in the context.
  The recursion \<^verbatim>\<open>check\<close> at \<^verbatim>\<open>depth+1\<close> is an argument (\<open>rec\<close>) of the functions below
  \<^verbatim>\<open>check\<close>, which recurse structurally on the rewrite or on the list of subjects, and \<open>check\<close>
  ties the knot: it terminates because the depth is bounded.
\<close>

subsection \<open>Backstops\<close>

datatype backstopReason = BackstopDepth | BackstopCycle | BackstopBudget

record backstops =
  b_Depth :: int
  b_Cycle :: int
  b_Budget :: int

definition WithBackstops :: backstops where
  "WithBackstops = \<lparr>b_Depth = 0, b_Cycle = 0, b_Budget = 0\<rparr>"

subsection \<open>State and engine\<close>

record evalState =
  visited :: "string set"
  memo :: "string \<rightharpoonup> bool"
  cyclesSeen :: int
  reads :: int
  maxReads :: int
  collector :: "backstops option"

definition newEvalState :: "backstops option \<Rightarrow> int \<Rightarrow> evalState" where
  "newEvalState b mx =
     \<lparr>visited = {}, memo = Map.empty, cyclesSeen = 0, reads = 0, maxReads = mx, collector = b\<rparr>"

definition recordBackstop :: "backstopReason \<Rightarrow> evalState \<Rightarrow> evalState" where
  "recordBackstop reason st =
     (case collector st of
        None \<Rightarrow> st
      | Some b \<Rightarrow> st\<lparr>collector := Some
          (case reason of
             BackstopDepth \<Rightarrow> b\<lparr>b_Depth := b_Depth b + 1\<rparr>
           | BackstopCycle \<Rightarrow> b\<lparr>b_Cycle := b_Cycle b + 1\<rparr>
           | BackstopBudget \<Rightarrow> b\<lparr>b_Budget := b_Budget b + 1\<rparr>)\<rparr>)"

definition charge :: "evalState \<Rightarrow> unit result \<times> evalState" where
  "charge st =
     (let st' = st\<lparr>reads := reads st + 1\<rparr> in
      if maxReads st' > 0 \<and> reads st' > maxReads st' then (Inl ErrEvalBudgetExceeded, st')
      else (Inr (), st'))"

text \<open>
  The two store interfaces. A reader that is not an \<^verbatim>\<open>ObjectLister\<close> has no lister.
\<close>

type_synonym tupleReader =
  "string \<Rightarrow> string \<Rightarrow> string \<Rightarrow> string \<Rightarrow> string \<Rightarrow> subject list result"

type_synonym objectLister = "string \<Rightarrow> string \<Rightarrow> string \<Rightarrow> string list result"

record engine =
  resolver :: "string \<Rightarrow> model result"
  reader :: tupleReader
  lister :: "objectLister option"
  maxDepth :: int
  e_maxReads :: int
  maxListObjects :: int

definition maxRecursionDepth :: int where "maxRecursionDepth = 32"
definition fanOutHeadroom :: int where "fanOutHeadroom = 2"
definition defaultCheckSetFanOutCandidates :: int where "defaultCheckSetFanOutCandidates = 1000"

definition NewEngine :: "(string \<Rightarrow> model result) option \<Rightarrow> tupleReader \<Rightarrow> objectLister option \<Rightarrow> engine" where
  "NewEngine res rdr lst =
     \<lparr>resolver = (case res of None \<Rightarrow> StaticResolver DefaultModel | Some r \<Rightarrow> r),
      reader = rdr, lister = lst, maxDepth = maxRecursionDepth, e_maxReads = 0, maxListObjects = 0\<rparr>"

definition WithMaxReads :: "int \<Rightarrow> engine \<Rightarrow> engine" where
  "WithMaxReads n e = (if n > 0 then e\<lparr>e_maxReads := n\<rparr> else e)"

definition WithMaxListObjects :: "int \<Rightarrow> engine \<Rightarrow> engine" where
  "WithMaxListObjects n e = (if n > 0 then e\<lparr>maxListObjects := n\<rparr> else e)"

subsection \<open>Budgets\<close>

text \<open>The products of the two budgets wrap around at the width of a Go \<^verbatim>\<open>int\<close>.\<close>

definition go_int :: "int \<Rightarrow> int" where
  "go_int x = (x + 2 ^ 63) mod 2 ^ 64 - 2 ^ 63"

definition effectiveMaxReads :: "engine \<Rightarrow> int \<Rightarrow> int" where
  "effectiveMaxReads e override = (if override > 0 then override else e_maxReads e)"

definition fanOutBudget :: "engine \<Rightarrow> int \<Rightarrow> int \<Rightarrow> int" where
  "fanOutBudget e base candidates =
     (if base \<le> 0 then 0
      else (let scaled = go_int (go_int (candidates * maxDepth e) * fanOutHeadroom) in
            if scaled > base then scaled else base))"

definition expandBudget :: "engine \<Rightarrow> int \<Rightarrow> int \<Rightarrow> int" where
  "expandBudget e base maxNodes =
     (if base \<le> 0 then 0
      else (let scaled = go_int (maxNodes * fanOutHeadroom) in
            if scaled > base then scaled else base))"

definition maxListObjectsOrDefault :: "engine \<Rightarrow> int" where
  "maxListObjectsOrDefault e =
     (if maxListObjects e > 0 then maxListObjects e else defaultCheckSetFanOutCandidates)"

subsection \<open>Check\<close>

record subjectQuery =
  q_user :: string
  q_set :: "subjectSet option"

type_synonym 'a eval = "evalState \<Rightarrow> 'a result \<times> evalState"
type_synonym checker = "string \<Rightarrow> string \<Rightarrow> string \<Rightarrow> bool \<Rightarrow> bool eval"

definition visitKey :: "string \<Rightarrow> string \<Rightarrow> string \<Rightarrow> string" where
  "visitKey ns obj rel = ns @ '':'' @ obj @ ''#'' @ rel"

definition FormatBool :: "bool \<Rightarrow> string" where
  "FormatBool b = (if b then ''true'' else ''false'')"

definition memoKey :: "string \<Rightarrow> bool \<Rightarrow> string" where
  "memoKey key negated = key @ [char_of (31::nat)] @ FormatBool negated"

fun evalThisLoop :: "subjectQuery \<Rightarrow> params \<Rightarrow> checker \<Rightarrow> bool \<Rightarrow> subject list \<Rightarrow> bool eval" where
  "evalThisLoop q cc rec negated [] st = (Inr False, st)"
| "evalThisLoop q cc rec negated (s # ss) st =
     (if \<not> EvalCondition (s_Condition s) cc then evalThisLoop q cc rec negated ss st
      else if Wildcard s then (Inr True, st)
      else (case s_Set s of
              None \<Rightarrow>
                if q_user q \<noteq> [] \<and> UserID s = q_user q then (Inr True, st)
                else evalThisLoop q cc rec negated ss st
            | Some sset \<Rightarrow>
                if q_set q = Some sset then (Inr True, st)
                else (case rec (ss_Namespace sset) (ss_ObjectID sset) (ss_Relation sset) negated st of
                        (Inl err, st') \<Rightarrow> (Inl err, st')
                      | (Inr ok, st') \<Rightarrow>
                          if ok then (Inr True, st') else evalThisLoop q cc rec negated ss st')))"

definition evalThis ::
  "engine \<Rightarrow> string \<Rightarrow> string \<Rightarrow> subjectQuery \<Rightarrow> params \<Rightarrow> checker \<Rightarrow> string \<Rightarrow> string \<Rightarrow> string \<Rightarrow> bool \<Rightarrow> bool eval" where
  "evalThis e p t q cc rec ns obj rel negated st =
     (case charge st of
        (Inl err, st') \<Rightarrow> (Inl err, recordBackstop BackstopBudget st')
      | (Inr _, st') \<Rightarrow>
          (case reader e p t ns obj rel of
             Inl err \<Rightarrow> (Inl err, st')
           | Inr subjects \<Rightarrow> evalThisLoop q cc rec negated subjects st'))"

fun evalTTULoop :: "params \<Rightarrow> checker \<Rightarrow> string \<Rightarrow> bool \<Rightarrow> subject list \<Rightarrow> bool eval" where
  "evalTTULoop cc rec crel negated [] st = (Inr False, st)"
| "evalTTULoop cc rec crel negated (s # ss) st =
     (if \<not> EvalCondition (s_Condition s) cc then evalTTULoop cc rec crel negated ss st
      else (case s_Set s of
              None \<Rightarrow> evalTTULoop cc rec crel negated ss st
            | Some sset \<Rightarrow>
                (case rec (ss_Namespace sset) (ss_ObjectID sset) crel negated st of
                   (Inl err, st') \<Rightarrow> (Inl err, st')
                 | (Inr ok, st') \<Rightarrow>
                     if ok then (Inr True, st') else evalTTULoop cc rec crel negated ss st')))"

definition evalTupleToUserset ::
  "engine \<Rightarrow> string \<Rightarrow> string \<Rightarrow> params \<Rightarrow> checker \<Rightarrow> string \<Rightarrow> string \<Rightarrow> rewrite \<Rightarrow> bool \<Rightarrow> bool eval" where
  "evalTupleToUserset e p t cc rec ns obj rw negated st =
     (case charge st of
        (Inl err, st') \<Rightarrow> (Inl err, recordBackstop BackstopBudget st')
      | (Inr _, st') \<Rightarrow>
          (case reader e p t ns obj (rw_TuplesetRelation rw) of
             Inl err \<Rightarrow> (Inl err, st')
           | Inr subjects \<Rightarrow> evalTTULoop cc rec (rw_ComputedRelation rw) negated subjects st'))"

function evalRewrite ::
    "engine \<Rightarrow> string \<Rightarrow> string \<Rightarrow> subjectQuery \<Rightarrow> params \<Rightarrow> checker \<Rightarrow> string \<Rightarrow> string \<Rightarrow> string
      \<Rightarrow> rewrite \<Rightarrow> bool \<Rightarrow> bool eval"
  and evalUnion ::
    "engine \<Rightarrow> string \<Rightarrow> string \<Rightarrow> subjectQuery \<Rightarrow> params \<Rightarrow> checker \<Rightarrow> string \<Rightarrow> string \<Rightarrow> string
      \<Rightarrow> rewrite list \<Rightarrow> bool \<Rightarrow> bool eval"
  and evalIntersection ::
    "engine \<Rightarrow> string \<Rightarrow> string \<Rightarrow> subjectQuery \<Rightarrow> params \<Rightarrow> checker \<Rightarrow> string \<Rightarrow> string \<Rightarrow> string
      \<Rightarrow> rewrite list \<Rightarrow> bool \<Rightarrow> bool eval"
where
  "evalRewrite e p t q cc rec ns obj rel (Rewrite u i x c ts cr) negated st =
     (if isThis (Rewrite u i x c ts cr) then evalThis e p t q cc rec ns obj rel negated st
      else if length u > 0 then evalUnion e p t q cc rec ns obj rel u negated st
      else if length i > 0 then
        (if q_set q \<noteq> None then (Inr False, st)
         else evalIntersection e p t q cc rec ns obj rel i negated st)
      else (case x of
              Some (inc, exc) \<Rightarrow>
                if q_set q \<noteq> None then (Inr False, st)
                else (case evalRewrite e p t q cc rec ns obj rel inc negated st of
                        (Inl err, st1) \<Rightarrow> (Inl err, st1)
                      | (Inr ok, st1) \<Rightarrow>
                          if \<not> ok then (Inr False, st1)
                          else (case evalRewrite e p t q cc rec ns obj rel exc (\<not> negated) st1 of
                                  (Inl err, st2) \<Rightarrow> (Inl err, st2)
                                | (Inr excluded, st2) \<Rightarrow> (Inr (\<not> excluded), st2)))
            | None \<Rightarrow>
                if c \<noteq> [] then rec ns obj c negated st
                else if ts \<noteq> [] then
                  evalTupleToUserset e p t cc rec ns obj (Rewrite u i x c ts cr) negated st
                else (Inr False, st)))"
| "evalUnion e p t q cc rec ns obj rel [] negated st = (Inr False, st)"
| "evalUnion e p t q cc rec ns obj rel (child # rest) negated st =
     (case evalRewrite e p t q cc rec ns obj rel child negated st of
        (Inl err, st') \<Rightarrow> (Inl err, st')
      | (Inr ok, st') \<Rightarrow>
          if ok then (Inr True, st') else evalUnion e p t q cc rec ns obj rel rest negated st')"
| "evalIntersection e p t q cc rec ns obj rel [] negated st = (Inr True, st)"
| "evalIntersection e p t q cc rec ns obj rel (child # rest) negated st =
     (case evalRewrite e p t q cc rec ns obj rel child negated st of
        (Inl err, st') \<Rightarrow> (Inl err, st')
      | (Inr ok, st') \<Rightarrow>
          if \<not> ok then (Inr False, st') else evalIntersection e p t q cc rec ns obj rel rest negated st')"
  by pat_completeness auto
termination
  by (relation "measure (\<lambda>x. case x of Inl (e, p, t, q, cc, rec, ns, obj, rel, rw, n, st) \<Rightarrow> size rw
        | Inr (Inl (e, p, t, q, cc, rec, ns, obj, rel, rws, n, st)) \<Rightarrow> size_list size rws
        | Inr (Inr (e, p, t, q, cc, rec, ns, obj, rel, rws, n, st)) \<Rightarrow> size_list size rws)") auto

function check ::
  "engine \<Rightarrow> model \<Rightarrow> string \<Rightarrow> string \<Rightarrow> subjectQuery \<Rightarrow> params \<Rightarrow> int \<Rightarrow> checker" where
  "check e m p t q cc depth ns obj rel negated st =
     (let key = visitKey ns obj rel in
      if key \<in> visited st then
        (Inr negated, recordBackstop BackstopCycle (st\<lparr>cyclesSeen := cyclesSeen st + 1\<rparr>))
      else if depth > maxDepth e then
        (Inr negated, recordBackstop BackstopDepth (st\<lparr>cyclesSeen := cyclesSeen st + 1\<rparr>))
      else (let mk = memoKey key negated in
        case memo st mk of
          Some r \<Rightarrow> (Inr r, st)
        | None \<Rightarrow>
            (case evalRewrite e p t q cc
                    (\<lambda>ns' obj' rel' negated' st'. check e m p t q cc (depth + 1) ns' obj' rel' negated' st')
                    ns obj rel (rewrite_of m ns rel) negated (st\<lparr>visited := insert key (visited st)\<rparr>) of
               (res, st1) \<Rightarrow>
                 let st2 = st1\<lparr>visited := visited st1 - {key}\<rparr> in
                 (case res of
                    Inl err \<Rightarrow> (Inl err, st2)
                  | Inr r \<Rightarrow>
                      if cyclesSeen st2 = cyclesSeen st
                      then (Inr r, st2\<lparr>memo := (memo st2)(mk \<mapsto> r)\<rparr>)
                      else (Inr r, st2)))))"
  by pat_completeness auto
termination
  by (relation "measure (\<lambda>(e, m, p, t, q, cc, depth, ns, obj, rel, negated, st). nat (maxDepth e + 1 - depth))")
     auto

declare check.simps [simp del]

text \<open>The collector is the one installed on the context, if any; it is returned updated.\<close>

definition CheckWithModel ::
  "engine \<Rightarrow> backstops option \<Rightarrow> model \<Rightarrow> string \<Rightarrow> string \<Rightarrow> string \<Rightarrow> string \<Rightarrow> string \<Rightarrow> string \<Rightarrow> params \<Rightarrow> int
    \<Rightarrow> bool result \<times> backstops option" where
  "CheckWithModel e b m p t ns obj rel userID cc mx =
     (case check e m p t \<lparr>q_user = userID, q_set = None\<rparr> cc 0 ns obj rel False
             (newEvalState b (effectiveMaxReads e mx)) of
        (res, st) \<Rightarrow> (res, collector st))"

definition Check ::
  "engine \<Rightarrow> backstops option \<Rightarrow> string \<Rightarrow> string \<Rightarrow> string \<Rightarrow> string \<Rightarrow> string \<Rightarrow> string \<Rightarrow> params
    \<Rightarrow> bool result \<times> backstops option" where
  "Check e b p t ns obj rel userID cc =
     (case resolver e p of
        Inl err \<Rightarrow> (Inl err, b)
      | Inr m \<Rightarrow> CheckWithModel e b m p t ns obj rel userID cc 0)"

subsection \<open>ListObjects\<close>

fun listObjectsLoop ::
  "engine \<Rightarrow> model \<Rightarrow> string \<Rightarrow> string \<Rightarrow> string \<Rightarrow> string \<Rightarrow> string \<Rightarrow> string list \<Rightarrow> string list eval" where
  "listObjectsLoop e m p t ns rel userID [] st = (Inr [], st)"
| "listObjectsLoop e m p t ns rel userID (i # ids) st =
     (case check e m p t \<lparr>q_user = userID, q_set = None\<rparr> [] 0 ns i rel False
             (st\<lparr>visited := {}, memo := Map.empty\<rparr>) of
        (Inl err, st') \<Rightarrow> (Inl err, st')
      | (Inr ok, st') \<Rightarrow>
          (case listObjectsLoop e m p t ns rel userID ids st' of
             (Inl err, st'') \<Rightarrow> (Inl err, st'')
           | (Inr out, st'') \<Rightarrow> (Inr (if ok then i # out else out), st'')))"

definition ListObjectsWithModel ::
  "engine \<Rightarrow> backstops option \<Rightarrow> model \<Rightarrow> string \<Rightarrow> string \<Rightarrow> string \<Rightarrow> string \<Rightarrow> string \<Rightarrow> int \<Rightarrow> int
    \<Rightarrow> string list result \<times> backstops option" where
  "ListObjectsWithModel e b m p t ns rel userID maxObjects mx =
     (case lister e of
        None \<Rightarrow> (Inl (ErrOther ''tuple store does not support ListObjects''), b)
      | Some lst \<Rightarrow>
          (case lst p t ns of
             Inl err \<Rightarrow> (Inl err, b)
           | Inr ids \<Rightarrow>
               if maxObjects > 0 \<and> int (length ids) > maxObjects then (Inl ErrTooManyObjects, b)
               else (let candidates = (if maxObjects \<le> 0 then int (length ids) else maxObjects);
                         st = newEvalState b (fanOutBudget e (effectiveMaxReads e mx) candidates) in
                     case listObjectsLoop e m p t ns rel userID ids st of
                       (res, st') \<Rightarrow> (res, collector st'))))"

definition ListObjects ::
  "engine \<Rightarrow> backstops option \<Rightarrow> string \<Rightarrow> string \<Rightarrow> string \<Rightarrow> string \<Rightarrow> string \<Rightarrow> int
    \<Rightarrow> string list result \<times> backstops option" where
  "ListObjects e b p t ns rel userID maxObjects =
     (case resolver e p of
        Inl err \<Rightarrow> (Inl err, b)
      | Inr m \<Rightarrow> ListObjectsWithModel e b m p t ns rel userID maxObjects 0)"

end
