(* ===== verification/Authz_Semantics.thy ===== *)
theory Authz_Semantics
  imports Authz_Engine
begin

section \<open>A reference semantics for checks\<close>

text \<open>
  What a relation of an object means for a query, without visit sets, memo tables, depth bounds or budgets:
  the least fixed point of one function over three truth values, where a value once defined stays. The
  engine is compared with it in \<^verbatim>\<open>Authz_Check\<close>, \<^verbatim>\<open>Authz_Expand\<close> and \<^verbatim>\<open>Authz_CheckSet\<close>.
\<close>

subsection \<open>Three truth values\<close>

definition k_any :: "bool option list \<Rightarrow> bool option" where
  "k_any xs = (if Some True \<in> set xs then Some True
     else if list_all (\<lambda>x. x = Some False) xs then Some False else None)"

definition k_not :: "bool option \<Rightarrow> bool option" where
  "k_not x = map_option Not x"

definition k_all :: "bool option list \<Rightarrow> bool option" where
  "k_all xs = (if Some False \<in> set xs then Some False
     else if list_all (\<lambda>x. x = Some True) xs then Some True else None)"

subsection \<open>The meaning of a rewrite, given the meaning of the relations it refers to\<close>

type_synonym valuation = "string \<Rightarrow> string \<Rightarrow> string \<Rightarrow> bool option"

definition semSubject :: "subjectQuery \<Rightarrow> params \<Rightarrow> valuation \<Rightarrow> subject \<Rightarrow> bool option" where
  "semSubject q cc S s =
     (if \<not> EvalCondition (s_Condition s) cc then Some False
      else if Wildcard s then Some True
      else (case s_Set s of
              None \<Rightarrow> Some (q_user q \<noteq> [] \<and> UserID s = q_user q)
            | Some sset \<Rightarrow> if q_set q = Some sset then Some True
                else S (ss_Namespace sset) (ss_ObjectID sset) (ss_Relation sset)))"

definition semPointer :: "params \<Rightarrow> valuation \<Rightarrow> string \<Rightarrow> subject \<Rightarrow> bool option" where
  "semPointer cc S crel s =
     (if \<not> EvalCondition (s_Condition s) cc then Some False
      else (case s_Set s of
              None \<Rightarrow> Some False
            | Some sset \<Rightarrow> S (ss_Namespace sset) (ss_ObjectID sset) crel))"

fun semRewrite ::
  "engine \<Rightarrow> string \<Rightarrow> string \<Rightarrow> subjectQuery \<Rightarrow> params \<Rightarrow> valuation \<Rightarrow> string \<Rightarrow> string \<Rightarrow> string \<Rightarrow> rewrite
    \<Rightarrow> bool option" where
  "semRewrite e p t q cc S ns obj rel (Rewrite u i x c ts cr) =
     (if isThis (Rewrite u i x c ts cr) then
        (case reader e p t ns obj rel of
           Inl _ \<Rightarrow> None | Inr ss \<Rightarrow> k_any (map (semSubject q cc S) ss))
      else if u \<noteq> [] then k_any (map (\<lambda>r. semRewrite e p t q cc S ns obj rel r) u)
      else if i \<noteq> [] then
        (if q_set q \<noteq> None then Some False
         else k_all (map (\<lambda>r. semRewrite e p t q cc S ns obj rel r) i))
      else (case x of
              Some (inc, exc) \<Rightarrow>
                if q_set q \<noteq> None then Some False
                else k_all [semRewrite e p t q cc S ns obj rel inc,
                            k_not (semRewrite e p t q cc S ns obj rel exc)]
            | None \<Rightarrow>
                if c \<noteq> [] then S ns obj c
                else if ts \<noteq> [] then
                  (case reader e p t ns obj ts of
                     Inl _ \<Rightarrow> None | Inr ss \<Rightarrow> k_any (map (semPointer cc S cr) ss))
                else Some False))"

fun sem :: "engine \<Rightarrow> model \<Rightarrow> string \<Rightarrow> string \<Rightarrow> subjectQuery \<Rightarrow> params \<Rightarrow> nat \<Rightarrow> valuation" where
  "sem e m p t q cc 0 ns obj rel = None"
| "sem e m p t q cc (Suc n) ns obj rel =
     semRewrite e p t q cc (sem e m p t q cc n) ns obj rel (rewrite_of m ns rel)"

text \<open>What the stages of the iteration agree on.\<close>

definition denotes :: "engine \<Rightarrow> model \<Rightarrow> string \<Rightarrow> string \<Rightarrow> subjectQuery \<Rightarrow> params \<Rightarrow> string \<Rightarrow> string \<Rightarrow> string \<Rightarrow> bool \<Rightarrow> bool" where
  "denotes e m p t q cc ns obj rel b \<longleftrightarrow> (\<exists>n. sem e m p t q cc n ns obj rel = Some b)"

definition val_le :: "valuation \<Rightarrow> valuation \<Rightarrow> bool" where
  "val_le S S' \<longleftrightarrow> (\<forall>ns obj rel b. S ns obj rel = Some b \<longrightarrow> S' ns obj rel = Some b)"

subsection \<open>Keys\<close>

definition ns_ok :: "string \<Rightarrow> bool" where
  "ns_ok ns \<longleftrightarrow> CHR '':'' \<notin> set ns"

definition rel_ok :: "string \<Rightarrow> bool" where
  "rel_ok rel \<longleftrightarrow> CHR ''#'' \<notin> set rel"

text \<open>Every relation name a rewrite evaluates on another object or relation satisfies \<open>R\<close>.\<close>

fun rw_rels :: "(string \<Rightarrow> bool) \<Rightarrow> rewrite \<Rightarrow> bool" where
  "rw_rels R (Rewrite u i x c ts cr) \<longleftrightarrow>
     list_all (\<lambda>r. rw_rels R r) u \<and> list_all (\<lambda>r. rw_rels R r) i \<and>
     (case x of None \<Rightarrow> True | Some (inc, exc) \<Rightarrow> rw_rels R inc \<and> rw_rels R exc) \<and>
     R c \<and> R cr"

definition model_keys_ok :: "model \<Rightarrow> bool" where
  "model_keys_ok m \<longleftrightarrow> list_all (\<lambda>(ns, defs). list_all (\<lambda>(rel, rw). rw_rels rel_ok rw) defs) m"

definition store_keys_ok :: "engine \<Rightarrow> string \<Rightarrow> string \<Rightarrow> bool" where
  "store_keys_ok e p t \<longleftrightarrow> (\<forall>ns obj rel ss s sset.
     reader e p t ns obj rel = Inr ss \<longrightarrow> s \<in> set ss \<longrightarrow> s_Set s = Some sset \<longrightarrow>
     ns_ok (ss_Namespace sset) \<and> rel_ok (ss_Relation sset))"

definition keys_ok :: "engine \<Rightarrow> model \<Rightarrow> string \<Rightarrow> string \<Rightarrow> bool" where
  "keys_ok e m p t \<longleftrightarrow> model_keys_ok m \<and> store_keys_ok e p t"

definition denotation :: "engine \<Rightarrow> model \<Rightarrow> string \<Rightarrow> string \<Rightarrow> subjectQuery \<Rightarrow> params \<Rightarrow> valuation" where
  "denotation e m p t q cc ns obj rel =
     (if denotes e m p t q cc ns obj rel True then Some True
      else if denotes e m p t q cc ns obj rel False then Some False else None)"

definition memo_ok :: "valuation \<Rightarrow> evalState \<Rightarrow> bool" where
  "memo_ok D st \<longleftrightarrow> (\<forall>ns obj rel neg r. ns_ok ns \<longrightarrow> rel_ok rel \<longrightarrow>
     memo st (memoKey (visitKey ns obj rel) neg) = Some r \<longrightarrow> D ns obj rel = Some r)"

subsection \<open>Monotonicity\<close>

lemma val_leD: "val_le S S' \<Longrightarrow> S ns obj rel = Some b \<Longrightarrow> S' ns obj rel = Some b"
  by (simp add: val_le_def)

lemma k_any_Some [simp]:
  "k_any xs = Some True \<longleftrightarrow> Some True \<in> set xs"
  "k_any xs = Some False \<longleftrightarrow> (\<forall>x \<in> set xs. x = Some False)"
  by (auto simp: k_any_def list_all_iff)

lemma k_all_Some [simp]:
  "k_all xs = Some True \<longleftrightarrow> (\<forall>x \<in> set xs. x = Some True)"
  "k_all xs = Some False \<longleftrightarrow> Some False \<in> set xs"
  by (auto simp: k_all_def list_all_iff)

lemma k_any_Cons [simp]: "k_any (Some r # vs) = (if r then Some True else k_any vs)"
  by (auto simp: k_any_def)

lemma k_all_Cons [simp]: "k_all (Some r # vs) = (if r then k_all vs else Some False)"
  by (auto simp: k_all_def)

lemma k_any_cong_set:
  assumes "insert (Some False) (set xs) = insert (Some False) (set ys)"
  shows "k_any xs = k_any ys"
proof -
  have all: "list_all (\<lambda>x. x = Some False) zs \<longleftrightarrow> insert (Some False) (set zs) = {Some False}" for zs
    by (auto simp: list_all_iff)
  have "Some True \<in> set xs \<longleftrightarrow> Some True \<in> set ys"
    using arg_cong [OF assms, of "\<lambda>A. Some True \<in> A"] by simp
  then show ?thesis by (simp add: k_any_def all assms)
qed

lemma k_not_Some [simp]:
  "k_not x = Some b \<longleftrightarrow> x = Some (\<not> b)"
  "Some b = k_not x \<longleftrightarrow> x = Some (\<not> b)"
  by (cases x; auto simp: k_not_def)+

lemma k_any_mono:
  assumes "k_any (map f xs) = Some b" and le: "\<And>x b. x \<in> set xs \<Longrightarrow> f x = Some b \<Longrightarrow> g x = Some b"
  shows "k_any (map g xs) = Some b"
proof (cases b)
  case True
  with assms(1) obtain x where "x \<in> set xs" "f x = Some True" by auto
  with le [of x] True show ?thesis by (auto intro: rev_image_eqI)
next
  case False
  with assms(1) le show ?thesis by simp
qed

lemma k_all_mono:
  assumes "k_all (map f xs) = Some b" and le: "\<And>x b. x \<in> set xs \<Longrightarrow> f x = Some b \<Longrightarrow> g x = Some b"
  shows "k_all (map g xs) = Some b"
proof (cases b)
  case False
  with assms(1) obtain x where "x \<in> set xs" "f x = Some False" by auto
  with le [of x] False show ?thesis by (auto intro: rev_image_eqI)
next
  case True
  with assms(1) le show ?thesis by simp
qed

lemma semSubject_mono:
  "val_le S S' \<Longrightarrow> semSubject q cc S s = Some b \<Longrightarrow> semSubject q cc S' s = Some b"
  by (auto simp: semSubject_def val_le_def split: if_splits option.splits)

lemma semPointer_mono:
  "val_le S S' \<Longrightarrow> semPointer cc S crel s = Some b \<Longrightarrow> semPointer cc S' crel s = Some b"
  by (auto simp: semPointer_def val_le_def split: if_splits option.splits)

lemma k_diff_mono:
  assumes "k_all [a, k_not b] = Some v" and "\<And>v. a = Some v \<Longrightarrow> a' = Some v" and "\<And>v. b = Some v \<Longrightarrow> b' = Some v"
  shows "k_all [a', k_not b'] = Some v"
  using assms by (cases v) auto

lemma semRewrite_mono:
  assumes "val_le S S'"
  shows "semRewrite e p t q cc S ns obj rel rw = Some b \<Longrightarrow> semRewrite e p t q cc S' ns obj rel rw = Some b"
proof (induction rw arbitrary: b)
  case (Rewrite u i x c ts cr)
  note sm = semSubject_mono [OF assms] semPointer_mono [OF assms] val_leD [OF assms]
  show ?case
  proof (cases "isThis (Rewrite u i x c ts cr)")
    case True
    with Rewrite.prems show ?thesis
      by (auto split: sum.splits elim!: k_any_mono intro: sm)
  next
    case False
    from Rewrite.prems False Rewrite.IH show ?thesis
      by (auto split: if_splits option.splits sum.splits prod.splits simp del: k_all_Some k_any_Some
          elim!: k_any_mono k_all_mono k_diff_mono intro: sm)
  qed
qed

lemma sem_step_mono: "val_le (sem e m p t q cc n) (sem e m p t q cc (Suc n))"
proof (induction n)
  case 0
  show ?case by (simp add: val_le_def)
next
  case (Suc n)
  then show ?case by (auto simp: val_le_def intro: semRewrite_mono [OF Suc])
qed

lemma sem_mono: "n \<le> n' \<Longrightarrow> val_le (sem e m p t q cc n) (sem e m p t q cc n')"
proof (induction n' rule: dec_induct)
  case base
  show ?case by (simp add: val_le_def)
next
  case (step k)
  then show ?case using sem_step_mono [of e m p t q cc k] by (auto simp: val_le_def)
qed

lemma denotes_unique:
  "denotes e m p t q cc ns obj rel b \<Longrightarrow> denotes e m p t q cc ns obj rel b' \<Longrightarrow> b = b'"
  unfolding denotes_def
  by (metis nat_le_linear option.inject sem_mono val_leD)

subsection \<open>Injectivity of keys\<close>

lemma visitKey_inj:
  assumes "visitKey ns obj rel = visitKey ns' obj' rel'" and "ns_ok ns" "rel_ok rel" and "ns_ok ns'" "rel_ok rel'"
  shows "ns = ns' \<and> obj = obj' \<and> rel = rel'"
proof -
  from assms have "ns = ns' \<and> obj @ ''#'' @ rel = obj' @ ''#'' @ rel'"
    by (intro prefix_free_append) (auto simp: visitKey_def ns_ok_def)
  then have "obj @ [CHR ''#''] @ rel = obj' @ [CHR ''#''] @ rel'" and "ns = ns'" by simp_all
  moreover from this(1) have "obj = obj' \<and> rel = rel'"
    using assms(2-5) by (intro suffix_free_append) (auto simp: rel_ok_def)
  ultimately show ?thesis by simp
qed

lemma memoKey_inj [simp]: "memoKey k neg = memoKey k' neg' \<longleftrightarrow> k = k' \<and> neg = neg'"
proof
  assume "memoKey k neg = memoKey k' neg'"
  then have *: "k @ [char_of (31::nat)] @ FormatBool neg = k' @ [char_of (31::nat)] @ FormatBool neg'"
    by (simp add: memoKey_def)
  have "k = k' \<and> FormatBool neg = FormatBool neg'"
    by (rule suffix_free_append [OF *]) (auto simp: FormatBool_def char_of_def)
  then show "k = k' \<and> neg = neg'" by (auto simp: FormatBool_def split: if_splits)
qed simp

lemma rewrite_of_rels_ok: "model_keys_ok m \<Longrightarrow> rw_rels rel_ok (rewrite_of m ns rel)"
proof -
  assume m: "model_keys_ok m"
  have "rw_rels rel_ok this_rw" by (simp add: this_rw_def rel_ok_def)
  then show ?thesis
    using m by (auto simp: rewrite_of_def model_keys_ok_def list_all_iff
        dest!: map_of_SomeD split: option.splits)
qed

subsection \<open>The denotation is a fixed point\<close>

lemma denotation_Some: "denotation e m p t q cc ns obj rel = Some b \<longleftrightarrow> denotes e m p t q cc ns obj rel b"
  by (cases b) (auto simp: denotation_def dest: denotes_unique)

lemma ex_common_stage:
  assumes "\<And>x. x \<in> set xs \<Longrightarrow> \<exists>n::nat. P n x" and "\<And>n n' x. n \<le> n' \<Longrightarrow> P n x \<Longrightarrow> P n' x"
  shows "\<exists>n. \<forall>x \<in> set xs. P n x"
  using assms(1)
proof (induction xs)
  case (Cons x xs)
  from Cons.prems [of x] obtain n where "P n x" by auto
  moreover from Cons.IH [OF Cons.prems] obtain n' where "\<forall>y \<in> set xs. P n' y" by auto
  ultimately have "\<forall>y \<in> set (x # xs). P (max n n') y"
    using assms(2) [of n "max n n'"] assms(2) [of n' "max n n'"] by auto
  then show ?case by blast
qed simp

lemma k_any_limit:
  assumes "k_any (map f xs) = Some b"
    and lim: "\<And>x b. x \<in> set xs \<Longrightarrow> f x = Some b \<Longrightarrow> \<exists>n::nat. g n x = Some b"
    and mono: "\<And>n n' x b. n \<le> n' \<Longrightarrow> g n x = Some b \<Longrightarrow> g n' x = Some b"
  shows "\<exists>n. k_any (map (g n) xs) = Some b"
proof (cases b)
  case True
  with assms(1) obtain x where "x \<in> set xs" "f x = Some True" by auto
  with lim [of x True] True show ?thesis by simp (metis image_eqI)
next
  case False
  with assms(1) have "\<And>x. x \<in> set xs \<Longrightarrow> \<exists>n. g n x = Some False" by (auto intro: lim)
  then have "\<exists>n. \<forall>x \<in> set xs. g n x = Some False" by (rule ex_common_stage) (assumption, rule mono)
  with False show ?thesis by simp
qed

lemma k_all_limit:
  assumes "k_all (map f xs) = Some b"
    and lim: "\<And>x b. x \<in> set xs \<Longrightarrow> f x = Some b \<Longrightarrow> \<exists>n::nat. g n x = Some b"
    and mono: "\<And>n n' x b. n \<le> n' \<Longrightarrow> g n x = Some b \<Longrightarrow> g n' x = Some b"
  shows "\<exists>n. k_all (map (g n) xs) = Some b"
proof (cases b)
  case False
  with assms(1) obtain x where "x \<in> set xs" "f x = Some False" by auto
  with lim [of x False] False show ?thesis by simp (metis image_eqI)
next
  case True
  with assms(1) have "\<And>x. x \<in> set xs \<Longrightarrow> \<exists>n. g n x = Some True" by (auto intro: lim)
  then have "\<exists>n. \<forall>x \<in> set xs. g n x = Some True" by (rule ex_common_stage) (assumption, rule mono)
  with True show ?thesis by simp
qed

lemma k_diff_limit:
  assumes "k_all [a, k_not b] = Some v"
    and "\<And>v. a = Some v \<Longrightarrow> \<exists>n::nat. f n = Some v" and "\<And>v. b = Some v \<Longrightarrow> \<exists>n::nat. g n = Some v"
    and "\<And>n n' v. n \<le> n' \<Longrightarrow> f n = Some v \<Longrightarrow> f n' = Some v"
    and "\<And>n n' v. n \<le> n' \<Longrightarrow> g n = Some v \<Longrightarrow> g n' = Some v"
  shows "\<exists>n. k_all [f n, k_not (g n)] = Some v"
proof (cases v)
  case True
  with assms(1) have "a = Some True" "b = Some False" by auto
  from assms(2) [OF this(1)] assms(3) [OF this(2)]
  obtain n n' where "f n = Some True" "g n' = Some False" by auto
  then have "f (max n n') = Some True" "g (max n n') = Some False"
    using assms(4) [of n "max n n'"] assms(5) [of n' "max n n'"] by auto
  with True show ?thesis by auto
next
  case False
  with assms(1) consider "a = Some False" | "b = Some True" by auto
  then show ?thesis
  proof cases
    case 1
    from assms(2) [OF this] False show ?thesis by simp metis
  next
    case 2
    from assms(3) [OF this] False show ?thesis by auto
  qed
qed

lemma semSubject_limit:
  assumes "semSubject q cc (denotation e m p t q cc) s = Some b"
  shows "\<exists>n. semSubject q cc (sem e m p t q cc n) s = Some b"
  using assms
  by (auto simp: semSubject_def denotation_Some denotes_def split: if_splits option.splits)

lemma semPointer_limit:
  assumes "semPointer cc (denotation e m p t q cc) crel s = Some b"
  shows "\<exists>n. semPointer cc (sem e m p t q cc n) crel s = Some b"
  using assms
  by (auto simp: semPointer_def denotation_Some denotes_def split: if_splits option.splits)

lemma subjects_limit:
  "k_any (map (semSubject q cc (denotation e m p t q cc)) ss) = Some b \<Longrightarrow>
     \<exists>n. k_any (map (semSubject q cc (sem e m p t q cc n)) ss) = Some b"
  by (erule k_any_limit, erule semSubject_limit, rule semSubject_mono [OF sem_mono])

lemma pointers_limit:
  "k_any (map (semPointer cc (denotation e m p t q cc) cr) ss) = Some b \<Longrightarrow>
     \<exists>n. k_any (map (semPointer cc (sem e m p t q cc n) cr) ss) = Some b"
  by (erule k_any_limit, erule semPointer_limit, rule semPointer_mono [OF sem_mono])

lemma semRewrite_limit:
  "semRewrite e p t q cc (denotation e m p t q cc) ns obj rel rw = Some b \<Longrightarrow>
     \<exists>n. semRewrite e p t q cc (sem e m p t q cc n) ns obj rel rw = Some b"
proof (induction rw arbitrary: b)
  case (Rewrite u i x c ts cr)
  note mono = semRewrite_mono [OF sem_mono]
  show ?case
  proof (cases "isThis (Rewrite u i x c ts cr)")
    case True
    with Rewrite.prems show ?thesis
      by (auto split: sum.splits dest: subjects_limit simp del: k_any_Some)
  next
    case False
    then show ?thesis
    proof (cases rule: not_isThis_cases)
      case Union
      with Rewrite.prems False have "k_any (map (semRewrite e p t q cc (denotation e m p t q cc) ns obj rel) u) = Some b"
        by simp
      then have "\<exists>n. k_any (map (semRewrite e p t q cc (sem e m p t q cc n) ns obj rel) u) = Some b"
        by (rule k_any_limit) (erule Rewrite.IH(1), assumption, rule mono)
      with Union False show ?thesis by simp
    next
      case Inter
      show ?thesis
      proof (cases "q_set q = None")
        case True
        with Rewrite.prems Inter False have "k_all (map (semRewrite e p t q cc (denotation e m p t q cc) ns obj rel) i) = Some b"
          by simp
        then have "\<exists>n. k_all (map (semRewrite e p t q cc (sem e m p t q cc n) ns obj rel) i) = Some b"
          by (rule k_all_limit) (erule Rewrite.IH(2), assumption, rule mono)
        with True Inter False show ?thesis by simp
      next
        case set: False
        with Rewrite.prems Inter False show ?thesis by simp
      qed
    next
      case (Excl inc exc)
      note ih1 = Rewrite.IH(3) [of "(inc, exc)" inc] and ih2 = Rewrite.IH(4) [of "(inc, exc)" exc]
      show ?thesis
      proof (cases "q_set q = None")
        case True
        with Rewrite.prems Excl False have "k_all [semRewrite e p t q cc (denotation e m p t q cc) ns obj rel inc,
            k_not (semRewrite e p t q cc (denotation e m p t q cc) ns obj rel exc)] = Some b"
          by simp
        then have "\<exists>n. k_all [semRewrite e p t q cc (sem e m p t q cc n) ns obj rel inc,
            k_not (semRewrite e p t q cc (sem e m p t q cc n) ns obj rel exc)] = Some b"
          by (rule k_diff_limit) (use ih1 Excl in simp, use ih2 Excl in simp, (rule mono, assumption+)+)
        with True Excl False show ?thesis by simp
      next
        case set: False
        with Rewrite.prems Excl False show ?thesis by simp
      qed
    next
      case Comp
      with Rewrite.prems False show ?thesis by (simp add: denotation_Some denotes_def)
    next
      case TTU
      with Rewrite.prems False show ?thesis
        by (auto split: sum.splits dest: pointers_limit simp del: k_any_Some)
    qed
  qed
qed

lemma denotes_step:
  "semRewrite e p t q cc (denotation e m p t q cc) ns obj rel (rewrite_of m ns rel) = Some b \<Longrightarrow>
     denotes e m p t q cc ns obj rel b"
  unfolding denotes_def by (drule semRewrite_limit) (metis sem.simps(2))

lemma denotes_unfold:
  assumes "denotes e m p t q cc ns obj rel b"
  shows "semRewrite e p t q cc (denotation e m p t q cc) ns obj rel (rewrite_of m ns rel) = Some b"
proof -
  from assms obtain n where "sem e m p t q cc n ns obj rel = Some b" by (auto simp: denotes_def)
  then obtain k where k: "semRewrite e p t q cc (sem e m p t q cc k) ns obj rel (rewrite_of m ns rel) = Some b"
    by (cases n) auto
  have "val_le (sem e m p t q cc k) (denotation e m p t q cc)"
    unfolding val_le_def denotation_Some denotes_def by blast
  from semRewrite_mono [OF this k] show ?thesis .
qed

lemma denotation_fix:
  "semRewrite e p t q cc (denotation e m p t q cc) ns obj rel (rewrite_of m ns rel) = denotation e m p t q cc ns obj rel"
proof (cases "semRewrite e p t q cc (denotation e m p t q cc) ns obj rel (rewrite_of m ns rel)")
  case (Some b)
  from denotes_step [OF Some] have "denotation e m p t q cc ns obj rel = Some b" by (simp add: denotation_Some)
  with Some show ?thesis by simp
next
  case None
  then show ?thesis
    by (cases "denotation e m p t q cc ns obj rel") (auto simp: denotation_Some dest: denotes_unfold)
qed

end
