(* ===== verification/Authz_Grants.thy ===== *)
theory Authz_Grants
  imports Authz_Semantics
begin

section \<open>Derivation rules for exclusion-free models\<close>

text \<open>
  The textbook reading of userset rewrites: a user has a relation when a finite derivation from
  the stored tuples shows it. For models without exclusion the rules and the three-valued
  semantics agree on every grant (\<open>grants_iff_denotes\<close>).
\<close>

fun exclusion_free :: "rewrite \<Rightarrow> bool" where
  "exclusion_free (Rewrite u i x c ts cr) \<longleftrightarrow>
     list_all exclusion_free u \<and> list_all exclusion_free i \<and> x = None"

definition positive_model :: "model \<Rightarrow> bool" where
  "positive_model m \<longleftrightarrow> list_all (\<lambda>(ns, defs). list_all (\<lambda>(rel, rw). exclusion_free rw) defs) m"

inductive grants :: "engine \<Rightarrow> model \<Rightarrow> string \<Rightarrow> string \<Rightarrow> string \<Rightarrow> params \<Rightarrow> string \<Rightarrow> string \<Rightarrow> string \<Rightarrow> bool"
  and grants_rw :: "engine \<Rightarrow> model \<Rightarrow> string \<Rightarrow> string \<Rightarrow> string \<Rightarrow> params \<Rightarrow> string \<Rightarrow> string \<Rightarrow> string \<Rightarrow> rewrite \<Rightarrow> bool"
  for e m p t u cc where
  relation: "grants_rw e m p t u cc ns obj rel (rewrite_of m ns rel) \<Longrightarrow> grants e m p t u cc ns obj rel"
| wildcard: "isThis rw \<Longrightarrow> reader e p t ns obj rel = Inr ss \<Longrightarrow> s \<in> set ss \<Longrightarrow> EvalCondition (s_Condition s) cc \<Longrightarrow>
    Wildcard s \<Longrightarrow> grants_rw e m p t u cc ns obj rel rw"
| user: "isThis rw \<Longrightarrow> reader e p t ns obj rel = Inr ss \<Longrightarrow> s \<in> set ss \<Longrightarrow> EvalCondition (s_Condition s) cc \<Longrightarrow>
    s_Set s = None \<Longrightarrow> u \<noteq> [] \<Longrightarrow> UserID s = u \<Longrightarrow> grants_rw e m p t u cc ns obj rel rw"
| userset: "isThis rw \<Longrightarrow> reader e p t ns obj rel = Inr ss \<Longrightarrow> s \<in> set ss \<Longrightarrow> EvalCondition (s_Condition s) cc \<Longrightarrow>
    s_Set s = Some sset \<Longrightarrow> grants e m p t u cc (ss_Namespace sset) (ss_ObjectID sset) (ss_Relation sset) \<Longrightarrow>
    grants_rw e m p t u cc ns obj rel rw"
| union: "r \<in> set (rw_Union rw) \<Longrightarrow> grants_rw e m p t u cc ns obj rel r \<Longrightarrow> grants_rw e m p t u cc ns obj rel rw"
| intersection: "rw_Union rw = [] \<Longrightarrow> rw_Intersection rw \<noteq> [] \<Longrightarrow>
    (\<And>r. r \<in> set (rw_Intersection rw) \<Longrightarrow> grants_rw e m p t u cc ns obj rel r) \<Longrightarrow> grants_rw e m p t u cc ns obj rel rw"
| computed: "rw_Union rw = [] \<Longrightarrow> rw_Intersection rw = [] \<Longrightarrow> rw_Exclusion rw = None \<Longrightarrow> rw_Computed rw \<noteq> [] \<Longrightarrow>
    grants e m p t u cc ns obj (rw_Computed rw) \<Longrightarrow> grants_rw e m p t u cc ns obj rel rw"
| tuple_to_userset: "rw_Union rw = [] \<Longrightarrow> rw_Intersection rw = [] \<Longrightarrow> rw_Exclusion rw = None \<Longrightarrow> rw_Computed rw = [] \<Longrightarrow>
    rw_TuplesetRelation rw \<noteq> [] \<Longrightarrow> reader e p t ns obj (rw_TuplesetRelation rw) = Inr ss \<Longrightarrow> s \<in> set ss \<Longrightarrow>
    EvalCondition (s_Condition s) cc \<Longrightarrow> s_Set s = Some sset \<Longrightarrow>
    grants e m p t u cc (ss_Namespace sset) (ss_ObjectID sset) (rw_ComputedRelation rw) \<Longrightarrow>
    grants_rw e m p t u cc ns obj rel rw"

lemma isThis_fields: "isThis rw \<longleftrightarrow> rw_Union rw = [] \<and> rw_Intersection rw = [] \<and> rw_Exclusion rw = None \<and>
   rw_Computed rw = [] \<and> rw_TuplesetRelation rw = []"
  by (simp add: isThis_def)

lemma semRewrite_unfold:
  "semRewrite e p t q cc S ns obj rel rw =
     (if isThis rw then
        (case reader e p t ns obj rel of
           Inl _ \<Rightarrow> None | Inr ss \<Rightarrow> k_any (map (semSubject q cc S) ss))
      else if rw_Union rw \<noteq> [] then k_any (map (semRewrite e p t q cc S ns obj rel) (rw_Union rw))
      else if rw_Intersection rw \<noteq> [] then
        (if q_set q \<noteq> None then Some False
         else k_all (map (semRewrite e p t q cc S ns obj rel) (rw_Intersection rw)))
      else (case rw_Exclusion rw of
              Some (inc, exc) \<Rightarrow>
                if q_set q \<noteq> None then Some False
                else k_all [semRewrite e p t q cc S ns obj rel inc,
                            k_not (semRewrite e p t q cc S ns obj rel exc)]
            | None \<Rightarrow>
                if rw_Computed rw \<noteq> [] then S ns obj (rw_Computed rw)
                else if rw_TuplesetRelation rw \<noteq> [] then
                  (case reader e p t ns obj (rw_TuplesetRelation rw) of
                     Inl _ \<Rightarrow> None | Inr ss \<Rightarrow> k_any (map (semPointer cc S (rw_ComputedRelation rw)) ss))
                else Some False))"
  by (cases rw) (simp cong: sum.case_cong option.case_cong)

lemma grants_denotation:
  "grants e m p t u cc ns obj rel \<Longrightarrow> denotation e m p t \<lparr>q_user = u, q_set = None\<rparr> cc ns obj rel = Some True"
  "grants_rw e m p t u cc ns obj rel rw \<Longrightarrow>
    semRewrite e p t \<lparr>q_user = u, q_set = None\<rparr> cc (denotation e m p t \<lparr>q_user = u, q_set = None\<rparr> cc) ns obj rel rw = Some True"
proof (induction rule: grants_grants_rw.inducts)
  case (relation ns obj rel)
  then show ?case by (simp add: denotation_Some denotes_step)
next
  case (wildcard rw ns obj rel ss s)
  then show ?case by (subst semRewrite_unfold) (auto simp: semSubject_def intro!: rev_image_eqI [of s])
next
  case (user rw ns obj rel ss s)
  then show ?case by (subst semRewrite_unfold) (auto simp: semSubject_def intro!: rev_image_eqI [of s])
next
  case (userset rw ns obj rel ss s sset)
  then show ?case
    by (subst semRewrite_unfold) (auto simp: semSubject_def intro!: rev_image_eqI [of s])
next
  case (union r rw ns obj rel)
  then show ?case by (subst semRewrite_unfold) (auto simp: isThis_fields intro!: rev_image_eqI [of r])
next
  case (intersection rw ns obj rel)
  then show ?case by (subst semRewrite_unfold) (auto simp: isThis_fields)
next
  case (computed rw ns obj rel)
  then show ?case by (subst semRewrite_unfold) (simp add: isThis_fields)
next
  case (tuple_to_userset rw ns obj ss s sset rel)
  then show ?case
    by (subst semRewrite_unfold) (auto simp: isThis_fields semPointer_def intro!: rev_image_eqI [of s])
qed

lemma grants_rw_sem:
  assumes S: "\<And>ns obj rel. S ns obj rel = Some True \<Longrightarrow> grants e m p t u cc ns obj rel"
  shows "exclusion_free rw \<Longrightarrow> semRewrite e p t \<lparr>q_user = u, q_set = None\<rparr> cc S ns obj rel rw = Some True \<Longrightarrow>
    grants_rw e m p t u cc ns obj rel rw"
proof (induction rw)
  case (Rewrite us ins x c ts cr)
  let ?rw = "Rewrite us ins x c ts cr" and ?q = "\<lparr>q_user = u, q_set = None\<rparr>"
  show ?case
  proof (cases "isThis ?rw")
    case True
    with Rewrite.prems obtain ss s where r: "reader e p t ns obj rel = Inr ss" "s \<in> set ss"
      and s: "semSubject ?q cc S s = Some True"
      by (auto split: sum.splits)
    from s consider "EvalCondition (s_Condition s) cc" "Wildcard s"
      | "EvalCondition (s_Condition s) cc" "s_Set s = None" "u \<noteq> []" "UserID s = u"
      | sset where "EvalCondition (s_Condition s) cc" "s_Set s = Some sset"
          "S (ss_Namespace sset) (ss_ObjectID sset) (ss_Relation sset) = Some True"
      by (auto simp: semSubject_def split: if_splits option.splits)
    then show ?thesis
    proof cases
      case 1
      then show ?thesis by (rule wildcard [OF True r])
    next
      case 2
      then show ?thesis by (rule user [OF True r])
    next
      case 3
      from userset [OF True r 3(1,2) S [OF 3(3)]] show ?thesis .
    qed
  next
    case False
    then show ?thesis
    proof (cases rule: not_isThis_cases)
      case Union
      with Rewrite.prems False obtain r where "r \<in> set us" "exclusion_free r"
        "semRewrite e p t ?q cc S ns obj rel r = Some True" by (auto simp: list_all_iff)
      with Rewrite.IH(1) [of r] show ?thesis using union [of r ?rw] by simp
    next
      case Inter
      with Rewrite.prems False have "\<And>r. r \<in> set ins \<Longrightarrow> exclusion_free r \<and>
        semRewrite e p t ?q cc S ns obj rel r = Some True" by (auto simp: list_all_iff)
      with Inter Rewrite.IH(2) show ?thesis using intersection [of ?rw] by simp
    next
      case (Excl inc exc)
      with Rewrite.prems show ?thesis by simp
    next
      case Comp
      with Rewrite.prems False have "S ns obj c = Some True" by simp
      with Comp S show ?thesis using computed [of ?rw] by simp
    next
      case TTU
      with Rewrite.prems False obtain ss s sset where "reader e p t ns obj ts = Inr ss" "s \<in> set ss"
        "EvalCondition (s_Condition s) cc" "s_Set s = Some sset" "S (ss_Namespace sset) (ss_ObjectID sset) cr = Some True"
        by (auto simp: semPointer_def split: sum.splits if_splits option.splits)
      with TTU S show ?thesis using tuple_to_userset [of ?rw] by simp
    qed
  qed
qed

lemma positive_rewrite_of: "positive_model m \<Longrightarrow> exclusion_free (rewrite_of m ns rel)"
  by (auto simp: rewrite_of_def positive_model_def list_all_iff this_rw_def
      dest!: map_of_SomeD split: option.splits)

lemma sem_grants:
  "positive_model m \<Longrightarrow> sem e m p t \<lparr>q_user = u, q_set = None\<rparr> cc n ns obj rel = Some True \<Longrightarrow>
    grants e m p t u cc ns obj rel"
proof (induction n arbitrary: ns obj rel)
  case (Suc n)
  from Suc.prems(2) have "semRewrite e p t \<lparr>q_user = u, q_set = None\<rparr> cc (sem e m p t \<lparr>q_user = u, q_set = None\<rparr> cc n)
    ns obj rel (rewrite_of m ns rel) = Some True" by simp
  from grants_rw_sem [OF Suc.IH [OF Suc.prems(1)] positive_rewrite_of [OF Suc.prems(1)] this]
  show ?case by (rule relation)
qed simp

lemma grants_iff_denotes:
  "positive_model m \<Longrightarrow> grants e m p t u cc ns obj rel \<longleftrightarrow> denotes e m p t \<lparr>q_user = u, q_set = None\<rparr> cc ns obj rel True"
  using grants_denotation(1) [unfolded denotation_Some] sem_grants unfolding denotes_def by blast

end
