(* ===== verification/Authz_Demo.thy ===== *)
theory Authz_Demo
  imports Authz_Engine
begin

section \<open>A concrete store for the witnesses\<close>

text \<open>
  A small model with an exclusion and a tuple-to-userset, and a store with a cycle in it: a
  document \<open>d\<close> whose parents are \<open>d\<close> itself and the folder \<open>f\<close>. Ann may view both; Bob may
  view \<open>f\<close> but is blocked on \<open>d\<close>. The witnesses evaluate the engine on it.
\<close>

definition user_subject :: "string \<Rightarrow> subject" where
  "user_subject u = \<lparr>UserID = u, s_Set = None, Wildcard = False, s_Condition = None\<rparr>"

definition set_subject :: "string \<Rightarrow> string \<Rightarrow> string \<Rightarrow> subject" where
  "set_subject ns obj rel = \<lparr>UserID = [], s_Set = Some \<lparr>ss_Namespace = ns, ss_ObjectID = obj, ss_Relation = rel\<rparr>,
     Wildcard = False, s_Condition = None\<rparr>"

definition demo_model :: model where
  "demo_model =
    [(''doc'', [(''parent'', this_rw), (''blocked'', this_rw),
      (''viewer'', exclusion_rw (union_rw [this_rw, tupleToUserset_rw ''parent'' ''viewer'']) (computed_rw ''blocked'')),
      (''reader'', union_rw [this_rw, computed_rw ''viewer''])])]"

definition demo_reader :: tupleReader where
  "demo_reader p t ns obj rel = Inr
     (if ns = ''doc'' \<and> obj = ''d'' \<and> rel = ''parent'' then [set_subject ''doc'' ''d'' ''viewer'', set_subject ''doc'' ''f'' ''viewer'']
      else if ns = ''doc'' \<and> obj = ''f'' \<and> rel = ''viewer'' then [user_subject ''ann'', user_subject ''bob'']
      else if ns = ''doc'' \<and> obj = ''d'' \<and> rel = ''blocked'' then [user_subject ''bob'']
      else [])"

definition demo_lister :: objectLister where
  "demo_lister p t ns = Inr (if ns = ''doc'' then [''d'', ''f''] else [])"

definition demo_engine :: engine where
  "demo_engine = NewEngine (Some (StaticResolver demo_model)) demo_reader (Some demo_lister)"

text \<open>A second store: a group with two members, one of whom also holds a resource of the default
  model.\<close>

definition team_reader :: tupleReader where
  "team_reader p t ns obj rel = Inr
     (if ns = ''group'' \<and> obj = ''eng'' \<and> rel = ''member'' then [user_subject ''ann'', user_subject ''bob'']
      else if ns = ''resource'' \<and> obj = ''r'' \<and> rel = ''owner'' then [user_subject ''bob'']
      else [])"

definition team_engine :: engine where
  "team_engine = NewEngine None team_reader None"

lemma demo_reader_total: "\<exists>ss. reader demo_engine p t ns obj rel = Inr ss"
  by (simp add: demo_engine_def NewEngine_def demo_reader_def)

end
