(* ===== verification/Authz_Check.thy ===== *)
theory Authz_Check
  imports Authz_Grants Authz_Demo
begin

section \<open>Correctness of the check engine\<close>

text \<open>
  The engine against the reference semantics. Evaluation of a rewrite keeps any contract that is
  closed under the ways the code composes results (locale \<open>eval_contract\<close>); four contracts are
  instances on \<^const>\<open>check\<close> itself: soundness of grants, completeness up to the depth bound, the
  read budget, and the backstop counters.
\<close>

subsection \<open>The three contracts\<close>

definition sound_inv :: "engine \<Rightarrow> model \<Rightarrow> string \<Rightarrow> string \<Rightarrow> valuation \<Rightarrow> evalState \<Rightarrow> bool" where
  "sound_inv e m p t D st \<longleftrightarrow> keys_ok e m p t \<and> memo_ok D st"

definition sound_out :: "valuation \<Rightarrow> bool option \<Rightarrow> bool \<Rightarrow> evalState \<Rightarrow> bool result \<times> evalState \<Rightarrow> bool" where
  "sound_out D v neg st out \<longleftrightarrow>
     visited (snd out) = visited st \<and> memo_ok D (snd out) \<and> cyclesSeen st \<le> cyclesSeen (snd out) \<and>
     (\<forall>r. fst out = Inr r \<longrightarrow>
        (cyclesSeen (snd out) = cyclesSeen st \<longrightarrow> v = Some r) \<and> (r \<noteq> neg \<longrightarrow> v = Some r))"

definition stage_inv :: "engine \<Rightarrow> model \<Rightarrow> string \<Rightarrow> string \<Rightarrow> subjectQuery \<Rightarrow> params \<Rightarrow> nat \<Rightarrow> int \<Rightarrow> evalState \<Rightarrow> bool" where
  "stage_inv e m p t q cc n depth st \<longleftrightarrow>
     keys_ok e m p t \<and> memo_ok (denotation e m p t q cc) st \<and> int n \<le> maxDepth e + 1 - depth \<and>
     (\<forall>ns obj rel. ns_ok ns \<longrightarrow> rel_ok rel \<longrightarrow> visitKey ns obj rel \<in> visited st \<longrightarrow>
        sem e m p t q cc n ns obj rel = None)"

definition stage_out :: "(evalState \<Rightarrow> bool) \<Rightarrow> bool option \<Rightarrow> bool \<Rightarrow> evalState \<Rightarrow> bool result \<times> evalState \<Rightarrow> bool" where
  "stage_out I v neg st out \<longleftrightarrow> I (snd out) \<and> (\<forall>r. fst out = Inr r \<longrightarrow> v \<noteq> Some (\<not> r))"

definition budget_out :: "engine \<Rightarrow> string \<Rightarrow> string \<Rightarrow> evalState \<Rightarrow> 'a result \<times> evalState \<Rightarrow> bool" where
  "budget_out e p t st out \<longleftrightarrow>
     maxReads (snd out) = maxReads st \<and> reads st \<le> reads (snd out) \<and>
     (case fst out of
        Inr _ \<Rightarrow> maxReads st > 0 \<longrightarrow> reads (snd out) \<le> max (reads st) (maxReads st)
      | Inl err \<Rightarrow>
          (maxReads st > 0 \<longrightarrow> reads (snd out) \<le> max (reads st) (maxReads st) + 1) \<and>
          (err = ErrEvalBudgetExceeded \<and> maxReads st > 0 \<and> reads (snd out) > maxReads st
           \<or> (\<exists>ns obj rel. reader e p t ns obj rel = Inl err)))"

definition backstop_out :: "evalState \<Rightarrow> 'a result \<times> evalState \<Rightarrow> bool" where
  "backstop_out st out \<longleftrightarrow>
     (case collector st of
        None \<Rightarrow> collector (snd out) = None
      | Some b \<Rightarrow> (case collector (snd out) of
          None \<Rightarrow> False
        | Some b' \<Rightarrow> b_Depth b' + b_Cycle b' - cyclesSeen (snd out) = b_Depth b + b_Cycle b - cyclesSeen st \<and>
            b_Depth b \<le> b_Depth b' \<and> b_Cycle b \<le> b_Cycle b'))"

subsection \<open>Evaluating a rewrite keeps a contract\<close>

locale eval_contract =
  fixes e :: engine and p t :: string and q :: subjectQuery and cc :: params
    and rec :: checker and S :: valuation and M R :: "string \<Rightarrow> bool"
    and I :: "evalState \<Rightarrow> bool"
    and P :: "bool option \<Rightarrow> bool \<Rightarrow> evalState \<Rightarrow> bool result \<times> evalState \<Rightarrow> bool"
  assumes return: "I st \<Longrightarrow> P (Some r) neg st (Inr r, st)"
    and any_bind: "I st \<Longrightarrow> P v neg st call \<Longrightarrow> (\<And>st1. I st1 \<Longrightarrow> P (k_any vs) neg st1 (k st1)) \<Longrightarrow>
      P (k_any (v # vs)) neg st (case call of (Inl err, st') \<Rightarrow> (Inl err, st')
        | (Inr ok, st') \<Rightarrow> if ok then (Inr True, st') else k st')"
    and all_bind: "I st \<Longrightarrow> P v neg st call \<Longrightarrow> (\<And>st1. I st1 \<Longrightarrow> P (k_all vs) neg st1 (k st1)) \<Longrightarrow>
      P (k_all (v # vs)) neg st (case call of (Inl err, st') \<Rightarrow> (Inl err, st')
        | (Inr ok, st') \<Rightarrow> if \<not> ok then (Inr False, st') else k st')"
    and negate: "I st \<Longrightarrow> P v (\<not> neg) st call \<Longrightarrow>
      P (k_all [k_not v]) neg st (case call of (Inl err, st') \<Rightarrow> (Inl err, st') | (Inr r, st') \<Rightarrow> (Inr (\<not> r), st'))"
    and budget: "I st \<Longrightarrow> charge st = (Inl err, st') \<Longrightarrow> P v neg st (Inl err, recordBackstop BackstopBudget st')"
    and read_error: "I st \<Longrightarrow> charge st = (Inr (), st') \<Longrightarrow> reader e p t ns obj rel = Inl err \<Longrightarrow> P v neg st (Inl err, st')"
    and charged: "I st \<Longrightarrow> charge st = (Inr (), st') \<Longrightarrow> (I st' \<Longrightarrow> P v neg st' out) \<Longrightarrow> P v neg st out"
    and stored: "I st \<Longrightarrow> reader e p t ns obj rel = Inr ss \<Longrightarrow> s \<in> set ss \<Longrightarrow> s_Set s = Some sset \<Longrightarrow>
      M (ss_Namespace sset) \<and> R (ss_Relation sset)"
    and rec_call: "M ns \<Longrightarrow> R rel \<Longrightarrow> I st \<Longrightarrow> P (S ns obj rel) neg st (rec ns obj rel neg st)"
begin

lemma any_decided:
  assumes "I st" and "\<And>st1. I st1 \<Longrightarrow> P (k_any vs) neg st1 (k st1)"
  shows "P (k_any (Some r # vs)) neg st (if r then (Inr True, st) else k st)"
  using any_bind [OF assms(1) return [OF assms(1)] assms(2), of r] by simp

lemma thisLoop:
  "I st \<Longrightarrow> \<forall>s \<in> set ss. \<forall>sset. s_Set s = Some sset \<longrightarrow> M (ss_Namespace sset) \<and> R (ss_Relation sset) \<Longrightarrow>
     P (k_any (map (semSubject q cc S) ss)) neg st (evalThisLoop q cc rec neg ss st)"
proof (induction ss arbitrary: st)
  case Nil
  with return [of st False] show ?case by (simp add: k_any_def)
next
  case (Cons s ss)
  have IH: "\<And>st. I st \<Longrightarrow> P (k_any (map (semSubject q cc S) ss)) neg st (evalThisLoop q cc rec neg ss st)"
    using Cons by simp
  note decided = any_decided [OF Cons.prems(1) IH]
  have call: "s_Set s = Some sset \<Longrightarrow> P (S (ss_Namespace sset) (ss_ObjectID sset) (ss_Relation sset)) neg st
      (rec (ss_Namespace sset) (ss_ObjectID sset) (ss_Relation sset) neg st)" for sset
    using Cons.prems by (intro rec_call) auto
  show ?case
    using decided [of True] decided [of False] any_bind [OF Cons.prems(1) call IH]
    by (cases "s_Set s") (auto simp: semSubject_def [of _ _ _ s] simp del: k_any_Some)
qed

lemma ttuLoop:
  "R crel \<Longrightarrow> I st \<Longrightarrow> \<forall>s \<in> set ss. \<forall>sset. s_Set s = Some sset \<longrightarrow> M (ss_Namespace sset) \<Longrightarrow>
     P (k_any (map (semPointer cc S crel) ss)) neg st (evalTTULoop cc rec crel neg ss st)"
proof (induction ss arbitrary: st)
  case Nil
  with return [of st False] show ?case by (simp add: k_any_def)
next
  case (Cons s ss)
  have IH: "\<And>st. I st \<Longrightarrow> P (k_any (map (semPointer cc S crel) ss)) neg st (evalTTULoop cc rec crel neg ss st)"
    using Cons by simp
  note decided = any_decided [OF Cons.prems(2) IH]
  have call: "s_Set s = Some sset \<Longrightarrow> P (S (ss_Namespace sset) (ss_ObjectID sset) crel) neg st
      (rec (ss_Namespace sset) (ss_ObjectID sset) crel neg st)" for sset
    using Cons.prems by (intro rec_call) auto
  show ?case
    using decided [of False] any_bind [OF Cons.prems(2) call IH]
    by (cases "s_Set s") (auto simp: semPointer_def [of _ _ _ s] simp del: k_any_Some)
qed

lemma this_rewrite:
  assumes "I st"
  shows "P (case reader e p t ns obj rel of Inl _ \<Rightarrow> None | Inr ss \<Rightarrow> k_any (map (semSubject q cc S) ss))
    neg st (evalThis e p t q cc rec ns obj rel neg st)"
proof (cases "charge st")
  case (Pair r st')
  show ?thesis
  proof (cases r)
    case (Inl err)
    with Pair assms show ?thesis by (simp add: evalThis_def budget)
  next
    case (Inr u)
    show ?thesis
    proof (cases "reader e p t ns obj rel")
      case (Inl err)
      with Pair Inr assms show ?thesis by (simp add: evalThis_def read_error)
    next
      case read: (Inr ss)
      with stored [OF assms read] have "I st' \<Longrightarrow> P (k_any (map (semSubject q cc S) ss)) neg st' (evalThisLoop q cc rec neg ss st')"
        by (intro thisLoop) auto
      with charged [OF assms, of st'] Pair Inr read show ?thesis by (simp add: evalThis_def)
    qed
  qed
qed

lemma ttu_rewrite:
  assumes "I st" and "R (rw_ComputedRelation rw)"
  shows "P (case reader e p t ns obj (rw_TuplesetRelation rw) of Inl _ \<Rightarrow> None
      | Inr ss \<Rightarrow> k_any (map (semPointer cc S (rw_ComputedRelation rw)) ss))
    neg st (evalTupleToUserset e p t cc rec ns obj rw neg st)"
proof (cases "charge st")
  case (Pair r st')
  show ?thesis
  proof (cases r)
    case (Inl err)
    with Pair assms show ?thesis by (simp add: evalTupleToUserset_def budget)
  next
    case (Inr u)
    show ?thesis
    proof (cases "reader e p t ns obj (rw_TuplesetRelation rw)")
      case (Inl err)
      with Pair Inr assms show ?thesis by (simp add: evalTupleToUserset_def read_error)
    next
      case read: (Inr ss)
      with stored [OF assms(1) read] assms(2) have "I st' \<Longrightarrow>
          P (k_any (map (semPointer cc S (rw_ComputedRelation rw)) ss)) neg st'
            (evalTTULoop cc rec (rw_ComputedRelation rw) neg ss st')"
        by (intro ttuLoop) auto
      with charged [OF assms(1), of st'] Pair Inr read show ?thesis by (simp add: evalTupleToUserset_def)
    qed
  qed
qed

lemma union_rewrite:
  assumes "\<And>r st. r \<in> set rws \<Longrightarrow> I st \<Longrightarrow> P (f r) neg st (evalRewrite e p t q cc rec ns obj rel r neg st)"
  shows "I st \<Longrightarrow> P (k_any (map f rws)) neg st (evalUnion e p t q cc rec ns obj rel rws neg st)"
  using assms
proof (induction rws arbitrary: st)
  case Nil
  with return [of st False] show ?case by (simp add: k_any_def)
next
  case (Cons r rws)
  then have "P (f r) neg st (evalRewrite e p t q cc rec ns obj rel r neg st)" by simp
  from any_bind [OF Cons.prems(1) this, of "map f rws" "evalUnion e p t q cc rec ns obj rel rws neg"] Cons
  show ?case by (simp del: k_any_Some)
qed

lemma intersection_rewrite:
  assumes "\<And>r st. r \<in> set rws \<Longrightarrow> I st \<Longrightarrow> P (f r) neg st (evalRewrite e p t q cc rec ns obj rel r neg st)"
  shows "I st \<Longrightarrow> P (k_all (map f rws)) neg st (evalIntersection e p t q cc rec ns obj rel rws neg st)"
  using assms
proof (induction rws arbitrary: st)
  case Nil
  with return [of st True] show ?case by (simp add: k_all_def)
next
  case (Cons r rws)
  then have "P (f r) neg st (evalRewrite e p t q cc rec ns obj rel r neg st)" by simp
  from all_bind [OF Cons.prems(1) this, of "map f rws" "evalIntersection e p t q cc rec ns obj rel rws neg"] Cons
  show ?case by (simp del: k_all_Some)
qed

lemma rewrite:
  assumes "M ns"
  shows "rw_rels R rw \<Longrightarrow> I st \<Longrightarrow>
    P (semRewrite e p t q cc S ns obj rel rw) neg st (evalRewrite e p t q cc rec ns obj rel rw neg st)"
proof (induction rw arbitrary: neg st)
  case (Rewrite u i x c ts cr)
  let ?sem = "semRewrite e p t q cc S ns obj rel"
  note ret = return [OF Rewrite.prems(2)]
  show ?case
  proof (cases "isThis (Rewrite u i x c ts cr)")
    case True
    with this_rewrite [OF Rewrite.prems(2)] show ?thesis by simp
  next
    case False
    then show ?thesis
    proof (cases rule: not_isThis_cases)
      case Union
      have "P (k_any (map ?sem u)) neg st (evalUnion e p t q cc rec ns obj rel u neg st)"
        using Rewrite by (intro union_rewrite Rewrite.IH(1)) (auto simp: list_all_iff)
      with Union False show ?thesis by (simp del: k_any_Some)
    next
      case Inter
      have "P (k_all (map ?sem i)) neg st (evalIntersection e p t q cc rec ns obj rel i neg st)"
        using Rewrite by (intro intersection_rewrite Rewrite.IH(2)) (auto simp: list_all_iff)
      with Inter False ret [of False] show ?thesis by (simp del: k_all_Some)
    next
      case (Excl inc exc)
      have exc: "I st1 \<Longrightarrow> P (k_all [k_not (?sem exc)]) neg st1
          (case evalRewrite e p t q cc rec ns obj rel exc (\<not> neg) st1 of
             (Inl err, st2) \<Rightarrow> (Inl err, st2) | (Inr excluded, st2) \<Rightarrow> (Inr (\<not> excluded), st2))" for st1
        using Rewrite.IH(4) [of "(inc, exc)" exc st1 "\<not> neg"] Rewrite.prems(1) Excl
        by (intro negate) auto
      have "P (?sem inc) neg st (evalRewrite e p t q cc rec ns obj rel inc neg st)"
        using Rewrite.IH(3) [of "(inc, exc)" inc] Rewrite.prems Excl by auto
      from all_bind [OF Rewrite.prems(2) this exc] Excl False ret [of False] show ?thesis
        by (simp del: k_all_Some)
    next
      case Comp
      with Rewrite.prems assms False rec_call [of ns c st obj neg] show ?thesis by simp
    next
      case TTU
      with ttu_rewrite [OF Rewrite.prems(2), of "Rewrite u i x c ts cr"] Rewrite.prems False show ?thesis
        by (simp cong: sum.case_cong)
    qed
  qed
qed

end

subsection \<open>Unfolding check\<close>

lemma check_eval:
  assumes "visitKey ns obj rel \<notin> visited st" and "depth \<le> maxDepth e"
    and "memo st (memoKey (visitKey ns obj rel) neg) = None"
    and "evalRewrite e p t q cc (check e m p t q cc (depth + 1)) ns obj rel (rewrite_of m ns rel) neg
           (st\<lparr>visited := insert (visitKey ns obj rel) (visited st)\<rparr>) = (res, st1)"
  shows "check e m p t q cc depth ns obj rel neg st =
    (let st2 = st1\<lparr>visited := visited st1 - {visitKey ns obj rel}\<rparr> in
     (case res of Inl err \<Rightarrow> (Inl err, st2)
      | Inr r \<Rightarrow> if cyclesSeen st2 = cyclesSeen st
          then (Inr r, st2\<lparr>memo := (memo st2)(memoKey (visitKey ns obj rel) neg \<mapsto> r)\<rparr>) else (Inr r, st2)))"
  using assms by (subst check.simps) (simp add: Let_def)

lemma check_backstop:
  assumes "visitKey ns obj rel \<in> visited st \<or> maxDepth e < depth"
  shows "\<exists>b. check e m p t q cc depth ns obj rel neg st =
    (Inr neg, recordBackstop b (st\<lparr>cyclesSeen := cyclesSeen st + 1\<rparr>))"
  using assms by (subst check.simps) (auto simp: Let_def)

lemma check_memo:
  assumes "visitKey ns obj rel \<notin> visited st" and "depth \<le> maxDepth e"
    and "memo st (memoKey (visitKey ns obj rel) neg) = Some r"
  shows "check e m p t q cc depth ns obj rel neg st = (Inr r, st)"
  using assms by (subst check.simps) (simp add: Let_def)

lemma check_cases [case_names backstop memo eval]:
  obtains (backstop) "visitKey ns obj rel \<in> visited st \<or> maxDepth e < depth"
    | (memo) r where "visitKey ns obj rel \<notin> visited st" "depth \<le> maxDepth e"
        "memo st (memoKey (visitKey ns obj rel) neg) = Some r"
    | (eval) res st1 where "visitKey ns obj rel \<notin> visited st" "depth \<le> maxDepth e"
        "memo st (memoKey (visitKey ns obj rel) neg) = None"
        "evalRewrite e p t q cc (check e m p t q cc (depth + 1)) ns obj rel (rewrite_of m ns rel) neg
           (st\<lparr>visited := insert (visitKey ns obj rel) (visited st)\<rparr>) = (res, st1)"
  by (cases "memo st (memoKey (visitKey ns obj rel) neg)"; cases "evalRewrite e p t q cc
      (check e m p t q cc (depth + 1)) ns obj rel (rewrite_of m ns rel) neg
      (st\<lparr>visited := insert (visitKey ns obj rel) (visited st)\<rparr>)") force+

lemma recordBackstop_frame [simp, frame_simps]:
  "visited (recordBackstop b st) = visited st"
  "memo (recordBackstop b st) = memo st"
  "cyclesSeen (recordBackstop b st) = cyclesSeen st"
  "reads (recordBackstop b st) = reads st"
  "maxReads (recordBackstop b st) = maxReads st"
  by (simp_all add: recordBackstop_def split: option.split)

lemma memo_ok_frame [simp, frame_simps]:
  "memo_ok D (st\<lparr>visited := V\<rparr>) = memo_ok D st"
  "memo_ok D (st\<lparr>reads := n\<rparr>) = memo_ok D st"
  "memo_ok D (st\<lparr>cyclesSeen := n\<rparr>) = memo_ok D st"
  "memo_ok D (recordBackstop b st) = memo_ok D st"
  by (simp_all add: memo_ok_def)

lemma memo_ok_new [simp]: "memo_ok D (newEvalState b mx)"
  by (simp add: memo_ok_def newEvalState_def)

lemma charge_Inl: "charge st = (Inl err, st') \<longleftrightarrow>
    err = ErrEvalBudgetExceeded \<and> st' = st\<lparr>reads := reads st + 1\<rparr> \<and> maxReads st > 0 \<and> reads st + 1 > maxReads st"
  by (auto simp: charge_def Let_def)

lemma charge_Inr: "charge st = (Inr u, st') \<longleftrightarrow>
    st' = st\<lparr>reads := reads st + 1\<rparr> \<and> (maxReads st > 0 \<longrightarrow> reads st + 1 \<le> maxReads st)"
  by (auto simp: charge_def Let_def)

lemma memo_ok_update:
  assumes "memo_ok D st" and "D ns obj rel = Some r" and ok: "ns_ok ns" "rel_ok rel"
  shows "memo_ok D (st\<lparr>memo := (memo st)(memoKey (visitKey ns obj rel) neg \<mapsto> r)\<rparr>)"
  unfolding memo_ok_def
proof (intro allI impI)
  fix ns' obj' rel' neg' r'
  assume ok': "ns_ok ns'" "rel_ok rel'"
    and hit: "memo (st\<lparr>memo := (memo st)(memoKey (visitKey ns obj rel) neg \<mapsto> r)\<rparr>)
        (memoKey (visitKey ns' obj' rel') neg') = Some r'"
  show "D ns' obj' rel' = Some r'"
  proof (cases "visitKey ns' obj' rel' = visitKey ns obj rel \<and> neg' = neg")
    case True
    with visitKey_inj [of ns' obj' rel' ns obj rel] ok ok' hit assms(2) show ?thesis by auto
  next
    case False
    with hit ok' assms(1) show ?thesis unfolding memo_ok_def by auto
  qed
qed

subsection \<open>Soundness\<close>

lemma sound_any_bind:
  assumes "sound_inv e m p t D st" "sound_out D v neg st call"
    and "\<And>st1. sound_inv e m p t D st1 \<Longrightarrow> sound_out D (k_any vs) neg st1 (k st1)"
  shows "sound_out D (k_any (v # vs)) neg st (case call of
    (Inl err, st') \<Rightarrow> (Inl err, st') | (Inr ok, st') \<Rightarrow> if ok then (Inr True, st') else k st')"
proof (cases call)
  case (Pair r st1)
  from assms(1,2) Pair have "sound_inv e m p t D st1" by (simp add: sound_out_def sound_inv_def)
  from assms(3) [OF this] assms(2) Pair show ?thesis
    by (cases neg; cases r; cases "fst (k st1)") (auto simp: sound_out_def)
qed

lemma sound_all_bind:
  assumes "sound_inv e m p t D st" "sound_out D v neg st call"
    and "\<And>st1. sound_inv e m p t D st1 \<Longrightarrow> sound_out D (k_all vs) neg st1 (k st1)"
  shows "sound_out D (k_all (v # vs)) neg st (case call of
    (Inl err, st') \<Rightarrow> (Inl err, st') | (Inr ok, st') \<Rightarrow> if \<not> ok then (Inr False, st') else k st')"
proof (cases call)
  case (Pair r st1)
  from assms(1,2) Pair have "sound_inv e m p t D st1" by (simp add: sound_out_def sound_inv_def)
  from assms(3) [OF this] assms(2) Pair show ?thesis
    by (cases neg; cases r; cases "fst (k st1)") (auto simp: sound_out_def)
qed

lemma sound_contract:
  assumes "\<And>ns obj rel neg st. ns_ok ns \<Longrightarrow> rel_ok rel \<Longrightarrow> sound_inv e m p t D st \<Longrightarrow>
    sound_out D (D ns obj rel) neg st (rec ns obj rel neg st)"
  shows "eval_contract e p t rec D ns_ok rel_ok (sound_inv e m p t D) (sound_out D)"
proof
  show "sound_inv e m p t D st \<Longrightarrow> sound_out D (Some r) neg st (Inr r, st)" for st r neg
    by (simp add: sound_inv_def sound_out_def)
  show "sound_inv e m p t D st \<Longrightarrow> sound_out D v (\<not> neg) st call \<Longrightarrow> sound_out D (k_all [k_not v]) neg st
      (case call of (Inl err, st') \<Rightarrow> (Inl err, st') | (Inr r, st') \<Rightarrow> (Inr (\<not> r), st'))" for st v neg call
    by (auto simp: sound_out_def k_all_def split: prod.splits sum.splits)
  show "sound_inv e m p t D st \<Longrightarrow> charge st = (Inl err, st') \<Longrightarrow>
      sound_out D v neg st (Inl err, recordBackstop BackstopBudget st')" for st err st' v neg
    by (auto simp: sound_inv_def sound_out_def charge_Inl)
  show "sound_inv e m p t D st \<Longrightarrow> charge st = (Inr (), st') \<Longrightarrow> reader e p t ns obj rel = Inl err \<Longrightarrow>
      sound_out D v neg st (Inl err, st')" for st err st' v neg ns obj rel
    by (auto simp: sound_inv_def sound_out_def charge_Inr)
  show "sound_inv e m p t D st \<Longrightarrow> charge st = (Inr (), st') \<Longrightarrow> (sound_inv e m p t D st' \<Longrightarrow> sound_out D v neg st' out)
      \<Longrightarrow> sound_out D v neg st out" for st st' v neg out
    by (auto simp: sound_inv_def sound_out_def charge_Inr)
  show "sound_inv e m p t D st \<Longrightarrow> reader e p t ns obj rel = Inr ss \<Longrightarrow> s \<in> set ss \<Longrightarrow> s_Set s = Some sset \<Longrightarrow>
      ns_ok (ss_Namespace sset) \<and> rel_ok (ss_Relation sset)" for st ns obj rel ss s sset
    by (auto simp: sound_inv_def keys_ok_def store_keys_ok_def)
qed (rule sound_any_bind sound_all_bind assms; assumption)+

lemma sound_check_eval:
  assumes so: "sound_out D v neg (st\<lparr>visited := insert key (visited st)\<rparr>) (res, st1)"
    and step: "\<And>r. v = Some r \<Longrightarrow> D ns obj rel = Some r" and ok: "ns_ok ns" "rel_ok rel"
    and key: "key = visitKey ns obj rel" "key \<notin> visited st"
  shows "sound_out D (D ns obj rel) neg st
    (let st2 = st1\<lparr>visited := visited st1 - {key}\<rparr> in
     (case res of Inl err \<Rightarrow> (Inl err, st2)
      | Inr r \<Rightarrow> if cyclesSeen st2 = cyclesSeen st
          then (Inr r, st2\<lparr>memo := (memo st2)(memoKey key neg \<mapsto> r)\<rparr>) else (Inr r, st2)))"
proof (cases res)
  case (Inl err)
  with so key show ?thesis by (simp add: sound_out_def)
next
  case (Inr r)
  from so Inr have "cyclesSeen st1 = cyclesSeen st \<Longrightarrow> D ns obj rel = Some r"
    and "r \<noteq> neg \<Longrightarrow> D ns obj rel = Some r" and "memo_ok D st1"
    and "cyclesSeen st \<le> cyclesSeen st1" and "visited st1 - {key} = visited st"
    using key by (auto simp: sound_out_def intro: step)
  then show ?thesis
    using Inr memo_ok_update [of D "st1\<lparr>visited := visited st\<rparr>" ns obj rel r neg] ok key(1)
    by (simp add: sound_out_def Let_def)
qed

lemma check_sound:
  "ns_ok ns \<Longrightarrow> rel_ok rel \<Longrightarrow> sound_inv e m p t (denotation e m p t q cc) st \<Longrightarrow>
   sound_out (denotation e m p t q cc) (denotation e m p t q cc ns obj rel) neg st
     (check e m p t q cc depth ns obj rel neg st)"
proof (induction "nat (maxDepth e + 1 - depth)" arbitrary: depth ns obj rel neg st rule: less_induct)
  case less
  let ?D = "denotation e m p t q cc"
  let ?st = "st\<lparr>visited := insert (visitKey ns obj rel) (visited st)\<rparr>"
  from less.prems have memo: "memo_ok ?D st" and keys: "keys_ok e m p t" by (simp_all add: sound_inv_def)
  show ?case
  proof (cases rule: check_cases [where ns = ns and obj = obj and rel = rel and st = st and e = e and depth = depth and neg = neg and p = p and t = t and q = q and cc = cc and m = m])
    case backstop
    from check_backstop [OF this, of m p t q cc neg] memo show ?thesis by (auto simp: sound_out_def)
  next
    case (memo r)
    with less.prems have "?D ns obj rel = Some r" by (auto simp: sound_inv_def memo_ok_def)
    with less.prems show ?thesis by (simp add: check_memo [OF memo] sound_out_def sound_inv_def)
  next
    case (eval res st1)
    have "eval_contract e p t (check e m p t q cc (depth + 1)) ?D ns_ok rel_ok (sound_inv e m p t ?D) (sound_out ?D)"
      using eval(2) by (intro sound_contract less.hyps) auto
    from eval_contract.rewrite [OF this less.prems(1), of "rewrite_of m ns rel" ?st q cc obj rel neg]
    have "sound_out ?D (semRewrite e p t q cc ?D ns obj rel (rewrite_of m ns rel)) neg ?st (res, st1)"
      using rewrite_of_rels_ok keys memo by (simp add: eval(4) keys_ok_def sound_inv_def)
    then show ?thesis
      unfolding check_eval [OF eval]
      by (rule sound_check_eval) (simp_all add: denotation_Some denotes_step less.prems eval)
  qed
qed

interpretation sound: eval_contract e p t q cc "check e m p t q cc depth" "denotation e m p t q cc"
    ns_ok rel_ok "sound_inv e m p t (denotation e m p t q cc)" "sound_out (denotation e m p t q cc)"
  for e m p t q cc depth
  by (rule sound_contract) (rule check_sound)

subsection \<open>Completeness up to the depth bound\<close>

lemma stage_any_bind:
  assumes "I st" "stage_out I v neg st call" and "\<And>st1. I st1 \<Longrightarrow> stage_out I (k_any vs) neg st1 (k st1)"
  shows "stage_out I (k_any (v # vs)) neg st (case call of
    (Inl err, st') \<Rightarrow> (Inl err, st') | (Inr ok, st') \<Rightarrow> if ok then (Inr True, st') else k st')"
proof (cases call)
  case (Pair res st1)
  with assms(2) have k: "stage_out I (k_any vs) neg st1 (k st1)" by (intro assms(3)) (simp add: stage_out_def)
  have any: "k_any vs \<noteq> Some (\<not> r) \<Longrightarrow> v \<noteq> Some True \<Longrightarrow> k_any (v # vs) \<noteq> Some (\<not> r)" for r
    by (cases r) auto
  show ?thesis
  proof (cases res)
    case (Inl err)
    with Pair assms(2) show ?thesis by (simp add: stage_out_def)
  next
    case (Inr ok)
    with Pair assms(2) have v: "I st1" "v \<noteq> Some (\<not> ok)" by (auto simp: stage_out_def)
    with k any have "ok = False \<Longrightarrow> stage_out I (k_any (v # vs)) neg st (k st1)"
      unfolding stage_out_def by blast
    with Pair Inr v show ?thesis by (cases ok) (simp_all add: stage_out_def)
  qed
qed

lemma stage_all_bind:
  assumes "I st" "stage_out I v neg st call" and "\<And>st1. I st1 \<Longrightarrow> stage_out I (k_all vs) neg st1 (k st1)"
  shows "stage_out I (k_all (v # vs)) neg st (case call of
    (Inl err, st') \<Rightarrow> (Inl err, st') | (Inr ok, st') \<Rightarrow> if \<not> ok then (Inr False, st') else k st')"
proof (cases call)
  case (Pair res st1)
  with assms(2) have k: "stage_out I (k_all vs) neg st1 (k st1)" by (intro assms(3)) (simp add: stage_out_def)
  have all: "k_all vs \<noteq> Some (\<not> r) \<Longrightarrow> v \<noteq> Some False \<Longrightarrow> k_all (v # vs) \<noteq> Some (\<not> r)" for r
    by (cases r) auto
  show ?thesis
  proof (cases res)
    case (Inl err)
    with Pair assms(2) show ?thesis by (simp add: stage_out_def)
  next
    case (Inr ok)
    with Pair assms(2) have v: "I st1" "v \<noteq> Some (\<not> ok)" by (auto simp: stage_out_def)
    with k all have "ok = True \<Longrightarrow> stage_out I (k_all (v # vs)) neg st (k st1)"
      unfolding stage_out_def by blast
    with Pair Inr v show ?thesis by (cases ok) (simp_all add: stage_out_def)
  qed
qed

lemma stage_contract:
  assumes rec: "\<And>ns obj rel neg st. ns_ok ns \<Longrightarrow> rel_ok rel \<Longrightarrow> stage_inv e m p t q cc n depth st \<Longrightarrow>
    stage_out (stage_inv e m p t q cc n depth) (S ns obj rel) neg st (rec ns obj rel neg st)"
  shows "eval_contract e p t rec S ns_ok rel_ok (stage_inv e m p t q cc n depth)
    (stage_out (stage_inv e m p t q cc n depth))"
proof
  let ?I = "stage_inv e m p t q cc n depth"
  have chg: "?I st \<Longrightarrow> ?I (st\<lparr>reads := k\<rparr>)" and bst: "?I st \<Longrightarrow> ?I (recordBackstop b st)" for st k b
    by (simp_all add: stage_inv_def)
  show "?I st \<Longrightarrow> stage_out ?I (Some r) neg st (Inr r, st)" for st r neg
    by (simp add: stage_out_def)
  show "?I st \<Longrightarrow> stage_out ?I v (\<not> neg) st call \<Longrightarrow> stage_out ?I (k_all [k_not v]) neg st
      (case call of (Inl err, st') \<Rightarrow> (Inl err, st') | (Inr r, st') \<Rightarrow> (Inr (\<not> r), st'))" for st v neg call
    by (auto simp: stage_out_def k_all_def split: prod.splits sum.splits if_splits)
  show "?I st \<Longrightarrow> charge st = (Inl err, st') \<Longrightarrow> stage_out ?I v neg st (Inl err, recordBackstop BackstopBudget st')"
    for st err st' v neg
    by (auto simp: stage_out_def charge_Inl intro: chg bst)
  show "?I st \<Longrightarrow> charge st = (Inr (), st') \<Longrightarrow> reader e p t ns obj rel = Inl err \<Longrightarrow> stage_out ?I v neg st (Inl err, st')"
    for st err st' v neg ns obj rel
    by (auto simp: stage_out_def charge_Inr intro: chg)
  show "?I st \<Longrightarrow> charge st = (Inr (), st') \<Longrightarrow> (?I st' \<Longrightarrow> stage_out ?I v neg st' out) \<Longrightarrow> stage_out ?I v neg st out"
    for st st' v neg out
    by (auto simp: stage_out_def charge_Inr intro: chg)
  show "?I st \<Longrightarrow> reader e p t ns obj rel = Inr ss \<Longrightarrow> s \<in> set ss \<Longrightarrow> s_Set s = Some sset \<Longrightarrow>
      ns_ok (ss_Namespace sset) \<and> rel_ok (ss_Relation sset)" for st ns obj rel ss s sset
    by (auto simp: stage_inv_def keys_ok_def store_keys_ok_def)
qed (rule stage_any_bind stage_all_bind rec; assumption)+

lemma stage_inv_enter:
  assumes "stage_inv e m p t q cc n depth st" and "ns_ok ns" "rel_ok rel"
    and "Suc k \<le> n" and "sem e m p t q cc k ns obj rel = None"
  shows "stage_inv e m p t q cc k (depth + 1) (st\<lparr>visited := insert (visitKey ns obj rel) (visited st)\<rparr>)"
proof -
  have le: "k \<le> n" using assms(4) by simp
  have none: "sem e m p t q cc k ns' obj' rel' = None" if "sem e m p t q cc n ns' obj' rel' = None" for ns' obj' rel'
    using val_leD [OF sem_mono [OF le], of e m p t q cc ns' obj' rel'] that
    by (cases "sem e m p t q cc k ns' obj' rel'") auto
  have "sem e m p t q cc k ns' obj' rel' = None"
    if "ns_ok ns'" "rel_ok rel'" "visitKey ns' obj' rel' \<in> insert (visitKey ns obj rel) (visited st)" for ns' obj' rel'
  proof (cases "visitKey ns' obj' rel' = visitKey ns obj rel")
    case True
    with visitKey_inj [of ns' obj' rel' ns obj rel] that assms show ?thesis by simp
  next
    case False
    with that assms(1) none show ?thesis by (auto simp: stage_inv_def)
  qed
  with assms(1,4) show ?thesis by (simp add: stage_inv_def)
qed

lemma check_stage:
  "ns_ok ns \<Longrightarrow> rel_ok rel \<Longrightarrow> stage_inv e m p t q cc n depth st \<Longrightarrow>
   stage_out (stage_inv e m p t q cc n depth) (sem e m p t q cc n ns obj rel) neg st
     (check e m p t q cc depth ns obj rel neg st)"
proof (induction n arbitrary: depth ns obj rel neg st rule: less_induct)
  case (less n)
  let ?D = "denotation e m p t q cc"
  let ?out = "check e m p t q cc depth ns obj rel neg st"
  let ?st = "st\<lparr>visited := insert (visitKey ns obj rel) (visited st)\<rparr>"
  from less.prems have snd: "sound_inv e m p t ?D st" by (simp add: stage_inv_def sound_inv_def)
  from check_sound [OF less.prems(1,2) snd, of obj neg depth]
  have inv: "stage_inv e m p t q cc n depth (snd ?out)"
    using less.prems by (simp add: stage_inv_def sound_out_def)
  have "r = b" if res: "fst ?out = Inr r" and sem: "sem e m p t q cc n ns obj rel = Some b" for r b
  proof (cases rule: check_cases [where ns = ns and obj = obj and rel = rel and st = st and e = e and depth = depth and neg = neg and p = p and t = t and q = q and cc = cc and m = m])
    case backstop
    from sem have "n \<noteq> 0" by (cases n) auto
    with backstop less.prems sem show ?thesis by (auto simp: stage_inv_def)
  next
    case (memo r')
    with less.prems have "?D ns obj rel = Some r'" by (auto simp: stage_inv_def memo_ok_def)
    moreover from sem have "?D ns obj rel = Some b" by (auto simp: denotation_Some denotes_def)
    ultimately show ?thesis using res by (simp add: check_memo [OF memo])
  next
    case (eval res1 st1)
    have "\<exists>k<n. (\<forall>i\<le>k. \<not> sem e m p t q cc i ns obj rel \<noteq> None) \<and> sem e m p t q cc (Suc k) ns obj rel \<noteq> None"
      using sem by (intro ex_least_nat_less) simp_all
    then obtain k b' where k: "Suc k \<le> n" "sem e m p t q cc k ns obj rel = None"
      and b': "sem e m p t q cc (Suc k) ns obj rel = Some b'"
      by (metis Suc_leI le_refl option.exhaust)
    from val_leD [OF sem_mono [OF k(1)] b'] sem b'
    have semk: "semRewrite e p t q cc (sem e m p t q cc k) ns obj rel (rewrite_of m ns rel) = Some b" by simp
    let ?I = "stage_inv e m p t q cc k (depth + 1)"
    have "eval_contract e p t (check e m p t q cc (depth + 1)) (sem e m p t q cc k) ns_ok rel_ok ?I (stage_out ?I)"
      using k(1) by (intro stage_contract less.IH) auto
    from eval_contract.rewrite [OF this less.prems(1), of "rewrite_of m ns rel" ?st q cc obj rel neg]
      stage_inv_enter [OF less.prems(3,1,2) k(1,2)] less.prems(3)
    have "stage_out ?I (Some b) neg ?st (res1, st1)"
      using rewrite_of_rels_ok by (simp add: eval(4) semk keys_ok_def stage_inv_def)
    then show ?thesis
      using res by (auto simp: check_eval [OF eval] stage_out_def Let_def split: sum.splits if_splits)
  qed
  with inv show ?case by (auto simp: stage_out_def)
qed

interpretation stage: eval_contract e p t q cc "check e m p t q cc depth" "sem e m p t q cc n"
    ns_ok rel_ok "stage_inv e m p t q cc n depth" "stage_out (stage_inv e m p t q cc n depth)"
  for e m p t q cc n depth
  by (rule stage_contract) (rule check_stage)

subsection \<open>The read budget\<close>

lemma budget_bind:
  assumes "budget_out e p t st call" and "\<And>r st1. fst call = Inr r \<Longrightarrow> budget_out e p t st1 (k r st1)"
  shows "budget_out e p t st (case call of (Inl err, st') \<Rightarrow> (Inl err, st') | (Inr r, st') \<Rightarrow> k r st')"
proof (cases call)
  case (Pair res st1)
  show ?thesis
  proof (cases res)
    case (Inl err)
    with assms(1) Pair show ?thesis by (simp add: budget_out_def)
  next
    case (Inr r)
    with assms(1) assms(2) [of r st1] Pair show ?thesis
      by (cases "fst (k r st1)") (auto simp: budget_out_def max_def split: if_splits)
  qed
qed

lemma budget_return [simp]: "budget_out e p t st (Inr r, st)"
  by (simp add: budget_out_def)

lemma budget_exhausted:
  "charge st = (Inl err, st') \<Longrightarrow> budget_out e p t st (Inl err, recordBackstop BackstopBudget st')"
  by (auto simp: budget_out_def charge_Inl)

lemma budget_read_error:
  "charge st = (Inr (), st') \<Longrightarrow> reader e p t ns obj rel = Inl err \<Longrightarrow> budget_out e p t st (Inl err, st')"
  by (auto simp: budget_out_def charge_Inr)

lemma budget_charged:
  "charge st = (Inr (), st') \<Longrightarrow> budget_out e p t st' out \<Longrightarrow> budget_out e p t st out"
  by (cases "fst out") (auto simp: budget_out_def charge_Inr max_def split: if_splits)

lemma budget_contract:
  assumes "\<And>ns obj rel neg st. budget_out e p t st (rec ns obj rel neg st)"
  shows "eval_contract e p t rec S (\<lambda>_. True) (\<lambda>_. True) (\<lambda>_. True) (\<lambda>_ _. budget_out e p t)"
proof
  fix st :: evalState and neg :: bool and call :: "bool result \<times> evalState" and k :: "evalState \<Rightarrow> bool result \<times> evalState"
  assume call: "budget_out e p t st call"
  show "budget_out e p t st (case call of (Inl err, st') \<Rightarrow> (Inl err, st') | (Inr r, st') \<Rightarrow> (Inr (\<not> r), st'))"
    by (rule budget_bind [OF call]) simp
  assume k: "\<And>st1. True \<Longrightarrow> budget_out e p t st1 (k st1)"
  show "budget_out e p t st (case call of (Inl err, st') \<Rightarrow> (Inl err, st')
      | (Inr ok, st') \<Rightarrow> if ok then (Inr True, st') else k st')"
    by (rule budget_bind [OF call]) (simp add: k)
  show "budget_out e p t st (case call of (Inl err, st') \<Rightarrow> (Inl err, st')
      | (Inr ok, st') \<Rightarrow> if \<not> ok then (Inr False, st') else k st')"
    by (rule budget_bind [OF call]) (simp add: k)
qed (auto intro: assms budget_exhausted budget_read_error budget_charged)

lemma rw_rels_True [simp]: "rw_rels (\<lambda>_. True) rw"
  by (induction rw) (auto simp: list_all_iff split: option.splits)

lemma check_budget: "budget_out e p t st (check e m p t q cc depth ns obj rel neg st)"
proof (induction "nat (maxDepth e + 1 - depth)" arbitrary: depth ns obj rel neg st rule: less_induct)
  case less
  let ?st = "st\<lparr>visited := insert (visitKey ns obj rel) (visited st)\<rparr>"
  show ?case
  proof (cases rule: check_cases [where ns = ns and obj = obj and rel = rel and st = st and e = e and depth = depth and neg = neg and p = p and t = t and q = q and cc = cc and m = m])
    case backstop
    from check_backstop [OF this, of m p t q cc neg] show ?thesis by (auto simp: budget_out_def)
  next
    case (memo r)
    then show ?thesis by (simp add: check_memo [OF memo])
  next
    case (eval res st1)
    have "eval_contract e p t (check e m p t q cc (depth + 1)) (\<lambda>_ _ _. None) (\<lambda>_. True) (\<lambda>_. True) (\<lambda>_. True)
        (\<lambda>_ _. budget_out e p t)"
      using eval(2) by (intro budget_contract less.hyps) auto
    from eval_contract.rewrite [OF this, where rw = "rewrite_of m ns rel" and st = ?st and q = q and cc = cc
        and ns = ns and obj = obj and rel = rel and neg = neg]
    have "budget_out e p t ?st (res, st1)" by (simp add: eval(4))
    then show ?thesis
      by (cases res) (auto simp: check_eval [OF eval] budget_out_def Let_def)
  qed
qed

interpretation budget: eval_contract e p t q cc "check e m p t q cc depth" S
    "\<lambda>_. True" "\<lambda>_. True" "\<lambda>_. True" "\<lambda>_ _. budget_out e p t"
  for e m p t q cc depth S
  by (rule budget_contract) (rule check_budget)

subsection \<open>Backstop counters\<close>

lemma backstop_bind:
  assumes "backstop_out st call" and "\<And>r st1. backstop_out st1 (k r st1)"
  shows "backstop_out st (case call of (Inl err, st') \<Rightarrow> (Inl err, st') | (Inr r, st') \<Rightarrow> k r st')"
proof (cases call)
  case (Pair res st1)
  show ?thesis
  proof (cases res)
    case (Inl err)
    with assms(1) Pair show ?thesis by (simp add: backstop_out_def split: option.splits)
  next
    case (Inr r)
    with assms(1) assms(2) [of st1 r] Pair show ?thesis
      by (auto simp: backstop_out_def split: option.splits)
  qed
qed

lemma backstop_return [simp]: "backstop_out st (Inr r, st)"
  by (simp add: backstop_out_def split: option.splits)

lemma backstop_charged: "charge st = (r, st') \<Longrightarrow> backstop_out st' out \<Longrightarrow> backstop_out st out"
  by (auto simp: charge_def Let_def backstop_out_def split: if_splits option.splits)

lemma backstop_budget: "backstop_out st (Inl err, recordBackstop BackstopBudget st)"
  by (simp add: backstop_out_def recordBackstop_def split: option.splits)

lemma backstop_fired:
  "b \<noteq> BackstopBudget \<Longrightarrow> backstop_out st (Inr r, recordBackstop b (st\<lparr>cyclesSeen := cyclesSeen st + 1\<rparr>))"
  by (cases b) (auto simp: backstop_out_def recordBackstop_def split: option.splits)

lemma backstop_contract:
  assumes "\<And>ns obj rel neg st. backstop_out st (rec ns obj rel neg st)"
  shows "eval_contract e p t rec S (\<lambda>_. True) (\<lambda>_. True) (\<lambda>_. True) (\<lambda>_ _. backstop_out)"
proof
  fix st :: evalState and neg :: bool and call :: "bool result \<times> evalState" and k :: "evalState \<Rightarrow> bool result \<times> evalState"
  assume call: "backstop_out st call"
  show "backstop_out st (case call of (Inl err, st') \<Rightarrow> (Inl err, st') | (Inr r, st') \<Rightarrow> (Inr (\<not> r), st'))"
    by (rule backstop_bind [OF call]) simp
  assume k: "\<And>st1. True \<Longrightarrow> backstop_out st1 (k st1)"
  show "backstop_out st (case call of (Inl err, st') \<Rightarrow> (Inl err, st')
      | (Inr ok, st') \<Rightarrow> if ok then (Inr True, st') else k st')"
    by (rule backstop_bind [OF call]) (simp add: k)
  show "backstop_out st (case call of (Inl err, st') \<Rightarrow> (Inl err, st')
      | (Inr ok, st') \<Rightarrow> if \<not> ok then (Inr False, st') else k st')"
    by (rule backstop_bind [OF call]) (simp add: k)
next
  show "charge st = (Inr (), st') \<Longrightarrow> backstop_out st (Inl err, st')" for st st' err
    by (erule backstop_charged) (simp add: backstop_out_def split: option.splits)
qed (auto intro: assms backstop_charged backstop_budget)

lemma check_backstops: "backstop_out st (check e m p t q cc depth ns obj rel neg st)"
proof (induction "nat (maxDepth e + 1 - depth)" arbitrary: depth ns obj rel neg st rule: less_induct)
  case less
  let ?st = "st\<lparr>visited := insert (visitKey ns obj rel) (visited st)\<rparr>"
  show ?case
  proof (cases rule: check_cases [where ns = ns and obj = obj and rel = rel and st = st and e = e and depth = depth and neg = neg and p = p and t = t and q = q and cc = cc and m = m])
    case backstop
    then show ?thesis by (subst check.simps) (auto simp: Let_def backstop_fired)
  next
    case (memo r)
    then show ?thesis by (simp add: check_memo [OF memo])
  next
    case (eval res st1)
    have "eval_contract e p t (check e m p t q cc (depth + 1)) (\<lambda>_ _ _. None) (\<lambda>_. True) (\<lambda>_. True) (\<lambda>_. True)
        (\<lambda>_ _. backstop_out)"
      using eval(2) by (intro backstop_contract less.hyps) auto
    from eval_contract.rewrite [OF this, where rw = "rewrite_of m ns rel" and st = ?st and q = q and cc = cc
        and ns = ns and obj = obj and rel = rel and neg = neg]
    have "backstop_out ?st (res, st1)" by (simp add: eval(4))
    then show ?thesis
      by (cases res) (auto simp: check_eval [OF eval] backstop_out_def Let_def split: option.splits)
  qed
qed

interpretation backstop: eval_contract e p t q cc "check e m p t q cc depth" S
    "\<lambda>_. True" "\<lambda>_. True" "\<lambda>_. True" "\<lambda>_ _. backstop_out"
  for e m p t q cc depth S
  by (rule backstop_contract) (rule check_backstops)

subsection \<open>Properties of CheckWithModel\<close>

lemma newEvalState_simps [simp]:
  "visited (newEvalState b mx) = {}" "memo (newEvalState b mx) = Map.empty"
  "cyclesSeen (newEvalState b mx) = 0" "reads (newEvalState b mx) = 0"
  "maxReads (newEvalState b mx) = mx" "collector (newEvalState b mx) = b"
  by (simp_all add: newEvalState_def)

lemma CheckWithModel_check:
  "CheckWithModel e b m p t ns obj rel u cc mx = (res, b') \<longleftrightarrow>
    (\<exists>st. check e m p t \<lparr>q_user = u, q_set = None\<rparr> cc 0 ns obj rel False
      (newEvalState b (effectiveMaxReads e mx)) = (res, st) \<and> b' = collector st)"
  by (auto simp: CheckWithModel_def split: prod.splits)

lemma demo_keys: "keys_ok demo_engine demo_model p t"
proof -
  have "model_keys_ok demo_model" by code_simp
  moreover have "store_keys_ok demo_engine p t"
    by (auto simp: store_keys_ok_def demo_engine_def NewEngine_def demo_reader_def set_subject_def user_subject_def
        ns_ok_def rel_ok_def split: if_splits)
  ultimately show ?thesis by (simp add: keys_ok_def)
qed

lemma demo_names: "ns_ok ''doc''" "rel_ok ''viewer''"
  by (simp_all add: ns_ok_def rel_ok_def)

text \<open>C1. Fail closed: when a check grants access, the reference semantics grants it too. Cycles, the
  depth bound, memoised results and nested exclusions never turn a denial into a grant, for any
  model and store whose namespaces contain no \<^verbatim>\<open>:\<close> and whose relations contain no \<^verbatim>\<open>#\<close>, the separators of
  the visit key. The condition is needed: the service accepts such names, and with them a memoised
  result of one node can be taken for another's (see \<^verbatim>\<open>Authz_Findings\<close>).\<close>

theorem check_grants_sound:
  assumes "keys_ok e m p t" and "ns_ok ns" and "rel_ok rel"
    and "CheckWithModel e b m p t ns obj rel u cc mx = (Inr True, b')"
  shows "\<exists>n. sem e m p t \<lparr>q_user = u, q_set = None\<rparr> cc n ns obj rel = Some True"
proof -
  let ?q = "\<lparr>q_user = u, q_set = None\<rparr>" and ?st = "newEvalState b (effectiveMaxReads e mx)"
  have "sound_inv e m p t (denotation e m p t ?q cc) ?st" using assms(1) by (simp add: sound_inv_def)
  from check_sound [OF assms(2,3) this, of obj False 0] assms(4) show ?thesis
    by (auto simp: CheckWithModel_check sound_out_def denotation_Some denotes_def)
qed

theorem check_grants_sound_witness:
  "CheckWithModel demo_engine None demo_model ''p'' ''t'' ''doc'' ''d'' ''viewer'' ''ann'' [] 0 = (Inr True, None) \<and>
   (\<exists>n. sem demo_engine demo_model ''p'' ''t'' \<lparr>q_user = ''ann'', q_set = None\<rparr> [] n ''doc'' ''d'' ''viewer'' = Some True)"
proof -
  have run: "CheckWithModel demo_engine None demo_model ''p'' ''t'' ''doc'' ''d'' ''viewer'' ''ann'' [] 0 = (Inr True, None)"
    by code_simp
  from check_grants_sound [OF demo_keys demo_names run] run show ?thesis by simp
qed

text \<open>C2. Completeness up to the depth bound: when the reference semantics decides a query within
  as many stages as the engine has levels (\<^verbatim>\<open>maxDepth + 1\<close>), the check returns exactly that decision,
  grants and denials alike, whatever cycles the graph has elsewhere, or it fails for one of two reasons:
  a configured read budget was exceeded, or the store failed a read. Without a budget and with a store that
  answers, it therefore returns the decision. Namespaces must not contain \<^verbatim>\<open>:\<close> and
  relations must not contain \<^verbatim>\<open>#\<close>.\<close>

theorem check_complete:
  assumes "keys_ok e m p t" and "ns_ok ns" and "rel_ok rel"
    and "sem e m p t \<lparr>q_user = u, q_set = None\<rparr> cc n ns obj rel = Some d" and "int n \<le> maxDepth e + 1"
  shows "case fst (CheckWithModel e b m p t ns obj rel u cc mx) of
      Inr r \<Rightarrow> r = d
    | Inl err \<Rightarrow> err = ErrEvalBudgetExceeded \<and> effectiveMaxReads e mx > 0 \<or>
        (\<exists>ns obj rel. reader e p t ns obj rel = Inl err)"
proof -
  let ?q = "\<lparr>q_user = u, q_set = None\<rparr>" and ?st = "newEvalState b (effectiveMaxReads e mx)"
  let ?out = "check e m p t ?q cc 0 ns obj rel False ?st"
  have "stage_inv e m p t ?q cc n 0 ?st" using assms(1,5) by (simp add: stage_inv_def)
  from check_stage [OF assms(2,3) this, of obj False] assms(4)
  have "fst ?out = Inr r \<Longrightarrow> r = d" for r by (cases r; cases d) (auto simp: stage_out_def)
  moreover have "fst (CheckWithModel e b m p t ns obj rel u cc mx) = fst ?out"
    by (simp add: CheckWithModel_def split: prod.splits)
  ultimately show ?thesis
    using check_budget [of e p t ?st m ?q cc 0 ns obj rel False] by (auto simp: budget_out_def split: sum.splits)
qed

theorem check_complete_witness:
  "sem demo_engine demo_model ''p'' ''t'' \<lparr>q_user = ''bob'', q_set = None\<rparr> [] 3 ''doc'' ''d'' ''viewer'' = Some False \<and>
   fst (CheckWithModel demo_engine None demo_model ''p'' ''t'' ''doc'' ''d'' ''viewer'' ''bob'' [] 0) = Inr False"
proof -
  have sem: "sem demo_engine demo_model ''p'' ''t'' \<lparr>q_user = ''bob'', q_set = None\<rparr> [] 3 ''doc'' ''d'' ''viewer'' = Some False"
    by code_simp
  have "int 3 \<le> maxDepth demo_engine + 1" and "effectiveMaxReads demo_engine 0 \<le> 0" by code_simp+
  note bounds = this
  have total: "reader demo_engine ''p'' ''t'' ns obj rel \<noteq> Inl err" for ns obj rel err
    using demo_reader_total [of "''p''" "''t''" ns obj rel] by auto
  show ?thesis
  proof (cases "fst (CheckWithModel demo_engine None demo_model ''p'' ''t'' ''doc'' ''d'' ''viewer'' ''bob'' [] 0)")
    case (Inl err)
    with check_complete [OF demo_keys demo_names sem bounds(1), where b = None and mx = 0] total bounds(2) show ?thesis by simp
  next
    case (Inr r)
    with check_complete [OF demo_keys demo_names sem bounds(1), where b = None and mx = 0] sem show ?thesis by simp
  qed
qed

text \<open>C3. Clean answers are exact: if no depth or cycle backstop fired during a check (as the
  collector of the request shows), its answer, grant or denial, is the one of the reference
  semantics, for namespaces without \<^verbatim>\<open>:\<close> and relations without \<^verbatim>\<open>#\<close>.\<close>

theorem check_clean_exact:
  assumes "keys_ok e m p t" and "ns_ok ns" and "rel_ok rel"
    and "CheckWithModel e (Some WithBackstops) m p t ns obj rel u cc mx = (Inr d, Some b)"
    and "b_Depth b = 0" and "b_Cycle b = 0"
  shows "\<exists>n. sem e m p t \<lparr>q_user = u, q_set = None\<rparr> cc n ns obj rel = Some d"
proof -
  let ?q = "\<lparr>q_user = u, q_set = None\<rparr>" and ?st = "newEvalState (Some WithBackstops) (effectiveMaxReads e mx)"
  from assms(4) obtain st where st: "check e m p t ?q cc 0 ns obj rel False ?st = (Inr d, st)" "collector st = Some b"
    by (auto simp: CheckWithModel_check)
  have "sound_inv e m p t (denotation e m p t ?q cc) ?st" using assms(1) by (simp add: sound_inv_def)
  from check_sound [OF assms(2,3) this, of obj False 0]
    check_backstops [of ?st e m p t ?q cc 0 ns obj rel False] st assms(5,6)
  show ?thesis
    by (auto simp: sound_out_def denotation_Some denotes_def backstop_out_def WithBackstops_def)
qed

theorem check_clean_exact_witness:
  "CheckWithModel demo_engine (Some WithBackstops) demo_model ''p'' ''t'' ''doc'' ''f'' ''viewer'' ''eve'' [] 0
     = (Inr False, Some WithBackstops) \<and>
   (\<exists>n. sem demo_engine demo_model ''p'' ''t'' \<lparr>q_user = ''eve'', q_set = None\<rparr> [] n ''doc'' ''f'' ''viewer'' = Some False)"
proof -
  have run: "CheckWithModel demo_engine (Some WithBackstops) demo_model ''p'' ''t'' ''doc'' ''f'' ''viewer'' ''eve'' [] 0
     = (Inr False, Some WithBackstops)"
    by code_simp
  from check_clean_exact [OF demo_keys demo_names run] run show ?thesis by (simp add: WithBackstops_def)
qed

text \<open>C4. The read budget holds: a check charges at most one read more than its budget, and no more
  than the budget when it returns an answer; it fails only because the budget is exhausted or
  because the store failed a read.\<close>

theorem check_read_budget:
  assumes "maxReads st > 0" and "reads st \<le> maxReads st"
    and "check e m p t q cc depth ns obj rel neg st = (res, st')"
  shows "case res of
      Inr r \<Rightarrow> reads st' \<le> maxReads st
    | Inl err \<Rightarrow> reads st' \<le> maxReads st + 1 \<and>
        (err = ErrEvalBudgetExceeded \<or> (\<exists>ns obj rel. reader e p t ns obj rel = Inl err))"
  using check_budget [of e p t st m q cc depth ns obj rel neg] assms
  by (auto simp: budget_out_def split: sum.splits)

theorem check_read_budget_witness:
  "fst (check demo_engine demo_model ''p'' ''t'' \<lparr>q_user = ''ann'', q_set = None\<rparr> [] 0 ''doc'' ''d'' ''viewer'' False
      (newEvalState None 2)) = Inl ErrEvalBudgetExceeded \<and>
   reads (snd (check demo_engine demo_model ''p'' ''t'' \<lparr>q_user = ''ann'', q_set = None\<rparr> [] 0 ''doc'' ''d'' ''viewer'' False
      (newEvalState None 2))) \<le> 3"
proof -
  let ?out = "check demo_engine demo_model ''p'' ''t'' \<lparr>q_user = ''ann'', q_set = None\<rparr> [] 0 ''doc'' ''d'' ''viewer'' False
      (newEvalState None 2)"
  have run: "fst ?out = Inl ErrEvalBudgetExceeded" by code_simp
  from check_read_budget [of "newEvalState None 2", OF _ _ prod.collapse [symmetric, of ?out]] run
  show ?thesis by simp
qed

text \<open>C5. For a model without exclusions, with namespaces without \<^verbatim>\<open>:\<close> and relations without \<^verbatim>\<open>#\<close>, a grant
  of the engine has a derivation from the stored tuples by the rules of \<^const>\<open>grants\<close>, and a check during which no backstop fired answers
  exactly whether such a derivation exists.\<close>

theorem check_positive_model:
  assumes "positive_model m" and "keys_ok e m p t" and "ns_ok ns" and "rel_ok rel"
    and "CheckWithModel e (Some WithBackstops) m p t ns obj rel u cc mx = (Inr d, Some b)"
  shows "(d \<longrightarrow> grants e m p t u cc ns obj rel) \<and>
    (b_Depth b = 0 \<and> b_Cycle b = 0 \<longrightarrow> d = grants e m p t u cc ns obj rel)"
proof -
  let ?q = "\<lparr>q_user = u, q_set = None\<rparr>" and ?st = "newEvalState (Some WithBackstops) (effectiveMaxReads e mx)"
  let ?D = "denotation e m p t ?q cc"
  from assms(5) obtain st where st: "check e m p t ?q cc 0 ns obj rel False ?st = (Inr d, st)" "collector st = Some b"
    by (auto simp: CheckWithModel_check)
  have "sound_inv e m p t ?D ?st" using assms(2) by (simp add: sound_inv_def)
  from check_sound [OF assms(3,4) this, of obj False 0]
    check_backstops [of ?st e m p t ?q cc 0 ns obj rel False] st
  have "d \<Longrightarrow> ?D ns obj rel = Some d" and "b_Depth b = 0 \<and> b_Cycle b = 0 \<Longrightarrow> ?D ns obj rel = Some d"
    by (auto simp: sound_out_def backstop_out_def WithBackstops_def)
  with grants_iff_denotes [OF assms(1)] show ?thesis
    by (cases d) (auto simp: denotation_Some dest: denotes_unique)
qed

theorem check_positive_model_witness:
  "CheckWithModel demo_engine (Some WithBackstops) DefaultModel ''p'' ''t'' ''doc'' ''f'' ''viewer'' ''bob'' [] 0
     = (Inr True, Some WithBackstops) \<and> grants demo_engine DefaultModel ''p'' ''t'' ''bob'' [] ''doc'' ''f'' ''viewer''"
proof -
  have run: "CheckWithModel demo_engine (Some WithBackstops) DefaultModel ''p'' ''t'' ''doc'' ''f'' ''viewer'' ''bob'' [] 0
     = (Inr True, Some WithBackstops)"
    by code_simp
  have pos: "positive_model DefaultModel" and "model_keys_ok DefaultModel" by code_simp+
  with demo_keys have "keys_ok demo_engine DefaultModel ''p'' ''t''" by (simp add: keys_ok_def)
  from check_positive_model [OF pos this demo_names run] run show ?thesis by simp
qed

end
