(* ===== verification/Authz_Expand.thy ===== *)
theory Authz_Expand
  imports Authz_Check
begin

section \<open>Expand (pkg/authz/expand.go)\<close>

text \<open>
  The userset tree of a relation. The node counter \<^verbatim>\<open>*count\<close> and the evaluation state are passed
  and returned. The \<^verbatim>\<open>visited\<close> map of \<^verbatim>\<open>expand\<close> holds exactly the relations being expanded: an
  entry is set on entry and deleted by a deferred call on every return, so it is an argument
  here, extended for the callees.
\<close>

datatype tree = Tree
  (tr_Expanded: subjectSet)
  (tr_Union: "tree list")
  (tr_Intersection: "tree list")
  (tr_Exclude: "(tree \<times> tree) option")
  (tr_Users: "string list")
  (tr_Sets: "subjectSet list")
  (tr_Wildcard: bool)

definition bare_tree :: "subjectSet \<Rightarrow> tree" where
  "bare_tree self = Tree self [] [] None [] [] False"

definition bump :: "int \<Rightarrow> int \<Rightarrow> int \<Rightarrow> unit result \<times> int" where
  "bump count mx n =
     (let count' = count + n in
      if mx > 0 \<and> count' > mx then (Inl ErrExpandTooLarge, count') else (Inr (), count'))"

type_synonym 'a expansion = "int \<Rightarrow> evalState \<Rightarrow> 'a result \<times> int \<times> evalState"
type_synonym expander = "string \<Rightarrow> string \<Rightarrow> string \<Rightarrow> tree expansion"

text \<open>The leaf of the directly stored subjects, in the order they are read.\<close>

fun leafLoop :: "subject list \<Rightarrow> tree \<Rightarrow> tree" where
  "leafLoop [] leaf = leaf"
| "leafLoop (s # ss) (Tree self u i x users sets w) =
     (if Wildcard s then leafLoop ss (Tree self u i x users sets True)
      else (case s_Set s of
              None \<Rightarrow> leafLoop ss (Tree self u i x (users @ [UserID s]) sets w)
            | Some sset \<Rightarrow> leafLoop ss (Tree self u i x users (sets @ [sset]) w)))"

fun expandTTULoop :: "expander \<Rightarrow> string \<Rightarrow> subject list \<Rightarrow> tree list expansion" where
  "expandTTULoop rec crel [] count st = (Inr [], count, st)"
| "expandTTULoop rec crel (s # ss) count st =
     (case s_Set s of
        None \<Rightarrow> expandTTULoop rec crel ss count st
      | Some sset \<Rightarrow>
          (case rec (ss_Namespace sset) (ss_ObjectID sset) crel count st of
             (Inl err, count', st') \<Rightarrow> (Inl err, count', st')
           | (Inr sub, count', st') \<Rightarrow>
               (case expandTTULoop rec crel ss count' st' of
                  (Inl err, count'', st'') \<Rightarrow> (Inl err, count'', st'')
                | (Inr subs, count'', st'') \<Rightarrow> (Inr (sub # subs), count'', st''))))"

definition expandThis ::
  "engine \<Rightarrow> string \<Rightarrow> string \<Rightarrow> int \<Rightarrow> string \<Rightarrow> string \<Rightarrow> string \<Rightarrow> subjectSet \<Rightarrow> tree expansion" where
  "expandThis e p t mx ns obj rel self count st =
     (case charge st of
        (Inl err, st') \<Rightarrow> (Inl err, count, recordBackstop BackstopBudget st')
      | (Inr _, st') \<Rightarrow>
          (case reader e p t ns obj rel of
             Inl err \<Rightarrow> (Inl err, count, st')
           | Inr subjects \<Rightarrow>
               (case bump count mx (int (length subjects)) of
                  (Inl err, count') \<Rightarrow> (Inl err, count', st')
                | (Inr _, count') \<Rightarrow> (Inr (leafLoop subjects (bare_tree self)), count', st'))))"

definition expandTTU ::
  "engine \<Rightarrow> string \<Rightarrow> string \<Rightarrow> expander \<Rightarrow> string \<Rightarrow> string \<Rightarrow> subjectSet \<Rightarrow> rewrite \<Rightarrow> tree expansion" where
  "expandTTU e p t rec ns obj self rw count st =
     (case charge st of
        (Inl err, st') \<Rightarrow> (Inl err, count, recordBackstop BackstopBudget st')
      | (Inr _, st') \<Rightarrow>
          (case reader e p t ns obj (rw_TuplesetRelation rw) of
             Inl err \<Rightarrow> (Inl err, count, st')
           | Inr subjects \<Rightarrow>
               (case expandTTULoop rec (rw_ComputedRelation rw) subjects count st' of
                  (Inl err, count', st'') \<Rightarrow> (Inl err, count', st'')
                | (Inr subs, count', st'') \<Rightarrow> (Inr (Tree self subs [] None [] [] False), count', st''))))"

function expandRewrite ::
    "engine \<Rightarrow> string \<Rightarrow> string \<Rightarrow> int \<Rightarrow> expander \<Rightarrow> string \<Rightarrow> string \<Rightarrow> string \<Rightarrow> subjectSet \<Rightarrow> rewrite \<Rightarrow> tree expansion"
  and expandChildren ::
    "engine \<Rightarrow> string \<Rightarrow> string \<Rightarrow> int \<Rightarrow> expander \<Rightarrow> string \<Rightarrow> string \<Rightarrow> string \<Rightarrow> subjectSet \<Rightarrow> rewrite list \<Rightarrow> tree list expansion"
where
  "expandRewrite e p t mx rec ns obj rel self (Rewrite u i x c ts cr) count0 st =
     (case bump count0 mx 1 of
        (Inl err, count) \<Rightarrow> (Inl err, count, st)
      | (Inr _, count) \<Rightarrow>
          if isThis (Rewrite u i x c ts cr) then expandThis e p t mx ns obj rel self count st
          else if length u > 0 then
            (case expandChildren e p t mx rec ns obj rel self u count st of
               (Inl err, count', st') \<Rightarrow> (Inl err, count', st')
             | (Inr subs, count', st') \<Rightarrow> (Inr (Tree self subs [] None [] [] False), count', st'))
          else if length i > 0 then
            (case expandChildren e p t mx rec ns obj rel self i count st of
               (Inl err, count', st') \<Rightarrow> (Inl err, count', st')
             | (Inr subs, count', st') \<Rightarrow> (Inr (Tree self [] subs None [] [] False), count', st'))
          else (case x of
                  Some (inc, exc) \<Rightarrow>
                    (case expandRewrite e p t mx rec ns obj rel self inc count st of
                       (Inl err, count', st') \<Rightarrow> (Inl err, count', st')
                     | (Inr it, count', st') \<Rightarrow>
                         (case expandRewrite e p t mx rec ns obj rel self exc count' st' of
                            (Inl err, count'', st'') \<Rightarrow> (Inl err, count'', st'')
                          | (Inr et, count'', st'') \<Rightarrow>
                              (Inr (Tree self [] [] (Some (it, et)) [] [] False), count'', st'')))
                | None \<Rightarrow>
                    if c \<noteq> [] then rec ns obj c count st
                    else if ts \<noteq> [] then expandTTU e p t rec ns obj self (Rewrite u i x c ts cr) count st
                    else (Inr (bare_tree self), count, st)))"
| "expandChildren e p t mx rec ns obj rel self [] count st = (Inr [], count, st)"
| "expandChildren e p t mx rec ns obj rel self (child # rest) count st =
     (case expandRewrite e p t mx rec ns obj rel self child count st of
        (Inl err, count', st') \<Rightarrow> (Inl err, count', st')
      | (Inr sub, count', st') \<Rightarrow>
          (case expandChildren e p t mx rec ns obj rel self rest count' st' of
             (Inl err, count'', st'') \<Rightarrow> (Inl err, count'', st'')
           | (Inr subs, count'', st'') \<Rightarrow> (Inr (sub # subs), count'', st'')))"
  by pat_completeness auto
termination
  by (relation "measure (\<lambda>x. case x of
          Inl (e, p, t, mx, rec, ns, obj, rel, self, rw, count, st) \<Rightarrow> size rw
        | Inr (e, p, t, mx, rec, ns, obj, rel, self, rws, count, st) \<Rightarrow> size_list size rws)") auto

function expand ::
  "engine \<Rightarrow> model \<Rightarrow> string \<Rightarrow> string \<Rightarrow> int \<Rightarrow> int \<Rightarrow> string set \<Rightarrow> expander" where
  "expand e m p t mx depth visiting ns obj rel count st =
     (let self = \<lparr>ss_Namespace = ns, ss_ObjectID = obj, ss_Relation = rel\<rparr> in
      if depth > maxDepth e then (Inr (bare_tree self), count, recordBackstop BackstopDepth st)
      else (let key = visitKey ns obj rel in
        if key \<in> visiting then (Inr (bare_tree self), count, recordBackstop BackstopCycle st)
        else expandRewrite e p t mx
               (\<lambda>ns' obj' rel' count' st'. expand e m p t mx (depth + 1) (insert key visiting) ns' obj' rel' count' st')
               ns obj rel self (rewrite_of m ns rel) count st))"
  by pat_completeness auto
termination
  by (relation "measure (\<lambda>(e, m, p, t, mx, depth, visiting, ns, obj, rel, count, st). nat (maxDepth e + 1 - depth))")
     auto

declare expand.simps [simp del]

definition ExpandWithModel ::
  "engine \<Rightarrow> backstops option \<Rightarrow> model \<Rightarrow> string \<Rightarrow> string \<Rightarrow> string \<Rightarrow> string \<Rightarrow> string \<Rightarrow> int \<Rightarrow> int
    \<Rightarrow> tree result \<times> backstops option" where
  "ExpandWithModel e b m p t ns obj rel maxNodes mx =
     (case expand e m p t maxNodes 0 {} ns obj rel 0
             (newEvalState b (expandBudget e (effectiveMaxReads e mx) maxNodes)) of
        (res, count, st) \<Rightarrow> (res, collector st))"

definition Expand ::
  "engine \<Rightarrow> backstops option \<Rightarrow> string \<Rightarrow> string \<Rightarrow> string \<Rightarrow> string \<Rightarrow> string \<Rightarrow> int \<Rightarrow> tree result \<times> backstops option" where
  "Expand e b p t ns obj rel maxNodes =
     (case resolver e p of
        Inl err \<Rightarrow> (Inl err, b)
      | Inr m \<Rightarrow> ExpandWithModel e b m p t ns obj rel maxNodes 0)"

subsection \<open>The meaning and the size of a tree\<close>

text \<open>
  \<open>treeSem\<close> reads a tree as the code's comment on \<^verbatim>\<open>Tree\<close> does, with a valuation for the
  unexpanded sets of its leaves. \<open>weight\<close> counts the nodes and leaf subjects that are not bare
  leaves: a bare leaf is what a truncation leaves behind. \<open>clean\<close> says that no depth or cycle
  backstop was recorded between two states.
\<close>

definition clean :: "evalState \<Rightarrow> evalState \<Rightarrow> bool" where
  "clean st st' \<longleftrightarrow> (case (collector st, collector st') of
     (Some b, Some b') \<Rightarrow> b_Depth b' + b_Cycle b' = b_Depth b + b_Cycle b | _ \<Rightarrow> False)"

definition fired_le :: "evalState \<Rightarrow> evalState \<Rightarrow> bool" where
  "fired_le st st' \<longleftrightarrow> (case collector st of None \<Rightarrow> True | Some b \<Rightarrow>
     (case collector st' of None \<Rightarrow> False | Some b' \<Rightarrow> b_Depth b + b_Cycle b \<le> b_Depth b' + b_Cycle b'))"

fun treeSem :: "subjectQuery \<Rightarrow> valuation \<Rightarrow> tree \<Rightarrow> bool option" where
  "treeSem q S (Tree self u i x users sets w) =
     (if u \<noteq> [] then k_any (map (\<lambda>c. treeSem q S c) u)
      else if i \<noteq> [] then k_all (map (\<lambda>c. treeSem q S c) i)
      else (case x of
              Some (inc, exc) \<Rightarrow> k_all [treeSem q S inc, k_not (treeSem q S exc)]
            | None \<Rightarrow> k_any (Some w # map (\<lambda>v. Some (q_user q \<noteq> [] \<and> v = q_user q)) users @
                       map (\<lambda>s. S (ss_Namespace s) (ss_ObjectID s) (ss_Relation s)) sets)))"

fun weight :: "tree \<Rightarrow> int" where
  "weight (Tree self u i x users sets w) =
     (if u = [] \<and> i = [] \<and> x = None \<and> users = [] \<and> sets = [] \<and> \<not> w then 0
      else 1 + sum_list (map weight u) + sum_list (map weight i) +
           (case x of None \<Rightarrow> 0 | Some (inc, exc) \<Rightarrow> weight inc + weight exc) +
           int (length users) + int (length sets) + (if w then 1 else 0))"

definition unconditional :: "engine \<Rightarrow> string \<Rightarrow> string \<Rightarrow> params \<Rightarrow> bool" where
  "unconditional e p t cc \<longleftrightarrow> (\<forall>ns obj rel ss. reader e p t ns obj rel = Inr ss \<longrightarrow>
     (\<forall>s \<in> set ss. EvalCondition (s_Condition s) cc))"

definition expansion_out ::
  "int \<Rightarrow> ('a \<Rightarrow> int) \<Rightarrow> ('a \<Rightarrow> bool) \<Rightarrow> int \<Rightarrow> evalState \<Rightarrow> 'a result \<times> int \<times> evalState \<Rightarrow> bool" where
  "expansion_out mx wt good count st out \<longleftrightarrow>
     (case out of (res, count', st') \<Rightarrow> count \<le> count' \<and> fired_le st st' \<and>
       (case res of Inl err \<Rightarrow> True
        | Inr x \<Rightarrow> wt x \<le> count' - count \<and> (mx > 0 \<longrightarrow> count \<le> mx \<longrightarrow> count' \<le> mx) \<and>
            (clean st st' \<longrightarrow> good x)))"

definition plain :: "engine \<Rightarrow> string \<Rightarrow> string \<Rightarrow> subjectQuery \<Rightarrow> params \<Rightarrow> bool" where
  "plain e p t q cc \<longleftrightarrow> q_set q = None \<and> unconditional e p t cc"

subsection \<open>Composing expansions\<close>

lemma fired_refl [simp]: "fired_le st st"
  by (simp add: fired_le_def split: option.split)

lemma fired_trans: "fired_le st st1 \<Longrightarrow> fired_le st1 st2 \<Longrightarrow> fired_le st st2"
  by (auto simp: fired_le_def split: option.splits)

lemma clean_split:
  "fired_le st st1 \<Longrightarrow> fired_le st1 st2 \<Longrightarrow> clean st st2 \<Longrightarrow> clean st st1 \<and> clean st1 st2"
  by (auto simp: fired_le_def clean_def split: option.splits)

lemma clean_collector:
  "collector st1 = collector st \<Longrightarrow> fired_le st1 st2 = fired_le st st2"
  "collector st1 = collector st \<Longrightarrow> clean st1 st2 = clean st st2"
  "collector st2 = collector st \<Longrightarrow> fired_le st1 st2 = fired_le st1 st"
  "collector st2 = collector st \<Longrightarrow> clean st1 st2 = clean st1 st"
  by (simp_all add: fired_le_def clean_def split: option.splits)

lemma fired_recordBackstop [simp]: "fired_le st (recordBackstop b st)"
  by (cases b) (auto simp: fired_le_def recordBackstop_def split: option.split)

lemma not_clean_recordBackstop [simp]: "b \<noteq> BackstopBudget \<Longrightarrow> \<not> clean st (recordBackstop b st)"
  by (cases b) (auto simp: clean_def recordBackstop_def split: option.split)

lemma charge_collector: "charge st = (r, st') \<Longrightarrow> collector st' = collector st"
  by (auto simp: charge_def Let_def split: if_splits)

lemma expansion_bind:
  assumes a: "expansion_out mx wt good count st call"
    and b: "\<And>x count1 st1. expansion_out mx (wt' x) (good' x) count1 st1 (k x count1 st1)"
    and wt: "\<And>x y. wt'' y \<le> wt x + wt' x y" and good: "\<And>x y. good x \<Longrightarrow> good' x y \<Longrightarrow> good'' y"
  shows "expansion_out mx wt'' good'' count st (case call of
     (Inl err, count', st') \<Rightarrow> (Inl err, count', st') | (Inr x, count', st') \<Rightarrow> k x count' st')"
proof (cases call)
  case (fields res count1 st1)
  show ?thesis
  proof (cases res)
    case (Inl err)
    with a fields show ?thesis by (simp add: expansion_out_def)
  next
    case (Inr x)
    obtain res2 count2 st2 where k: "k x count1 st1 = (res2, count2, st2)" by (metis prod_cases3)
    with b [of x count1 st1] a fields Inr have le: "fired_le st st1" "fired_le st1 st2" "count \<le> count1" "count1 \<le> count2"
      by (auto simp: expansion_out_def)
    show ?thesis
    proof (cases res2)
      case Inl2: (Inl err)
      with le fields Inr k show ?thesis by (auto simp: expansion_out_def intro: fired_trans)
    next
      case Inr2: (Inr y)
      from b [of x count1 st1] a fields Inr k Inr2 wt [of y x] clean_split [OF le(1,2)] good [of x y] le
      show ?thesis by (auto simp: expansion_out_def intro: fired_trans)
    qed
  qed
qed

lemma expansion_return: "wt x \<le> 0 \<Longrightarrow> good x \<Longrightarrow> expansion_out mx wt good count st (Inr x, count, st)"
  by (simp add: expansion_out_def)

lemma k_any_Nil: "k_any [] = Some False"
  by (simp add: k_any_def)

lemma k_any_Cons_eq:
  "k_any (v # vs) = (if v = Some True \<or> k_any vs = Some True then Some True
     else if v = Some False then k_any vs else None)"
  by (auto simp: k_any_def)

lemma expansion_map:
  assumes "expansion_out mx wt good count st call" and "\<And>x. wt' (f x) \<le> wt x" and "\<And>x. good x \<Longrightarrow> good' (f x)"
  shows "expansion_out mx wt' good' count st (case call of
     (Inl err, count', st') \<Rightarrow> (Inl err, count', st') | (Inr x, count', st') \<Rightarrow> (Inr (f x), count', st'))"
proof (cases call)
  case (fields res count1 st1)
  show ?thesis
  proof (cases res)
    case (Inl err)
    with assms(1) fields show ?thesis by (simp add: expansion_out_def)
  next
    case (Inr x)
    with assms(1) assms(2) [of x] assms(3) [of x] fields show ?thesis by (simp add: expansion_out_def)
  qed
qed

lemma expansion_mono:
  assumes "expansion_out mx wt good count st out" and "\<And>x. wt' x \<le> wt x" and "\<And>x. good x \<Longrightarrow> good' x"
  shows "expansion_out mx wt' good' count st out"
proof -
  have "(case out of (Inl err, count', st') \<Rightarrow> (Inl err, count', st') | (Inr x, count', st') \<Rightarrow> (Inr x, count', st')) = out"
    by (simp split: prod.split sum.split)
  with expansion_map [where f = "\<lambda>x. x", OF assms] show ?thesis by simp
qed

lemma expansion_bump:
  assumes "0 \<le> n" and "\<And>count1. expansion_out mx (\<lambda>x. wt x - n) good count1 st (k count1)"
  shows "expansion_out mx wt good count st (case bump count mx n of
     (Inl err, count') \<Rightarrow> (Inl err, count', st) | (Inr _, count') \<Rightarrow> k count')"
proof (cases "mx > 0 \<and> count + n > mx")
  case True
  with assms(1) show ?thesis by (simp add: bump_def expansion_out_def)
next
  case False
  then have b: "bump count mx n = (Inr (), count + n)" by (auto simp: bump_def)
  obtain res count1 st1 where k: "k (count + n) = (res, count1, st1)" by (metis prod_cases3)
  from assms(1) assms(2) [of "count + n"] False show ?thesis
    unfolding b by (cases res) (auto simp: expansion_out_def k)
qed

lemma expansion_charge:
  assumes "\<And>st'. collector st' = collector st \<Longrightarrow> expansion_out mx wt good count st' (k st')"
  shows "expansion_out mx wt good count st (case charge st of
     (Inl err, st') \<Rightarrow> (Inl err, count, recordBackstop BackstopBudget st') | (Inr _, st') \<Rightarrow> k st')"
proof (cases "charge st")
  case (Pair r st')
  then have c: "collector st' = collector st" by (rule charge_collector)
  have "fired_le st (recordBackstop BackstopBudget st')"
    using fired_recordBackstop [of st'] c by (simp add: fired_le_def)
  moreover have "expansion_out mx wt good count st (k st')"
    using assms [OF c] unfolding expansion_out_def clean_collector(1,2) [OF c] .
  ultimately show ?thesis
    using Pair by (cases r) (simp_all add: expansion_out_def)
qed

lemma leafLoop_sem:
  assumes "q_set q = None" and "\<forall>s \<in> set ss. EvalCondition (s_Condition s) cc"
  shows "treeSem q S (leafLoop ss (Tree self [] [] None users sets w)) =
    k_any ((Some w # map (\<lambda>v. Some (q_user q \<noteq> [] \<and> v = q_user q)) users @
            map (\<lambda>s. S (ss_Namespace s) (ss_ObjectID s) (ss_Relation s)) sets) @ map (semSubject q cc S) ss)"
  using assms(2)
proof (induction ss arbitrary: users sets w)
  case (Cons s ss)
  then have c: "EvalCondition (s_Condition s) cc" by simp
  show ?case
  proof (cases "Wildcard s")
    case True
    with Cons c show ?thesis by (simp add: semSubject_def [of _ _ _ s]) (auto simp: k_any_def)
  next
    case False
    with Cons c assms(1) show ?thesis
      by (cases "s_Set s") (auto simp: semSubject_def [of _ _ _ s] intro!: k_any_cong_set)
  qed
qed simp

lemma leafLoop_weight:
  "weight (leafLoop ss (Tree self [] [] None users sets w)) \<le>
     1 + int (length users) + int (length sets) + (if w then 1 else 0) + int (length ss)"
proof (induction ss arbitrary: users sets w)
  case (Cons s ss)
  show ?case
    using Cons [of users sets True] Cons [of "users @ [UserID s]" sets w] Cons [of users "sets @ [the (s_Set s)]" w]
    by (cases "s_Set s") auto
qed simp

subsection \<open>Expanding a rewrite\<close>

locale expand_contract =
  fixes e :: engine and p t :: string and q :: subjectQuery and cc :: params and mx :: int
    and rec :: expander and S :: valuation
  assumes rec_out: "expansion_out mx weight (\<lambda>tr. plain e p t q cc \<longrightarrow> treeSem q S tr = S ns obj rel) count st
      (rec ns obj rel count st)"
begin

lemma ttuLoop_out:
  assumes "plain e p t q cc \<Longrightarrow> \<forall>s \<in> set ss. EvalCondition (s_Condition s) cc"
  shows "expansion_out mx (\<lambda>trs. sum_list (map weight trs))
    (\<lambda>trs. plain e p t q cc \<longrightarrow> k_any (map (treeSem q S) trs) = k_any (map (semPointer cc S crel) ss)) count st
    (expandTTULoop rec crel ss count st)"
  using assms
proof (induction ss arbitrary: count st)
  case Nil
  then show ?case by (simp add: expansion_return)
next
  case (Cons s ss)
  then have IH: "expansion_out mx (\<lambda>trs. sum_list (map weight trs))
    (\<lambda>trs. plain e p t q cc \<longrightarrow> k_any (map (treeSem q S) trs) = k_any (map (semPointer cc S crel) ss)) count st
    (expandTTULoop rec crel ss count st)" for count st by simp
  show ?case
  proof (cases "s_Set s")
    case None
    with Cons.prems have "plain e p t q cc \<Longrightarrow> semPointer cc S crel s = Some False" by (simp add: semPointer_def)
    with None IH [of count st] show ?thesis
      by (auto elim!: expansion_mono)
  next
    case (Some sset)
    let ?v = "S (ss_Namespace sset) (ss_ObjectID sset) crel"
    have "plain e p t q cc \<Longrightarrow> semPointer cc S crel s = ?v" using Cons.prems Some by (simp add: semPointer_def)
    then have sem: "k_any (map (semPointer cc S crel) (s # ss)) = k_any (treeSem q S sub # map (treeSem q S) ys)"
      if "plain e p t q cc" "treeSem q S sub = ?v"
        "k_any (map (treeSem q S) ys) = k_any (map (semPointer cc S crel) ss)" for sub ys
      using that by (simp only: list.map k_any_Cons_eq)
    have rest: "expansion_out mx (\<lambda>trs. sum_list (map weight trs) - weight sub)
        (\<lambda>trs. plain e p t q cc \<longrightarrow> (\<exists>ys. trs = sub # ys \<and> k_any (map (treeSem q S) ys) = k_any (map (semPointer cc S crel) ss)))
        count1 st1 (case expandTTULoop rec crel ss count1 st1 of
          (Inl err, count'', st'') \<Rightarrow> (Inl err, count'', st'') | (Inr subs, count'', st'') \<Rightarrow> (Inr (sub # subs), count'', st''))"
      for sub count1 st1
      by (rule expansion_map [OF IH]) auto
    have "expansion_out mx (\<lambda>trs. sum_list (map weight trs))
      (\<lambda>trs. plain e p t q cc \<longrightarrow> k_any (map (treeSem q S) trs) = k_any (map (semPointer cc S crel) (s # ss))) count st
      (case rec (ss_Namespace sset) (ss_ObjectID sset) crel count st of (Inl err, count', st') \<Rightarrow> (Inl err, count', st')
       | (Inr sub, count', st') \<Rightarrow> (case expandTTULoop rec crel ss count' st' of
          (Inl err, count'', st'') \<Rightarrow> (Inl err, count'', st'') | (Inr subs, count'', st'') \<Rightarrow> (Inr (sub # subs), count'', st'')))"
      by (rule expansion_bind [OF rec_out rest]) (auto simp: sem simp del: k_any_Some list.map(2) simp: list.map(2) [of "treeSem q S"])
    with Some show ?thesis by simp
  qed
qed

lemma this_out:
  "expansion_out mx (\<lambda>tr. weight tr - 1)
    (\<lambda>tr. plain e p t q cc \<longrightarrow> treeSem q S tr = (case reader e p t ns obj rel of Inl _ \<Rightarrow> None
        | Inr ss \<Rightarrow> k_any (map (semSubject q cc S) ss))) count st
    (expandThis e p t mx ns obj rel self count st)"
  unfolding expandThis_def
proof (rule expansion_charge)
  fix st' :: evalState
  show "expansion_out mx (\<lambda>tr. weight tr - 1) (\<lambda>tr. plain e p t q cc \<longrightarrow> treeSem q S tr =
      (case reader e p t ns obj rel of Inl _ \<Rightarrow> None | Inr ss \<Rightarrow> k_any (map (semSubject q cc S) ss))) count st'
    (case reader e p t ns obj rel of Inl err \<Rightarrow> (Inl err, count, st')
     | Inr subjects \<Rightarrow> (case bump count mx (int (length subjects)) of (Inl err, count') \<Rightarrow> (Inl err, count', st')
        | (Inr _, count') \<Rightarrow> (Inr (leafLoop subjects (bare_tree self)), count', st')))"
  proof (cases "reader e p t ns obj rel")
    case (Inl err)
    then show ?thesis by (simp add: expansion_out_def)
  next
    case (Inr ss)
    then have "plain e p t q cc \<Longrightarrow> treeSem q S (leafLoop ss (bare_tree self)) = k_any (map (semSubject q cc S) ss)"
      unfolding bare_tree_def by (subst leafLoop_sem) (auto simp: plain_def unconditional_def)
    moreover have "weight (leafLoop ss (bare_tree self)) \<le> 1 + int (length ss)"
      using leafLoop_weight [of ss self "[]" "[]" False] by (simp add: bare_tree_def)
    ultimately show ?thesis
      using Inr by (auto intro!: expansion_bump expansion_return)
  qed
qed

lemma ttu_out:
  "expansion_out mx (\<lambda>tr. weight tr - 1)
    (\<lambda>tr. plain e p t q cc \<longrightarrow> treeSem q S tr = (case reader e p t ns obj (rw_TuplesetRelation rw) of Inl _ \<Rightarrow> None
        | Inr ss \<Rightarrow> k_any (map (semPointer cc S (rw_ComputedRelation rw)) ss))) count st
    (expandTTU e p t rec ns obj self rw count st)"
  unfolding expandTTU_def
proof (rule expansion_charge)
  fix st' :: evalState
  show "expansion_out mx (\<lambda>tr. weight tr - 1) (\<lambda>tr. plain e p t q cc \<longrightarrow> treeSem q S tr =
      (case reader e p t ns obj (rw_TuplesetRelation rw) of Inl _ \<Rightarrow> None
        | Inr ss \<Rightarrow> k_any (map (semPointer cc S (rw_ComputedRelation rw)) ss))) count st'
    (case reader e p t ns obj (rw_TuplesetRelation rw) of Inl err \<Rightarrow> (Inl err, count, st')
     | Inr subjects \<Rightarrow> (case expandTTULoop rec (rw_ComputedRelation rw) subjects count st' of
          (Inl err, count', st'') \<Rightarrow> (Inl err, count', st'')
        | (Inr subs, count', st'') \<Rightarrow> (Inr (Tree self subs [] None [] [] False), count', st'')))"
  proof (cases "reader e p t ns obj (rw_TuplesetRelation rw)")
    case (Inl err)
    then show ?thesis by (simp add: expansion_out_def)
  next
    case (Inr ss)
    then have "expansion_out mx (\<lambda>trs. sum_list (map weight trs))
      (\<lambda>trs. plain e p t q cc \<longrightarrow> k_any (map (treeSem q S) trs) = k_any (map (semPointer cc S (rw_ComputedRelation rw)) ss))
      count st' (expandTTULoop rec (rw_ComputedRelation rw) ss count st')"
      by (intro ttuLoop_out) (auto simp: plain_def unconditional_def)
    then show ?thesis
      unfolding Inr sum.case by (rule expansion_map) (auto simp: k_any_Nil simp del: k_any_Some)
  qed
qed

lemma children_out:
  assumes "\<And>r count st. r \<in> set rws \<Longrightarrow> expansion_out mx weight (\<lambda>tr. plain e p t q cc \<longrightarrow> treeSem q S tr = f r) count st
      (expandRewrite e p t mx rec ns obj rel self r count st)"
  shows "expansion_out mx (\<lambda>trs. sum_list (map weight trs)) (\<lambda>trs. plain e p t q cc \<longrightarrow> map (treeSem q S) trs = map f rws) count st
      (expandChildren e p t mx rec ns obj rel self rws count st)"
  using assms
proof (induction rws arbitrary: count st)
  case Nil
  then show ?case by (simp add: expansion_return)
next
  case (Cons r rws)
  have rest: "expansion_out mx (\<lambda>trs. sum_list (map weight trs) - weight sub)
      (\<lambda>trs. plain e p t q cc \<longrightarrow> (\<exists>ys. trs = sub # ys \<and> map (treeSem q S) ys = map f rws))
      count1 st1 (case expandChildren e p t mx rec ns obj rel self rws count1 st1 of
        (Inl err, count'', st'') \<Rightarrow> (Inl err, count'', st'') | (Inr subs, count'', st'') \<Rightarrow> (Inr (sub # subs), count'', st''))"
    for sub count1 st1
    by (rule expansion_map [OF Cons.IH]) (auto simp: Cons.prems)
  have hd: "expansion_out mx weight (\<lambda>tr. plain e p t q cc \<longrightarrow> treeSem q S tr = f r) count st
      (expandRewrite e p t mx rec ns obj rel self r count st)" by (simp add: Cons.prems)
  show ?case unfolding expandChildren.simps
    by (rule expansion_bind [OF hd rest]) auto
qed

lemma union_out:
  assumes "\<And>r count st. r \<in> set rws \<Longrightarrow> expansion_out mx weight (\<lambda>tr. plain e p t q cc \<longrightarrow> treeSem q S tr = f r) count st
      (expandRewrite e p t mx rec ns obj rel self r count st)" and "rws \<noteq> []"
  shows "expansion_out mx (\<lambda>tr. weight tr - 1) (\<lambda>tr. plain e p t q cc \<longrightarrow> treeSem q S tr = k_any (map f rws)) count st
    (case expandChildren e p t mx rec ns obj rel self rws count st of
       (Inl err, count', st') \<Rightarrow> (Inl err, count', st')
     | (Inr subs, count', st') \<Rightarrow> (Inr (Tree self subs [] None [] [] False), count', st'))"
proof (rule expansion_map [OF children_out [OF assms(1)]])
  fix subs
  assume "plain e p t q cc \<longrightarrow> map (treeSem q S) subs = map f rws"
  with assms(2) show "plain e p t q cc \<longrightarrow> treeSem q S (Tree self subs [] None [] [] False) = k_any (map f rws)"
    by (auto simp del: k_any_Some)
qed simp_all

lemma intersection_out:
  assumes "\<And>r count st. r \<in> set rws \<Longrightarrow> expansion_out mx weight (\<lambda>tr. plain e p t q cc \<longrightarrow> treeSem q S tr = f r) count st
      (expandRewrite e p t mx rec ns obj rel self r count st)" and "rws \<noteq> []"
  shows "expansion_out mx (\<lambda>tr. weight tr - 1) (\<lambda>tr. plain e p t q cc \<longrightarrow> treeSem q S tr = k_all (map f rws)) count st
    (case expandChildren e p t mx rec ns obj rel self rws count st of
       (Inl err, count', st') \<Rightarrow> (Inl err, count', st')
     | (Inr subs, count', st') \<Rightarrow> (Inr (Tree self [] subs None [] [] False), count', st'))"
proof (rule expansion_map [OF children_out [OF assms(1)]])
  fix subs
  assume "plain e p t q cc \<longrightarrow> map (treeSem q S) subs = map f rws"
  with assms(2) show "plain e p t q cc \<longrightarrow> treeSem q S (Tree self [] subs None [] [] False) = k_all (map f rws)"
    by (auto simp del: k_all_Some)
qed simp_all

lemma exclusion_out:
  assumes inc: "\<And>count st. expansion_out mx weight (\<lambda>tr. plain e p t q cc \<longrightarrow> treeSem q S tr = v) count st
      (expandRewrite e p t mx rec ns obj rel self inc count st)"
    and exc: "\<And>count st. expansion_out mx weight (\<lambda>tr. plain e p t q cc \<longrightarrow> treeSem q S tr = v') count st
      (expandRewrite e p t mx rec ns obj rel self exc count st)"
  shows "expansion_out mx (\<lambda>tr. weight tr - 1) (\<lambda>tr. plain e p t q cc \<longrightarrow> treeSem q S tr = k_all [v, k_not v']) count st
    (case expandRewrite e p t mx rec ns obj rel self inc count st of
       (Inl err, count', st') \<Rightarrow> (Inl err, count', st')
     | (Inr it, count', st') \<Rightarrow>
         (case expandRewrite e p t mx rec ns obj rel self exc count' st' of
            (Inl err, count'', st'') \<Rightarrow> (Inl err, count'', st'')
          | (Inr et, count'', st'') \<Rightarrow> (Inr (Tree self [] [] (Some (it, et)) [] [] False), count'', st'')))"
proof -
  have rest: "expansion_out mx (\<lambda>tr. weight tr - 1 - weight it)
     (\<lambda>tr. plain e p t q cc \<longrightarrow> (\<exists>et. tr = Tree self [] [] (Some (it, et)) [] [] False \<and> treeSem q S et = v')) count1 st1
     (case expandRewrite e p t mx rec ns obj rel self exc count1 st1 of
        (Inl err, count'', st'') \<Rightarrow> (Inl err, count'', st'')
      | (Inr et, count'', st'') \<Rightarrow> (Inr (Tree self [] [] (Some (it, et)) [] [] False), count'', st''))" for it count1 st1
    by (rule expansion_map [OF exc]) auto
  show ?thesis
    by (rule expansion_bind [OF inc rest]) (auto simp del: k_all_Some)
qed

lemma rewrite_out:
  "expansion_out mx weight (\<lambda>tr. plain e p t q cc \<longrightarrow> treeSem q S tr = semRewrite e p t q cc S ns obj rel rw) count st
     (expandRewrite e p t mx rec ns obj rel self rw count st)"
proof (induction rw arbitrary: count st)
  case (Rewrite u i x c ts cr)
  let ?rw = "Rewrite u i x c ts cr"
  show ?case unfolding expandRewrite.simps
  proof (rule expansion_bump, simp, goal_cases)
    case (1 count1)
    show ?case
    proof (cases "isThis ?rw")
      case True
      then show ?thesis using this_out [where ns = ns and obj = obj and rel = rel and count = count1 and st = st and self = self] by simp
    next
      case False
      then show ?thesis
      proof (cases rule: not_isThis_cases)
        case Union
        with union_out [OF Rewrite.IH(1), of u] False show ?thesis by simp
      next
        case Inter
        with intersection_out [OF Rewrite.IH(2), of i] False show ?thesis
          by (auto elim!: expansion_mono simp: plain_def simp del: k_all_Some)
      next
        case (Excl inc exc)
        from exclusion_out [OF Rewrite.IH(3) [of "(inc, exc)" inc] Rewrite.IH(4) [of "(inc, exc)" exc], of count1 st] Excl False
        show ?thesis
          by (auto elim!: expansion_mono simp: plain_def simp del: k_all_Some)
      next
        case Comp
        with False show ?thesis by (auto intro!: expansion_mono [OF rec_out])
      next
        case TTU
        with False ttu_out [where ns = ns and obj = obj and rw = ?rw and count = count1 and st = st and self = self] show ?thesis by (simp cong: sum.case_cong)
      qed
    qed
  qed
qed

end

lemma expand_out:
  "expansion_out mx weight (\<lambda>tr. plain e p t q cc \<longrightarrow> treeSem q (denotation e m p t q cc) tr = denotation e m p t q cc ns obj rel)
     count st (expand e m p t mx depth visiting ns obj rel count st)"
proof (induction "nat (maxDepth e + 1 - depth)" arbitrary: depth visiting ns obj rel count st rule: less_induct)
  case less
  let ?D = "denotation e m p t q cc" and ?key = "visitKey ns obj rel"
  have bare: "b \<noteq> BackstopBudget \<Longrightarrow> expansion_out mx weight good count st (Inr (bare_tree self), count, recordBackstop b st)"
    for b good self
    by (simp add: expansion_out_def bare_tree_def)
  show ?case
  proof (cases "depth > maxDepth e \<or> ?key \<in> visiting")
    case True
    then show ?thesis by (subst expand.simps) (auto simp: Let_def bare)
  next
    case False
    have "expand_contract e p t q cc mx (expand e m p t mx (depth + 1) (insert ?key visiting)) ?D"
      using False by unfold_locales (rule less, auto)
    from expand_contract.rewrite_out [OF this, of ns obj rel "rewrite_of m ns rel" count st] False
    show ?thesis by (subst expand.simps) (simp add: Let_def denotation_fix)
  qed
qed

interpretation ex: expand_contract e p t q cc mx "expand e m p t mx depth visiting" "denotation e m p t q cc"
  for e m p t q cc mx depth visiting
  by unfold_locales (rule expand_out)

text \<open>C6. Expand is exact: if no condition filters a stored subject and no depth or cycle backstop
  fired, the tree means the relation it was expanded from: for every user it decides membership
  as the reference semantics does, the sets left at its leaves being read by that semantics.\<close>

theorem expand_exact:
  assumes "unconditional e p t cc"
    and "ExpandWithModel e (Some WithBackstops) m p t ns obj rel maxNodes mx = (Inr tr, Some b)"
    and "b_Depth b = 0" and "b_Cycle b = 0"
  shows "treeSem \<lparr>q_user = u, q_set = None\<rparr> (denotation e m p t \<lparr>q_user = u, q_set = None\<rparr> cc) tr =
    denotation e m p t \<lparr>q_user = u, q_set = None\<rparr> cc ns obj rel"
proof -
  let ?st = "newEvalState (Some WithBackstops) (expandBudget e (effectiveMaxReads e mx) maxNodes)"
  obtain count st where run: "expand e m p t maxNodes 0 {} ns obj rel 0 ?st = (Inr tr, count, st)" "collector st = Some b"
    using assms(2) by (auto simp: ExpandWithModel_def split: prod.splits)
  with expand_out [of maxNodes e p t "\<lparr>q_user = u, q_set = None\<rparr>" cc m ns obj rel 0 ?st 0 "{}"] assms(1,3,4)
  show ?thesis by (simp add: expansion_out_def plain_def clean_def WithBackstops_def)
qed

theorem expand_exact_witness:
  "\<exists>tr. ExpandWithModel demo_engine (Some WithBackstops) demo_model ''p'' ''t'' ''doc'' ''f'' ''viewer'' 100 0
      = (Inr tr, Some WithBackstops) \<and>
    treeSem \<lparr>q_user = ''ann'', q_set = None\<rparr> (denotation demo_engine demo_model ''p'' ''t'' \<lparr>q_user = ''ann'', q_set = None\<rparr> []) tr =
      denotation demo_engine demo_model ''p'' ''t'' \<lparr>q_user = ''ann'', q_set = None\<rparr> [] ''doc'' ''f'' ''viewer''"
proof -
  let ?self = "\<lparr>ss_Namespace = ''doc'', ss_ObjectID = ''f'', ss_Relation = ''viewer''\<rparr>"
  let ?tr = "Tree ?self [] [] (Some (
      Tree ?self [Tree ?self [] [] None [''ann'', ''bob''] [] False, bare_tree ?self] [] None [] [] False,
      bare_tree (\<lparr>ss_Namespace = ''doc'', ss_ObjectID = ''f'', ss_Relation = ''blocked''\<rparr>))) [] [] False"
  have run: "ExpandWithModel demo_engine (Some WithBackstops) demo_model ''p'' ''t'' ''doc'' ''f'' ''viewer'' 100 0
      = (Inr ?tr, Some WithBackstops)"
    by code_simp
  have "unconditional demo_engine ''p'' ''t'' []"
    by (auto simp: unconditional_def demo_engine_def NewEngine_def demo_reader_def set_subject_def user_subject_def
        EvalCondition_def split: if_splits)
  moreover have "b_Depth WithBackstops = 0" and "b_Cycle WithBackstops = 0" by (simp_all add: WithBackstops_def)
  ultimately show ?thesis using run expand_exact [OF _ run] by blast
qed

text \<open>C7. The node cap: an expansion that returns has at most \<^verbatim>\<open>maxNodes\<close> nodes and leaf subjects,
  bare leaves apart.\<close>

theorem expand_node_cap:
  assumes "maxNodes > 0" and "ExpandWithModel e b m p t ns obj rel maxNodes mx = (Inr tr, b')"
  shows "weight tr \<le> maxNodes"
proof -
  let ?st = "newEvalState b (expandBudget e (effectiveMaxReads e mx) maxNodes)"
  obtain count st where run: "expand e m p t maxNodes 0 {} ns obj rel 0 ?st = (Inr tr, count, st)"
    using assms(2) by (auto simp: ExpandWithModel_def split: prod.splits)
  with expand_out [of maxNodes e p t "\<lparr>q_user = [], q_set = None\<rparr>" "[]" m ns obj rel 0 ?st 0 "{}"] assms(1)
  show ?thesis by (simp add: expansion_out_def)
qed

theorem expand_node_cap_witness:
  "\<exists>tr b'. ExpandWithModel demo_engine None demo_model ''p'' ''t'' ''doc'' ''f'' ''viewer'' 8 0 = (Inr tr, b') \<and> weight tr \<le> 8"
proof -
  obtain tr b' where run: "ExpandWithModel demo_engine None demo_model ''p'' ''t'' ''doc'' ''f'' ''viewer'' 8 0 = (Inr tr, b')"
  proof -
    have "(case fst (ExpandWithModel demo_engine None demo_model ''p'' ''t'' ''doc'' ''f'' ''viewer'' 8 0) of Inl _ \<Rightarrow> False | Inr _ \<Rightarrow> True)"
      by code_simp
    then show thesis
      using that by (cases "ExpandWithModel demo_engine None demo_model ''p'' ''t'' ''doc'' ''f'' ''viewer'' 8 0") (auto split: sum.splits)
  qed
  from expand_node_cap [OF _ run] run show ?thesis by auto
qed

end
