(* ===== verification/Authz_CheckSet.thy ===== *)
theory Authz_CheckSet
  imports Authz_Expand "HOL-Library.List_Lexorder" "HOL-Library.Char_ord"
begin

section \<open>CheckSet (pkg/authz/checkset.go)\<close>

text \<open>
  Checks whose subject is a userset. A \<^verbatim>\<open>map[string]struct{}\<close> of users is a set of strings; where
  the code ranges over such a map the order is open, so it is an argument \<open>rng\<close> that lists the
  set. As in \<^verbatim>\<open>expand\<close>, the \<^verbatim>\<open>visited\<close> map of \<^verbatim>\<open>resolveMembers\<close> holds the sets being resolved
  (a deferred call deletes an entry on return), so it is an argument.
\<close>

type_synonym members = "string set \<times> bool"
type_synonym memberResolver = "subjectSet \<Rightarrow> members eval"

definition intersectUsers :: "string set \<Rightarrow> string set \<Rightarrow> string set" where
  "intersectUsers a b = (if card b < card a then Set.filter (\<lambda>u. u \<in> a) b else Set.filter (\<lambda>u. u \<in> b) a)"

fun membersSets :: "memberResolver \<Rightarrow> subjectSet list \<Rightarrow> string set \<Rightarrow> bool \<Rightarrow> members eval" where
  "membersSets rec [] out everyone st = (Inr (out, everyone), st)"
| "membersSets rec (s # ss) out everyone st =
     (case rec s st of
        (Inl err, st') \<Rightarrow> (Inl err, st')
      | (Inr (su, se), st') \<Rightarrow> membersSets rec ss (out \<union> su) (everyone \<or> se) st')"

function membersOfTree :: "memberResolver \<Rightarrow> tree \<Rightarrow> members eval"
  and membersUnion :: "memberResolver \<Rightarrow> tree list \<Rightarrow> string set \<Rightarrow> bool \<Rightarrow> members eval"
  and membersIntersection :: "memberResolver \<Rightarrow> tree list \<Rightarrow> string set option \<Rightarrow> members eval"
where
  "membersOfTree rec (Tree self u i x users sets w) st =
     (if length u > 0 then membersUnion rec u {} False st
      else if length i > 0 then membersIntersection rec i None st
      else (case x of
              Some (inc, exc) \<Rightarrow>
                (case membersOfTree rec inc st of
                   (Inl err, st1) \<Rightarrow> (Inl err, st1)
                 | (Inr (im, incEveryone), st1) \<Rightarrow>
                     (case membersOfTree rec exc st1 of
                        (Inl err, st2) \<Rightarrow> (Inl err, st2)
                      | (Inr (em, _), st2) \<Rightarrow> (Inr (Set.filter (\<lambda>u. u \<notin> em) im, incEveryone), st2)))
            | None \<Rightarrow> membersSets rec sets (set users) w st))"
| "membersUnion rec [] out everyone st = (Inr (out, everyone), st)"
| "membersUnion rec (c # cs) out everyone st =
     (case membersOfTree rec c st of
        (Inl err, st') \<Rightarrow> (Inl err, st')
      | (Inr (cu, ce), st') \<Rightarrow> membersUnion rec cs (out \<union> cu) (everyone \<or> ce) st')"
| "membersIntersection rec [] acc st =
     (case acc of None \<Rightarrow> (Inr ({}, True), st) | Some a \<Rightarrow> (Inr (a, False), st))"
| "membersIntersection rec (c # cs) acc st =
     (case membersOfTree rec c st of
        (Inl err, st') \<Rightarrow> (Inl err, st')
      | (Inr (cu, ce), st') \<Rightarrow>
          if ce then membersIntersection rec cs acc st'
          else (case acc of
                  None \<Rightarrow> membersIntersection rec cs (Some cu) st'
                | Some a \<Rightarrow> membersIntersection rec cs (Some (intersectUsers a cu)) st'))"
  by pat_completeness auto
termination
  by (relation "measure (\<lambda>x. case x of Inl (rec, t, st) \<Rightarrow> size t
        | Inr (Inl (rec, ts, out, ev, st)) \<Rightarrow> size_list size ts
        | Inr (Inr (rec, ts, acc, st)) \<Rightarrow> size_list size ts)") auto

function resolveMembers ::
  "engine \<Rightarrow> model \<Rightarrow> string \<Rightarrow> string \<Rightarrow> int \<Rightarrow> string set \<Rightarrow> memberResolver" where
  "resolveMembers e m p t depth visiting s st =
     (if depth > maxDepth e then (Inr ({}, False), recordBackstop BackstopDepth st)
      else (let key = visitKey (ss_Namespace s) (ss_ObjectID s) (ss_Relation s) in
        if key \<in> visiting then (Inr ({}, False), recordBackstop BackstopCycle st)
        else (case expand e m p t 0 depth {} (ss_Namespace s) (ss_ObjectID s) (ss_Relation s) 0 st of
                (Inl err, count, st1) \<Rightarrow> (Inl err, st1)
              | (Inr tree, count, st1) \<Rightarrow>
                  membersOfTree (\<lambda>s' st'. resolveMembers e m p t (depth + 1) (insert key visiting) s' st') tree st1)))"
  by pat_completeness auto
termination
  by (relation "measure (\<lambda>(e, m, p, t, depth, visiting, s, st). nat (maxDepth e + 1 - depth))") auto

declare resolveMembers.simps [simp del]

fun checkMembers ::
  "engine \<Rightarrow> model \<Rightarrow> string \<Rightarrow> string \<Rightarrow> string \<Rightarrow> string \<Rightarrow> string \<Rightarrow> params \<Rightarrow> string list \<Rightarrow> bool eval" where
  "checkMembers e m p t ns obj rel cc [] st = (Inr False, st)"
| "checkMembers e m p t ns obj rel cc (u # us) st =
     (case check e m p t \<lparr>q_user = u, q_set = None\<rparr> cc 0 ns obj rel False (st\<lparr>visited := {}, memo := Map.empty\<rparr>) of
        (Inl err, st') \<Rightarrow> (Inl err, st')
      | (Inr ok, st') \<Rightarrow> if ok then (Inr True, st') else checkMembers e m p t ns obj rel cc us st')"

text \<open>The state the three steps share, and then the entry points.\<close>

definition checkSetLocal ::
  "(string set \<Rightarrow> string list) \<Rightarrow> engine \<Rightarrow> model \<Rightarrow> string \<Rightarrow> string \<Rightarrow> string \<Rightarrow> string \<Rightarrow> string \<Rightarrow> subjectSet \<Rightarrow> params
    \<Rightarrow> bool eval" where
  "checkSetLocal rng e m p t ns obj rel sset cc st =
     (case check e m p t \<lparr>q_user = [], q_set = Some sset\<rparr> cc 0 ns obj rel False st of
        (Inl err, st1) \<Rightarrow> (Inl err, st1)
      | (Inr ok, st1) \<Rightarrow>
          if ok then (Inr True, st1)
          else (case resolveMembers e m p t 0 {} sset st1 of
            (Inl err, st2) \<Rightarrow> (Inl err, st2)
          | (Inr (mem, everyone), st2) \<Rightarrow>
              (case checkMembers e m p t ns obj rel cc (rng mem) st2 of
                 (Inl err, st3) \<Rightarrow> (Inl err, st3)
               | (Inr ok', st3) \<Rightarrow>
                   if ok' then (Inr True, st3)
                   else if everyone then
                     (case resolveMembers e m p t 0 {}
                             \<lparr>ss_Namespace = ns, ss_ObjectID = obj, ss_Relation = rel\<rparr> st3 of
                        (Inl err, st4) \<Rightarrow> (Inl err, st4)
                      | (Inr (tgt, tgtEveryone), st4) \<Rightarrow> (Inr (tgtEveryone \<or> tgt \<noteq> {}), st4))
                   else (Inr False, st3))))"

definition CheckSetWithModel ::
  "(string set \<Rightarrow> string list) \<Rightarrow> engine \<Rightarrow> backstops option \<Rightarrow> model \<Rightarrow> string \<Rightarrow> string \<Rightarrow> string \<Rightarrow> string \<Rightarrow> string
    \<Rightarrow> subjectSet \<Rightarrow> params \<Rightarrow> int \<Rightarrow> bool result \<times> backstops option" where
  "CheckSetWithModel rng e b m p t ns obj rel sset cc mx =
     (case checkSetLocal rng e m p t ns obj rel sset cc
             (newEvalState b (fanOutBudget e (effectiveMaxReads e mx) (maxListObjectsOrDefault e))) of
        (res, st) \<Rightarrow> (res, collector st))"

definition CheckSet ::
  "(string set \<Rightarrow> string list) \<Rightarrow> engine \<Rightarrow> backstops option \<Rightarrow> string \<Rightarrow> string \<Rightarrow> string \<Rightarrow> string \<Rightarrow> string
    \<Rightarrow> subjectSet \<Rightarrow> params \<Rightarrow> bool result \<times> backstops option" where
  "CheckSet rng e b p t ns obj rel sset cc =
     (case resolver e p of
        Inl err \<Rightarrow> (Inl err, b)
      | Inr m \<Rightarrow> CheckSetWithModel rng e b m p t ns obj rel sset cc 0)"

text \<open>An order of visiting: any enumeration of the set.\<close>

definition range_order :: "(string set \<Rightarrow> string list) \<Rightarrow> bool" where
  "range_order rng \<longleftrightarrow> (\<forall>A. finite A \<longrightarrow> distinct (rng A) \<and> set (rng A) = A)"

subsection \<open>Trees of positive models\<close>

fun tree_ok :: "tree \<Rightarrow> bool" where
  "tree_ok (Tree self u i x users sets w) \<longleftrightarrow>
     list_all tree_ok u \<and> list_all tree_ok i \<and> x = None \<and> [] \<notin> set users"

definition named_store :: "engine \<Rightarrow> string \<Rightarrow> string \<Rightarrow> bool" where
  "named_store e p t \<longleftrightarrow> (\<forall>ns obj rel ss s. reader e p t ns obj rel = Inr ss \<longrightarrow> s \<in> set ss \<longrightarrow>
     s_Set s = None \<longrightarrow> \<not> Wildcard s \<longrightarrow> UserID s \<noteq> [])"

definition result_ok :: "('a \<Rightarrow> bool) \<Rightarrow> 'a result \<times> 'b \<Rightarrow> bool" where
  "result_ok P out \<longleftrightarrow> (case fst out of Inl _ \<Rightarrow> True | Inr x \<Rightarrow> P x)"

lemma result_ok_simps [simp]: "result_ok P (Inl err, c)" "result_ok P (Inr x, c) \<longleftrightarrow> P x"
  by (simp_all add: result_ok_def)

lemma result_ok_bind:
  assumes "result_ok P call" and "\<And>x c st. P x \<Longrightarrow> result_ok Q (k x c st)"
  shows "result_ok Q (case call of (Inl err, c, st) \<Rightarrow> (Inl err, c, st) | (Inr x, c, st) \<Rightarrow> k x c st)"
  using assms by (cases call; cases "fst call") auto

lemma leafLoop_ok:
  "\<forall>s \<in> set ss. s_Set s = None \<longrightarrow> \<not> Wildcard s \<longrightarrow> UserID s \<noteq> [] \<Longrightarrow> [] \<notin> set users \<Longrightarrow>
     tree_ok (leafLoop ss (Tree self [] [] None users sets w))"
  by (induction ss arbitrary: users sets w) (auto split: option.splits)

lemma ttuLoop_ok:
  assumes "\<And>ns obj rel count st. result_ok tree_ok (rec ns obj rel count st)"
  shows "result_ok (list_all tree_ok) (expandTTULoop rec crel ss count st)"
proof (induction ss arbitrary: count st)
  case (Cons s ss)
  show ?case
    by (cases "s_Set s") (auto intro!: Cons result_ok_bind [OF assms] result_ok_bind [OF Cons])
qed simp

lemma this_ok: "named_store e p t \<Longrightarrow> result_ok tree_ok (expandThis e p t mx ns obj rel self count st)"
  by (auto simp: expandThis_def bare_tree_def named_store_def intro!: leafLoop_ok split: prod.split sum.split)

lemma ttu_ok:
  assumes "\<And>ns obj rel count st. result_ok tree_ok (rec ns obj rel count st)"
  shows "result_ok tree_ok (expandTTU e p t rec ns obj self rw count st)"
proof -
  have "result_ok tree_ok (case expandTTULoop rec crel ss count st of (Inl err, count', st'') \<Rightarrow> (Inl err, count', st'')
      | (Inr subs, count', st'') \<Rightarrow> (Inr (Tree self subs [] None [] [] False), count', st''))" for crel ss count st
    by (rule result_ok_bind [OF ttuLoop_ok [OF assms]]) simp
  then show ?thesis
    unfolding expandTTU_def
    by (cases "charge st"; cases "fst (charge st)"; cases "reader e p t ns obj (rw_TuplesetRelation rw)") simp_all
qed

lemma children_ok:
  assumes "\<And>r count st. r \<in> set rws \<Longrightarrow> result_ok tree_ok (expandRewrite e p t mx rec ns obj rel self r count st)"
  shows "result_ok (list_all tree_ok) (expandChildren e p t mx rec ns obj rel self rws count st)"
  using assms
proof (induction rws arbitrary: count st)
  case (Cons r rws)
  have "result_ok tree_ok (expandRewrite e p t mx rec ns obj rel self r count st)" by (simp add: Cons.prems)
  moreover have "result_ok (list_all tree_ok) (expandChildren e p t mx rec ns obj rel self rws count st)" for count st
    by (intro Cons.IH) (simp add: Cons.prems)
  ultimately show ?case by (auto intro!: result_ok_bind)
qed simp

lemma rewrite_ok:
  assumes rec: "\<And>ns obj rel count st. result_ok tree_ok (rec ns obj rel count st)" and named: "named_store e p t"
  shows "exclusion_free rw \<Longrightarrow> result_ok tree_ok (expandRewrite e p t mx rec ns obj rel self rw count st)"
proof (induction rw arbitrary: count st)
  case (Rewrite u i x c ts cr)
  have ch: "result_ok (list_all tree_ok) (expandChildren e p t mx rec ns obj rel self rws count st)"
    if "set rws \<subseteq> set u \<or> set rws \<subseteq> set i" for rws count st
    using that Rewrite by (intro children_ok) (auto simp: list_all_iff)
  from Rewrite.prems show ?case
    by (auto simp: bump_def Let_def bare_tree_def intro: this_ok [OF named] ttu_ok [OF rec] rec
        intro!: result_ok_bind [OF ch])
qed

lemma expand_ok:
  assumes "positive_model m" and "named_store e p t"
  shows "result_ok tree_ok (expand e m p t mx depth visiting ns obj rel count st)"
proof (induction "nat (maxDepth e + 1 - depth)" arbitrary: depth visiting ns obj rel count st rule: less_induct)
  case less
  show ?case
  proof (cases "depth > maxDepth e \<or> visitKey ns obj rel \<in> visiting")
    case True
    then show ?thesis by (subst expand.simps) (auto simp: Let_def bare_tree_def)
  next
    case False
    then show ?thesis
      by (subst expand.simps) (auto simp: Let_def intro!: rewrite_ok [OF _ assms(2)] positive_rewrite_of assms(1) less)
  qed
qed

subsection \<open>Members of a positive tree\<close>

definition members_out :: "(string set \<Rightarrow> bool \<Rightarrow> bool) \<Rightarrow> evalState \<Rightarrow> members result \<times> evalState \<Rightarrow> bool" where
  "members_out P st out \<longleftrightarrow> fired_le st (snd out) \<and>
     (case fst out of Inl _ \<Rightarrow> True | Inr (M, ev) \<Rightarrow> clean st (snd out) \<longrightarrow> P M ev)"

text \<open>A membership result answers the question \<open>G\<close> for every named user.\<close>

definition answers :: "(string \<Rightarrow> bool) \<Rightarrow> string set \<Rightarrow> bool \<Rightarrow> bool" where
  "answers G M ev \<longleftrightarrow> finite M \<and> [] \<notin> M \<and> (\<forall>u. u \<noteq> [] \<longrightarrow> (u \<in> M \<or> ev) = G u)"

lemma members_bind:
  assumes "members_out P st call" and "\<And>M ev st1. members_out (Q' M ev) st1 (k M ev st1)"
    and "\<And>M ev M' ev'. P M ev \<Longrightarrow> Q' M ev M' ev' \<Longrightarrow> Q M' ev'"
  shows "members_out Q st (case call of (Inl err, st') \<Rightarrow> (Inl err, st') | (Inr (M, ev), st') \<Rightarrow> k M ev st')"
proof (cases call)
  case (Pair res st1)
  show ?thesis
  proof (cases res)
    case (Inl err)
    with assms(1) Pair show ?thesis by (simp add: members_out_def)
  next
    case (Inr me)
    obtain M ev where me: "me = (M, ev)" by force
    obtain res2 st2 where k: "k M ev st1 = (res2, st2)" by force
    from assms(1) assms(2) [of M ev st1] Pair Inr me k
    have le: "fired_le st st1" "fired_le st1 st2" and P: "clean st st1 \<Longrightarrow> P M ev"
      and Q': "\<And>M' ev'. res2 = Inr (M', ev') \<Longrightarrow> clean st1 st2 \<Longrightarrow> Q' M ev M' ev'"
      by (auto simp: members_out_def)
    have "Q M' ev'" if "res2 = Inr (M', ev')" "clean st st2" for M' ev'
      using clean_split [OF le that(2)] P Q' [OF that(1)] assms(3) by blast
    with Pair Inr me k fired_trans [OF le] show ?thesis
      by (auto simp: members_out_def split: sum.split)
  qed
qed

lemma members_return: "P M ev \<Longrightarrow> members_out P st (Inr (M, ev), st)"
  by (simp add: members_out_def)

lemma members_after:
  assumes "fired_le st st1" and "members_out P st1 out" and "\<And>M ev. clean st st1 \<Longrightarrow> P M ev \<Longrightarrow> Q M ev"
  shows "members_out Q st out"
  using assms clean_split [OF assms(1), of "snd out"] fired_trans [OF assms(1), of "snd out"]
  by (auto simp: members_out_def split: sum.splits)

lemma members_mono: "members_out P st out \<Longrightarrow> (\<And>M ev. P M ev \<Longrightarrow> Q M ev) \<Longrightarrow> members_out Q st out"
  by (auto simp: members_out_def split: sum.splits)

definition acc_ok :: "(string \<Rightarrow> bool) \<Rightarrow> string set option \<Rightarrow> bool" where
  "acc_ok G acc \<longleftrightarrow> (case acc of None \<Rightarrow> \<forall>u. u \<noteq> [] \<longrightarrow> G u | Some a \<Rightarrow> answers G a False)"

lemma intersectUsers_Int [simp]: "intersectUsers a b = a \<inter> b"
  by (auto simp: intersectUsers_def)

lemma k_any_map_True: "k_any (map f xs) = Some True \<longleftrightarrow> (\<exists>x \<in> set xs. f x = Some True)"
  by force

lemma answers_cong: "(\<And>u. u \<noteq> [] \<Longrightarrow> G u = G' u) \<Longrightarrow> answers G M ev = answers G' M ev"
  by (auto simp: answers_def)

text \<open>What the walk over a tree asks of the resolver it recurs into: under the condition \<open>safe\<close> on the
  store and the model, it answers membership in each set.\<close>

locale member_contract =
  fixes rec :: memberResolver and G :: "subjectSet \<Rightarrow> string \<Rightarrow> bool" and safe :: bool
  assumes rec_out: "safe \<Longrightarrow> members_out (answers (G s)) st (rec s st)"
begin

lemma sets_out:
  assumes safe
  shows "members_out (\<lambda>M ev. \<forall>G0. answers G0 out everyone \<longrightarrow> answers (\<lambda>u. G0 u \<or> (\<exists>s \<in> set ss. G s u)) M ev) st
     (membersSets rec ss out everyone st)"
proof (induction ss arbitrary: out everyone st)
  case Nil
  then show ?case by (simp add: members_return)
next
  case (Cons s ss)
  show ?case unfolding membersSets.simps
  proof (rule members_bind [OF rec_out [OF assms] Cons.IH], intro allI impI)
    fix M ev M' ev' G0
    assume a: "answers (G s) M ev" "answers G0 out everyone"
      and rest: "\<forall>G0. answers G0 (out \<union> M) (everyone \<or> ev) \<longrightarrow> answers (\<lambda>u. G0 u \<or> (\<exists>s \<in> set ss. G s u)) M' ev'"
    from a have "answers (\<lambda>u. G0 u \<or> G s u) (out \<union> M) (everyone \<or> ev)" by (auto simp: answers_def)
    from rest [rule_format, OF this] show "answers (\<lambda>u. G0 u \<or> (\<exists>s \<in> set (s # ss). G s u)) M' ev'"
      by (simp add: answers_def disj_assoc)
  qed
qed

lemma union_out:
  assumes "\<And>c st. c \<in> set cs \<Longrightarrow> members_out (answers (H c)) st (membersOfTree rec c st)"
  shows "members_out (\<lambda>M ev. \<forall>G0. answers G0 out everyone \<longrightarrow> answers (\<lambda>u. G0 u \<or> (\<exists>c \<in> set cs. H c u)) M ev) st
     (membersUnion rec cs out everyone st)"
  using assms
proof (induction cs arbitrary: out everyone st)
  case Nil
  then show ?case by (simp add: members_return)
next
  case (Cons c cs)
  have hd: "members_out (answers (H c)) st (membersOfTree rec c st)" by (simp add: Cons.prems)
  show ?case unfolding membersUnion.simps
  proof (rule members_bind [OF hd Cons.IH], goal_cases)
    case (1 M ev st1 c')
    then show ?case by (simp add: Cons.prems)
  next
    case (2 M ev M' ev')
    have "answers (\<lambda>u. G0 u \<or> H c u) (out \<union> M) (everyone \<or> ev)" if "answers G0 out everyone" for G0
      using that 2(1) by (auto simp: answers_def)
    with 2(2) show ?case by (fastforce simp: disj_assoc)
  qed
qed

lemma intersection_out:
  assumes "\<And>c st. c \<in> set cs \<Longrightarrow> members_out (answers (H c)) st (membersOfTree rec c st)"
  shows "members_out (\<lambda>M ev. \<forall>G0. acc_ok G0 acc \<longrightarrow> answers (\<lambda>u. G0 u \<and> (\<forall>c \<in> set cs. H c u)) M ev) st
     (membersIntersection rec cs acc st)"
  using assms
proof (induction cs arbitrary: acc st)
  case Nil
  then show ?case by (auto simp: acc_ok_def answers_def intro!: members_return split: option.split)
next
  case (Cons c cs)
  let ?k = "\<lambda>M ev st1. if ev then membersIntersection rec cs acc st1
      else (case acc of None \<Rightarrow> membersIntersection rec cs (Some M) st1
        | Some a \<Rightarrow> membersIntersection rec cs (Some (intersectUsers a M)) st1)"
  let ?acc = "\<lambda>M ev. if ev then acc else (case acc of None \<Rightarrow> Some M | Some a \<Rightarrow> Some (intersectUsers a M))"
  have hd: "members_out (answers (H c)) st (membersOfTree rec c st)" by (simp add: Cons.prems)
  have k: "members_out (\<lambda>M' ev'. \<forall>G0. acc_ok G0 (?acc M ev) \<longrightarrow> answers (\<lambda>u. G0 u \<and> (\<forall>c \<in> set cs. H c u)) M' ev')
      st1 (?k M ev st1)" for M ev st1
    using Cons.IH [of "?acc M ev" st1] Cons.prems by (cases ev; cases acc) simp_all
  show ?case unfolding membersIntersection.simps
  proof (rule members_bind [OF hd k])
    fix M ev M' ev'
    assume M: "answers (H c) M ev"
      and rest: "\<forall>G0. acc_ok G0 (?acc M ev) \<longrightarrow> answers (\<lambda>u. G0 u \<and> (\<forall>c \<in> set cs. H c u)) M' ev'"
    have "acc_ok (\<lambda>u. G0 u \<and> H c u) (?acc M ev)" if "acc_ok G0 acc" for G0
      using that M by (cases acc) (auto simp: acc_ok_def answers_def)
    with rest show "\<forall>G0. acc_ok G0 acc \<longrightarrow> answers (\<lambda>u. G0 u \<and> (\<forall>c \<in> set (c # cs). H c u)) M' ev'"
      by (fastforce simp: conj_assoc)
  qed
qed

lemma tree_out:
  assumes safe and sem: "\<And>u s. u \<noteq> [] \<Longrightarrow> (S u (ss_Namespace s) (ss_ObjectID s) (ss_Relation s) = Some True) = G s u"
  shows "tree_ok tr \<Longrightarrow>
    members_out (answers (\<lambda>u. treeSem \<lparr>q_user = u, q_set = None\<rparr> (S u) tr = Some True)) st (membersOfTree rec tr st)"
proof (induction tr arbitrary: st)
  case (Tree self us ins x users sets w)
  let ?H = "\<lambda>c u. treeSem \<lparr>q_user = u, q_set = None\<rparr> (S u) c = Some True"
  have empty: "answers (\<lambda>_. False) {} False" and all: "acc_ok (\<lambda>_. True) None" by (simp_all add: answers_def acc_ok_def)
  consider (U) "us \<noteq> []" | (I) "us = []" "ins \<noteq> []" | (L) "us = []" "ins = []" by blast
  then show ?case
  proof cases
    case U
    have "members_out (\<lambda>M ev. \<forall>G0. answers G0 {} False \<longrightarrow> answers (\<lambda>u. G0 u \<or> (\<exists>c \<in> set us. ?H c u)) M ev) st
        (membersUnion rec us {} False st)"
      using Tree by (intro union_out) (auto simp: list_all_iff)
    then have "members_out (answers (\<lambda>u. \<exists>c \<in> set us. ?H c u)) st (membersUnion rec us {} False st)"
      by (rule members_mono) (use empty in fastforce)
    with U show ?thesis by (simp add: k_any_map_True del: k_any_Some)
  next
    case I
    have "members_out (\<lambda>M ev. \<forall>G0. acc_ok G0 None \<longrightarrow> answers (\<lambda>u. G0 u \<and> (\<forall>c \<in> set ins. ?H c u)) M ev) st
        (membersIntersection rec ins None st)"
      using Tree by (intro intersection_out) (auto simp: list_all_iff)
    then have "members_out (answers (\<lambda>u. \<forall>c \<in> set ins. ?H c u)) st (membersIntersection rec ins None st)"
      by (rule members_mono) (use all in fastforce)
    with I show ?thesis by simp
  next
    case L
    have leaf: "answers (\<lambda>u. u \<in> set users \<or> w) (set users) w" using Tree.prems by (simp add: answers_def)
    have eq: "?H (Tree self us ins x users sets w) u \<longleftrightarrow> (u \<in> set users \<or> w) \<or> (\<exists>s \<in> set sets. G s u)" if "u \<noteq> []" for u
    proof -
      have "?H (Tree self us ins x users sets w) u \<longleftrightarrow> w \<or> u \<in> set users \<or>
          (\<exists>s \<in> set sets. S u (ss_Namespace s) (ss_ObjectID s) (ss_Relation s) = Some True)"
        using L Tree.prems that by (auto simp: image_iff) metis
      with sem [OF that] show ?thesis by auto
    qed
    from sets_out [OF assms(1), of "set users" w sets st]
    have "members_out (answers (\<lambda>u. (u \<in> set users \<or> w) \<or> (\<exists>s \<in> set sets. G s u))) st (membersSets rec sets (set users) w st)"
      by (rule members_mono) (use leaf in blast)
    moreover have "answers (?H (Tree self us ins x users sets w)) M ev =
        answers (\<lambda>u. (u \<in> set users \<or> w) \<or> (\<exists>s \<in> set sets. G s u)) M ev" for M ev
      by (rule answers_cong) (rule eq)
    ultimately have "members_out (answers (?H (Tree self us ins x users sets w))) st (membersSets rec sets (set users) w st)"
      by (simp only: members_out_def)
    with L Tree.prems show ?thesis by simp
  qed
qed

end

subsection \<open>Resolving the members of a userset\<close>

abbreviation user_query :: "string \<Rightarrow> subjectQuery" where
  "user_query u \<equiv> \<lparr>q_user = u, q_set = None\<rparr>"

lemma resolveMembers_out:
  assumes "positive_model m" and "named_store e p t" and "unconditional e p t cc"
  shows "members_out (answers (\<lambda>u. denotation e m p t (user_query u) cc (ss_Namespace s) (ss_ObjectID s) (ss_Relation s) = Some True))
    st (resolveMembers e m p t depth visiting s st)"
proof (induction "nat (maxDepth e + 1 - depth)" arbitrary: depth visiting s st rule: less_induct)
  case less
  let ?G = "\<lambda>s u. denotation e m p t (user_query u) cc (ss_Namespace s) (ss_ObjectID s) (ss_Relation s) = Some True"
  let ?key = "visitKey (ss_Namespace s) (ss_ObjectID s) (ss_Relation s)"
  have stop: "b \<noteq> BackstopBudget \<Longrightarrow> members_out P st (Inr ({}, False), recordBackstop b st)" for b P
    by (simp add: members_out_def)
  show ?case
  proof (cases "depth > maxDepth e \<or> ?key \<in> visiting")
    case True
    then show ?thesis by (subst resolveMembers.simps) (auto simp: Let_def stop)
  next
    case False
    let ?rec = "resolveMembers e m p t (depth + 1) (insert ?key visiting)"
    obtain res count st1 where ex: "expand e m p t 0 depth {} (ss_Namespace s) (ss_ObjectID s) (ss_Relation s) 0 st = (res, count, st1)"
      by (metis prod_cases3)
    have fired: "fired_le st st1" and sem: "\<And>u tr. res = Inr tr \<Longrightarrow> clean st st1 \<Longrightarrow>
        treeSem (user_query u) (denotation e m p t (user_query u) cc) tr =
          denotation e m p t (user_query u) cc (ss_Namespace s) (ss_ObjectID s) (ss_Relation s)"
      using expand_out [of 0 e p t "user_query _" cc m "ss_Namespace s" "ss_ObjectID s" "ss_Relation s" 0 st depth "{}"] assms(3) ex
      by (auto simp: expansion_out_def plain_def)
    have ok: "res = Inr tr \<Longrightarrow> tree_ok tr" for tr
      using expand_ok [OF assms(1,2), of 0 depth "{}" "ss_Namespace s" "ss_ObjectID s" "ss_Relation s" 0 st] ex by simp
    have "member_contract ?rec ?G True"
      using False by unfold_locales (rule less, auto)
    note tree = member_contract.tree_out [OF this TrueI, where S = "\<lambda>u. denotation e m p t (user_query u) cc"]
    show ?thesis
    proof (cases res)
      case (Inl err)
      with ex fired False show ?thesis by (subst resolveMembers.simps) (simp add: Let_def members_out_def)
    next
      case (Inr tr)
      have "members_out (answers (?G s)) st (membersOfTree ?rec tr st1)"
        by (rule members_after [OF fired tree [OF _ ok [OF Inr]]]) (simp_all add: sem [OF Inr])
      with ex Inr False show ?thesis by (subst resolveMembers.simps) (simp add: Let_def)
    qed
  qed
qed

interpretation resolver: member_contract "resolveMembers e m p t depth visiting"
    "\<lambda>s u. denotation e m p t (user_query u) cc (ss_Namespace s) (ss_ObjectID s) (ss_Relation s) = Some True"
    "positive_model m \<and> named_store e p t \<and> unconditional e p t cc"
  for e m p t depth visiting cc
  by unfold_locales (blast intro: resolveMembers_out)

subsection \<open>CheckSet decides intersection\<close>

lemma check_fired: "fired_le st (snd (check e m p t q cc depth ns obj rel neg st))"
  using check_backstops [of st e m p t q cc depth ns obj rel neg]
  by (auto simp: backstop_out_def fired_le_def split: option.splits)

lemma check_clean:
  assumes "sound_inv e m p t (denotation e m p t q cc) st" and "ns_ok ns" "rel_ok rel"
    and "check e m p t q cc depth ns obj rel neg st = (Inr r, st')" and "clean st st'"
  shows "denotation e m p t q cc ns obj rel = Some r"
proof -
  from assms(4,5) check_backstops [of st e m p t q cc depth ns obj rel neg]
  have "cyclesSeen st' = cyclesSeen st" by (auto simp: backstop_out_def clean_def split: option.splits)
  with check_sound [OF assms(2,3,1), of obj neg depth] assms(4) show ?thesis by (simp add: sound_out_def)
qed

lemma sound_inv_fresh [simp]: "sound_inv e m p t D (st\<lparr>visited := {}, memo := Map.empty\<rparr>) \<longleftrightarrow> keys_ok e m p t"
  by (simp add: sound_inv_def memo_ok_def)

lemma checkMembers_out:
  assumes "keys_ok e m p t" and "ns_ok ns" "rel_ok rel"
  shows "fired_le st (snd (checkMembers e m p t ns obj rel cc us st)) \<and>
    (\<forall>r. fst (checkMembers e m p t ns obj rel cc us st) = Inr r \<longrightarrow> clean st (snd (checkMembers e m p t ns obj rel cc us st)) \<longrightarrow>
      r = (\<exists>u \<in> set us. denotation e m p t (user_query u) cc ns obj rel = Some True))"
proof (induction us arbitrary: st)
  case (Cons u us)
  let ?st = "st\<lparr>visited := {}, memo := Map.empty\<rparr>"
  obtain res st1 where run: "check e m p t (user_query u) cc 0 ns obj rel False ?st = (res, st1)" by force
  have st: "fired_le ?st st' = fired_le st st'" "clean ?st st' = clean st st'" for st'
    by (rule clean_collector; simp)+
  have f1: "fired_le st st1" using check_fired [of ?st e m p t "user_query u" cc 0 ns obj rel False] run st by simp
  have c1: "res = Inr r \<Longrightarrow> clean st st1 \<Longrightarrow> denotation e m p t (user_query u) cc ns obj rel = Some r" for r
    using check_clean [of e m p t "user_query u" cc ?st ns rel 0 obj False] run st assms by simp
  let ?rest = "checkMembers e m p t ns obj rel cc us st1"
  from Cons.IH [of st1] have f2: "fired_le st1 (snd ?rest)" by simp
  note f = fired_trans [OF f1 f2] and c = clean_split [OF f1 f2]
  show ?case
  proof (cases res)
    case (Inl err)
    with run f1 show ?thesis by simp
  next
    case (Inr ok)
    with run f1 c1 f c Cons.IH [of st1] show ?thesis by (cases ok) auto
  qed
qed simp

lemma members_intersect:
  assumes "answers inset M ev" and "set us = M"
    and "found = (\<exists>u \<in> set us. target u)" and "\<not> found \<Longrightarrow> ev \<Longrightarrow> answers target T tev"
  shows "(\<exists>u. u \<noteq> [] \<and> inset u \<and> target u) \<longleftrightarrow> (if found then True else if ev then tev \<or> T \<noteq> {} else False)"
proof (cases "\<not> found \<and> ev")
  case True
  then have T: "answers target T tev" using assms(4) by blast
  have all: "u \<noteq> [] \<Longrightarrow> inset u" for u using assms(1) True by (auto simp: answers_def)
  show ?thesis
  proof
    assume "\<exists>u. u \<noteq> [] \<and> inset u \<and> target u"
    with T True show "if found then True else if ev then tev \<or> T \<noteq> {} else False" by (auto simp: answers_def)
  next
    assume "if found then True else if ev then tev \<or> T \<noteq> {} else False"
    with True consider "tev" | u where "u \<in> T" by auto
    then show "\<exists>u. u \<noteq> [] \<and> inset u \<and> target u"
    proof cases
      case 1
      with T have "target ''u''" by (auto simp: answers_def)
      with all [of "''u''"] show ?thesis by blast
    next
      case 2
      with T have "u \<noteq> []" "target u" unfolding answers_def by metis+
      with all show ?thesis by blast
    qed
  qed
next
  case False
  with assms(1-3) show ?thesis by (auto simp: answers_def) metis+
qed

lemma checkSetLocal_exact:
  assumes "positive_model m" "named_store e p t" "unconditional e p t cc" "keys_ok e m p t" "ns_ok ns" "rel_ok rel"
    and rng: "range_order rng" and new: "sound_inv e m p t (denotation e m p t \<lparr>q_user = [], q_set = Some sset\<rparr> cc) st"
    and run: "checkSetLocal rng e m p t ns obj rel sset cc st = (Inr d, st')" and clean: "clean st st'"
  shows "d \<longleftrightarrow> denotation e m p t \<lparr>q_user = [], q_set = Some sset\<rparr> cc ns obj rel = Some True \<or>
    (\<exists>u. u \<noteq> [] \<and>
       denotation e m p t (user_query u) cc (ss_Namespace sset) (ss_ObjectID sset) (ss_Relation sset) = Some True \<and>
       denotation e m p t (user_query u) cc ns obj rel = Some True)"
proof -
  let ?qs = "\<lparr>q_user = [], q_set = Some sset\<rparr>"
  let ?D = "\<lambda>u. denotation e m p t (user_query u) cc"
  let ?inset = "\<lambda>u. ?D u (ss_Namespace sset) (ss_ObjectID sset) (ss_Relation sset) = Some True"
  let ?target = "\<lambda>u. ?D u ns obj rel = Some True"
  obtain r1 st1 where r1: "check e m p t ?qs cc 0 ns obj rel False st = (r1, st1)" by force
  obtain r2 st2 where r2: "resolveMembers e m p t 0 {} sset st1 = (r2, st2)" by force
  have f1: "fired_le st st1" using check_fired [of st e m p t ?qs cc 0 ns obj rel False] r1 by simp
  have c1: "r1 = Inr ok \<Longrightarrow> clean st st1 \<Longrightarrow> denotation e m p t ?qs cc ns obj rel = Some ok" for ok
    using check_clean [OF new assms(5,6), of 0 obj False] r1 by simp
  note mem = resolveMembers_out [OF assms(1-3), of _ _ 0 "{}"]
  from mem [of sset st1] r2 have f2: "fired_le st1 st2"
    and c2: "r2 = Inr (M, ev) \<Longrightarrow> clean st1 st2 \<Longrightarrow> answers ?inset M ev" for M ev
    by (auto simp: members_out_def)
  show ?thesis
  proof (cases "r1 = Inr True")
    case True
    with run r1 have "d" "st' = st1" by (simp_all add: checkSetLocal_def)
    with c1 True clean show ?thesis by simp
  next
    case notStruct: False
    with run r1 have ok1: "r1 = Inr False" by (cases r1) (auto simp: checkSetLocal_def)
    with run r1 r2 obtain M ev where ok2: "r2 = Inr (M, ev)" by (cases r2) (auto simp: checkSetLocal_def)
    obtain r3 st3 where r3: "checkMembers e m p t ns obj rel cc (rng M) st2 = (r3, st3)" by force
    from checkMembers_out [OF assms(4-6), of st2 obj cc "rng M"] r3
    have f3: "fired_le st2 st3" and c3: "r3 = Inr r \<Longrightarrow> clean st2 st3 \<Longrightarrow> r = (\<exists>u \<in> set (rng M). ?target u)" for r
      by auto
    obtain r4 st4 where r4: "resolveMembers e m p t 0 {} \<lparr>ss_Namespace = ns, ss_ObjectID = obj, ss_Relation = rel\<rparr> st3 = (r4, st4)"
      by force
    from mem [of "\<lparr>ss_Namespace = ns, ss_ObjectID = obj, ss_Relation = rel\<rparr>" st3] r4 have f4: "fired_le st3 st4"
      and c4: "r4 = Inr (T, tev) \<Longrightarrow> clean st3 st4 \<Longrightarrow> answers ?target T tev" for T tev
      by (auto simp: members_out_def)
    from run r1 r2 r3 ok1 ok2 obtain found where ok3: "r3 = Inr found" by (cases r3) (auto simp: checkSetLocal_def)
    note cl = clean_split [OF f1 fired_trans [OF f2 f3]] clean_split [OF f2 f3]
      clean_split [OF f1 fired_trans [OF f2 fired_trans [OF f3 f4]]] clean_split [OF f2 fired_trans [OF f3 f4]] clean_split [OF f3 f4]
    define T tev where "T = (case r4 of Inr (T, _) \<Rightarrow> T | _ \<Rightarrow> {})" and "tev = (case r4 of Inr (_, tev) \<Rightarrow> tev | _ \<Rightarrow> False)"
    have tail: "(if found then (Inr True, st3) else if ev then (case r4 of Inl err \<Rightarrow> (Inl err, st4) | Inr _ \<Rightarrow> (Inr (tev \<or> T \<noteq> {}), st4))
        else (Inr False, st3)) = (Inr d, st')"
      using run r1 r2 r3 r4 ok1 ok2 ok3 by (auto simp: checkSetLocal_def T_def tev_def split: sum.splits prod.splits if_splits)
    then have d: "d = (if found then True else if ev then tev \<or> T \<noteq> {} else False)"
      and st': "st' = (if \<not> found \<and> ev then st4 else st3)"
      and r4': "\<not> found \<Longrightarrow> ev \<Longrightarrow> r4 = Inr (T, tev)"
      by (auto simp: T_def tev_def split: if_splits sum.splits prod.splits)
    with clean cl have cs: "clean st st1" "clean st1 st2" "clean st2 st3" and c34: "\<not> found \<Longrightarrow> ev \<Longrightarrow> clean st3 st4"
      by (auto split: if_splits)
    have M: "answers ?inset M ev" by (rule c2 [OF ok2 cs(2)])
    then have us: "set (rng M) = M" using rng by (simp add: range_order_def answers_def)
    have "(\<exists>u. u \<noteq> [] \<and> ?inset u \<and> ?target u) \<longleftrightarrow> d"
      unfolding d by (rule members_intersect [OF M us c3 [OF ok3 cs(3)]]) (rule c4 [OF r4' c34])
    with c1 [OF ok1 cs(1)] show ?thesis by simp
  qed
qed

text \<open>C8. CheckSet decides intersection: for a model without exclusions and a store whose grants are
  unconditional and name their users, with namespaces without \<^verbatim>\<open>:\<close> and relations without \<^verbatim>\<open>#\<close>, a CheckSet during which no depth or cycle backstop fired
  answers true exactly when the queried userset is structurally part of the relation, or some user
  belongs to both. It does so for every order in which the members are visited.\<close>

theorem checkSet_exact:
  assumes "positive_model m" and "keys_ok e m p t" and "named_store e p t" and "unconditional e p t cc"
    and "ns_ok ns" and "rel_ok rel" and "range_order rng"
    and "CheckSetWithModel rng e (Some WithBackstops) m p t ns obj rel sset cc mx = (Inr d, Some b)"
    and "b_Depth b = 0" and "b_Cycle b = 0"
  shows "d \<longleftrightarrow> denotes e m p t \<lparr>q_user = [], q_set = Some sset\<rparr> cc ns obj rel True \<or>
    (\<exists>u. u \<noteq> [] \<and> grants e m p t u cc (ss_Namespace sset) (ss_ObjectID sset) (ss_Relation sset) \<and>
         grants e m p t u cc ns obj rel)"
proof -
  let ?st = "newEvalState (Some WithBackstops) (fanOutBudget e (effectiveMaxReads e mx) (maxListObjectsOrDefault e))"
  obtain st' where run: "checkSetLocal rng e m p t ns obj rel sset cc ?st = (Inr d, st')" "collector st' = Some b"
    using assms(8) by (auto simp: CheckSetWithModel_def split: prod.splits)
  have "clean ?st st'" using run(2) assms(9,10) by (simp add: clean_def WithBackstops_def)
  moreover have "sound_inv e m p t D ?st" for D using assms(2) by (simp add: sound_inv_def)
  ultimately show ?thesis
    using checkSetLocal_exact [OF assms(1,3,4,2,5,6,7) _ run(1)]
    by (simp add: grants_iff_denotes [OF assms(1)] denotation_Some)
qed

lemma sorted_range_order: "range_order sorted_list_of_set"
  by (simp add: range_order_def)

theorem checkSet_exact_witness:
  "CheckSetWithModel sorted_list_of_set team_engine (Some WithBackstops) DefaultModel ''p'' ''t'' ''resource'' ''r'' ''viewer''
      \<lparr>ss_Namespace = ''group'', ss_ObjectID = ''eng'', ss_Relation = ''member''\<rparr> [] 0 = (Inr True, Some WithBackstops) \<and>
   (denotes team_engine DefaultModel ''p'' ''t''
      \<lparr>q_user = [], q_set = Some \<lparr>ss_Namespace = ''group'', ss_ObjectID = ''eng'', ss_Relation = ''member''\<rparr>\<rparr> [] ''resource'' ''r'' ''viewer'' True \<or>
    (\<exists>u. u \<noteq> [] \<and> grants team_engine DefaultModel ''p'' ''t'' u [] ''group'' ''eng'' ''member'' \<and>
         grants team_engine DefaultModel ''p'' ''t'' u [] ''resource'' ''r'' ''viewer''))"
proof -
  let ?set = "\<lparr>ss_Namespace = ''group'', ss_ObjectID = ''eng'', ss_Relation = ''member''\<rparr>"
  have run: "CheckSetWithModel sorted_list_of_set team_engine (Some WithBackstops) DefaultModel ''p'' ''t'' ''resource'' ''r'' ''viewer''
      ?set [] 0 = (Inr True, Some WithBackstops)"
    by code_simp
  have m: "positive_model DefaultModel" "model_keys_ok DefaultModel" by code_simp+
  have s: "store_keys_ok team_engine p t" "named_store team_engine p t" "unconditional team_engine p t []" for p t
    by (auto simp: store_keys_ok_def named_store_def unconditional_def team_engine_def NewEngine_def team_reader_def
        user_subject_def set_subject_def ns_ok_def rel_ok_def EvalCondition_def split: if_splits)
  have names: "ns_ok ''resource''" "rel_ok ''viewer''" by (simp_all add: ns_ok_def rel_ok_def)
  have "keys_ok team_engine DefaultModel p t" for p t using m s by (simp add: keys_ok_def)
  from checkSet_exact [OF m(1) this s(2,3) names sorted_range_order run] run
  show ?thesis by (simp add: WithBackstops_def)
qed

end
