(* ===== verification/Authz_Findings.thy ===== *)
theory Authz_Findings
  imports Authz_CheckSet
begin

section \<open>Behaviours of the engine that its comments do not describe\<close>

text \<open>
  Concrete stores on which the engine departs from its documentation. Each lemma evaluates the
  model of the code; the reference semantics or a second operation shows the disagreement.
\<close>





text \<open>Truncated leaves below a tuple-to-userset are not charged: the tree outgrows the node cap.\<close>

definition loop_model :: model where
  "loop_model = [(''doc'', [(''viewer'', tupleToUserset_rw ''parent'' ''viewer'')])]"

definition loop_reader :: tupleReader where
  "loop_reader p t ns obj rel = Inr
     (if rel = ''parent'' then map (\<lambda>r. set_subject ''doc'' ''x'' r) [''a'', ''b'', ''c'', ''d''] else [])"

definition loop_engine :: engine where
  "loop_engine = NewEngine (Some (StaticResolver loop_model)) loop_reader None"

lemma expand_cap_exceeded:
  "case fst (ExpandWithModel loop_engine None loop_model ''p'' ''t'' ''doc'' ''x'' ''viewer'' 1 0) of
     Inr tr \<Rightarrow> length (tr_Union tr) = 4 | Inl _ \<Rightarrow> False"
  by code_simp








text \<open>
  A tuple on a relation that \<^const>\<open>WritableRelation\<close> calls inert is consulted when the relation is
  the tupleset of another one.
\<close>

definition inert_model :: model where
  "inert_model = [(''doc'', [(''parent'', computed_rw ''owner''), (''viewer'', tupleToUserset_rw ''parent'' ''viewer'')])]"

definition inert_reader :: "bool \<Rightarrow> tupleReader" where
  "inert_reader stored p t ns obj rel = Inr
     (if ns = ''doc'' \<and> rel = ''parent'' \<and> stored then [set_subject ''folder'' ''f'' ''viewer'']
      else if ns = ''folder'' then [user_subject ''ann''] else [])"

definition inert_engine :: "bool \<Rightarrow> engine" where
  "inert_engine stored = NewEngine (Some (StaticResolver inert_model)) (inert_reader stored) None"

lemma inert_tuple_consulted:
  "\<not> WritableRelation inert_model ''doc'' ''parent'' \<and>
   fst (CheckWithModel (inert_engine False) None inert_model ''p'' ''t'' ''doc'' ''d'' ''viewer'' ''ann'' [] 0) = Inr False \<and>
   fst (CheckWithModel (inert_engine True) None inert_model ''p'' ''t'' ''doc'' ''d'' ''viewer'' ''ann'' [] 0) = Inr True"
  by code_simp

end
