(* ===== verification/Authz_Flat.thy ===== *)
theory Authz_Flat
  imports Authz_Engine
begin

section \<open>Evaluation of role hierarchies over plain users\<close>

text \<open>
  When the stored subjects of the relations involved are plain users (no set, no wildcard, no
  condition), the engine's answer is a lookup: for a relation that reads its tuples, and for a
  chain of relations in which each one also includes the next (the workspace roles of the default
  model). Enough budget for one read per relation of the chain is all that is needed.
\<close>

definition plain_user :: "subject \<Rightarrow> bool" where
  "plain_user s \<longleftrightarrow> s_Set s = None \<and> \<not> Wildcard s \<and> s_Condition s = None"

fun role_chain :: "model \<Rightarrow> string \<Rightarrow> string list \<Rightarrow> bool" where
  "role_chain m ns [] \<longleftrightarrow> False"
| "role_chain m ns [r] \<longleftrightarrow> rewrite_of m ns r = this_rw"
| "role_chain m ns (r # r' # rs) \<longleftrightarrow>
     rewrite_of m ns r = union_rw [this_rw, computed_rw r'] \<and> r' \<noteq> [] \<and> role_chain m ns (r' # rs)"

lemma evalThisLoop_plain:
  "\<forall>s\<in>set ss. plain_user s \<Longrightarrow>
     evalThisLoop q cc rec neg ss st = (Inr (q_user q \<noteq> [] \<and> q_user q \<in> UserID ` set ss), st)"
  by (induction ss) (auto simp: plain_user_def EvalCondition_def)

lemma evalThis_plain:
  assumes "reader e p t ns obj rel = Inr ss" and "\<forall>s\<in>set ss. plain_user s"
    and "maxReads st \<le> 0 \<or> reads st < maxReads st"
  shows "evalThis e p t q cc rec ns obj rel neg st =
    (Inr (q_user q \<noteq> [] \<and> q_user q \<in> UserID ` set ss), st\<lparr>reads := reads st + 1\<rparr>)"
  using assms by (auto simp: evalThis_def charge_def Let_def evalThisLoop_plain)

lemma evalRewrite_this:
  "evalRewrite e p t q cc rec ns obj rel this_rw neg st = evalThis e p t q cc rec ns obj rel neg st"
  by (simp add: this_rw_def isThis_def)

lemma evalRewrite_link:
  "r' \<noteq> [] \<Longrightarrow> evalRewrite e p t q cc rec ns obj rel (union_rw [this_rw, computed_rw r']) neg st =
     (case evalThis e p t q cc rec ns obj rel neg st of
        (Inl err, st') \<Rightarrow> (Inl err, st')
      | (Inr ok, st') \<Rightarrow> if ok then (Inr True, st')
          else (case rec ns obj r' neg st' of
                  (Inl err, st'') \<Rightarrow> (Inl err, st'')
                | (Inr ok, st'') \<Rightarrow> (Inr ok, st'')))"
  by (simp add: union_rw_def computed_rw_def isThis_def evalRewrite_this split: prod.split sum.split)

lemma check_enter:
  assumes "visitKey ns obj rel \<notin> visited st" and "depth \<le> maxDepth e"
    and "memo st (memoKey (visitKey ns obj rel) neg) = None"
  shows "fst (check e m p t q cc depth ns obj rel neg st) =
    fst (evalRewrite e p t q cc (check e m p t q cc (depth + 1)) ns obj rel (rewrite_of m ns rel) neg
       (st\<lparr>visited := insert (visitKey ns obj rel) (visited st)\<rparr>))"
  using assms by (subst check.simps) (auto simp: Let_def split: prod.split sum.split)

lemma visitKey_rel [simp]: "visitKey ns obj r = visitKey ns obj r' \<longleftrightarrow> r = r'"
  by (simp add: visitKey_def)

lemma check_chain:
  assumes "role_chain m ns rels" and "distinct rels"
    and "\<And>r. r \<in> set rels \<Longrightarrow> reader e p t ns obj r = Inr (ss r) \<and> (\<forall>s\<in>set (ss r). plain_user s)"
    and "\<And>r. r \<in> set rels \<Longrightarrow> visitKey ns obj r \<notin> visited st \<and> memo st (memoKey (visitKey ns obj r) neg) = None"
    and "maxReads st \<le> 0 \<or> reads st + int (length rels) \<le> maxReads st"
    and "depth + int (length rels) \<le> maxDepth e + 1"
  shows "fst (check e m p t q cc depth ns obj (hd rels) neg st) =
    Inr (q_user q \<noteq> [] \<and> (\<exists>r\<in>set rels. q_user q \<in> UserID ` set (ss r)))"
  using assms
proof (induction m ns rels arbitrary: depth st rule: role_chain.induct)
  case (2 m ns r)
  then have "maxReads st \<le> 0 \<or> reads st < maxReads st" by auto
  with 2 show ?case by (simp add: check_enter evalRewrite_this evalThis_plain)
next
  case (3 m ns r r' rs)
  let ?st = "st\<lparr>visited := insert (visitKey ns obj r) (visited st)\<rparr>"
  let ?st' = "?st\<lparr>reads := reads st + 1\<rparr>"
  have budget: "maxReads ?st \<le> 0 \<or> reads ?st < maxReads ?st" using 3(6) by auto
  have direct: "evalThis e p t q cc rec ns obj r neg ?st = (Inr (q_user q \<noteq> [] \<and> q_user q \<in> UserID ` set (ss r)), ?st')"
    for rec using evalThis_plain [OF _ _ budget, of e p t ns obj r "ss r"] 3(4) [of r] by simp
  have IH: "fst (check e m p t q cc (depth + 1) ns obj r' neg ?st') =
      Inr (q_user q \<noteq> [] \<and> (\<exists>x\<in>set (r' # rs). q_user q \<in> UserID ` set (ss x)))"
  proof -
    have "role_chain m ns (r' # rs)" "distinct (r' # rs)" "depth + 1 + int (length (r' # rs)) \<le> maxDepth e + 1"
      "maxReads ?st' \<le> 0 \<or> reads ?st' + int (length (r' # rs)) \<le> maxReads ?st'"
      using 3(2,3,6,7) by auto
    moreover have "reader e p t ns obj x = Inr (ss x) \<and> (\<forall>s\<in>set (ss x). plain_user s)" if "x \<in> set (r' # rs)" for x
      using 3(4) [of x] that by simp
    moreover have "visitKey ns obj x \<notin> visited ?st' \<and> memo ?st' (memoKey (visitKey ns obj x) neg) = None"
      if "x \<in> set (r' # rs)" for x using 3(5) [of x] 3(3) that by auto
    ultimately show ?thesis using 3(1) [of "?st'" "depth + 1"] by simp
  qed
  have "fst (check e m p t q cc depth ns obj r neg st) =
      (if q_user q \<noteq> [] \<and> q_user q \<in> UserID ` set (ss r) then Inr True
       else fst (check e m p t q cc (depth + 1) ns obj r' neg ?st'))"
    using 3(2,7) 3(5) [of r] by (simp add: check_enter evalRewrite_link direct split: prod.split sum.split)
  with IH show ?case by auto
qed simp

end
