(* ===== verification/Service_Types.thy ===== *)
theory Service_Types
  imports Authz_Model GoStd
begin

section \<open>Domain types (internal/service/types.go, errors.go, repository.go)\<close>

text \<open>
  The Go string enumerations stay strings, because a value outside the constants is possible and
  \<^verbatim>\<open>Valid\<close> is what rejects it. Structs are records; a pointer to a struct is the record, and a
  pointer that may be nil is an option.
\<close>

definition ProjectActive :: string where "ProjectActive = ''active''"
definition ProjectSuspended :: string where "ProjectSuspended = ''suspended''"

record project =
  pr_ID :: string
  pr_Name :: string
  pr_Status :: string
  pr_Model :: model
  pr_DataRegion :: string
  pr_MaxCheckReads :: int
  pr_CreatedAt :: time
  pr_UpdatedAt :: time

definition RoleOwner :: string where "RoleOwner = ''owner''"
definition RoleAdmin :: string where "RoleAdmin = ''admin''"
definition RoleMember :: string where "RoleMember = ''member''"
definition RoleGuest :: string where "RoleGuest = ''guest''"

definition Role_Valid :: "string \<Rightarrow> bool" where
  "Role_Valid r \<longleftrightarrow> r = RoleOwner \<or> r = RoleAdmin \<or> r = RoleMember \<or> r = RoleGuest"

definition TypePersonal :: string where "TypePersonal = ''personal''"
definition TypeTeam :: string where "TypeTeam = ''team''"

definition StatusActive :: string where "StatusActive = ''active''"
definition StatusInvited :: string where "StatusInvited = ''invited''"
definition StatusSuspended :: string where "StatusSuspended = ''suspended''"

definition EnrollmentWaitlisted :: string where "EnrollmentWaitlisted = ''waitlisted''"
definition EnrollmentEnrolled :: string where "EnrollmentEnrolled = ''enrolled''"
definition EnrollmentActive :: string where "EnrollmentActive = ''active''"
definition EnrollmentCompleted :: string where "EnrollmentCompleted = ''completed''"
definition EnrollmentDropped :: string where "EnrollmentDropped = ''dropped''"

definition Enrollment_Valid :: "string \<Rightarrow> bool" where
  "Enrollment_Valid s \<longleftrightarrow> s = EnrollmentWaitlisted \<or> s = EnrollmentEnrolled \<or> s = EnrollmentActive \<or>
     s = EnrollmentCompleted \<or> s = EnrollmentDropped"

definition GrantsAccess :: "string \<Rightarrow> bool" where
  "GrantsAccess s \<longleftrightarrow> s = EnrollmentEnrolled \<or> s = EnrollmentActive"

text \<open>A member of a group is a user or another group (internal/service/groups.go).\<close>

record groupMember =
  gm_UserID :: string
  gm_GroupID :: string

definition MemberKey :: "groupMember \<Rightarrow> string \<times> string" where
  "MemberKey m = (if gm_GroupID m \<noteq> [] then (''group'', gm_GroupID m) else (''user'', gm_UserID m))"

definition MemberFromKey :: "string \<Rightarrow> string \<Rightarrow> groupMember" where
  "MemberFromKey kind k =
     (if kind = ''group'' then \<lparr>gm_UserID = [], gm_GroupID = k\<rparr> else \<lparr>gm_UserID = k, gm_GroupID = []\<rparr>)"

record enrollment =
  en_ProjectID :: string
  en_TenantID :: string
  en_GroupID :: string
  en_Member :: groupMember
  en_State :: string
  en_CreatedAt :: time
  en_UpdatedAt :: time

record seatAssignment =
  sa_ProjectID :: string
  sa_TenantID :: string
  sa_SKU :: string
  sa_UserID :: string
  sa_AssignedAt :: time

record seatUsage =
  su_SKU :: string
  su_Used :: int
  su_Limit :: int
  su_Limited :: bool

definition InvitePending :: string where "InvitePending = ''pending''"
definition InviteAccepted :: string where "InviteAccepted = ''accepted''"
definition InviteRevoked :: string where "InviteRevoked = ''revoked''"
definition InviteExpired :: string where "InviteExpired = ''expired''"

record workspace =
  ws_ID :: string
  ws_ProjectID :: string
  ws_TenantID :: string
  ws_Slug :: string
  ws_DisplayName :: string
  ws_Type :: string
  ws_OwnerUserID :: string
  ws_CreatedAt :: time
  ws_UpdatedAt :: time

record membership =
  mb_ProjectID :: string
  mb_TenantID :: string
  mb_WorkspaceID :: string
  mb_UserID :: string
  mb_Role :: string
  mb_Status :: string
  mb_CreatedAt :: time
  mb_UpdatedAt :: time

record invitation =
  iv_ID :: string
  iv_ProjectID :: string
  iv_TenantID :: string
  iv_WorkspaceID :: string
  iv_Email :: string
  iv_Role :: string
  iv_Status :: string
  iv_InvitedBy :: string
  iv_TokenHash :: string
  iv_CreatedAt :: time
  iv_ExpiresAt :: time

record group =
  gr_ID :: string
  gr_ProjectID :: string
  gr_TenantID :: string
  gr_WorkspaceID :: string
  gr_Slug :: string
  gr_DisplayName :: string
  gr_CreatedBy :: string
  gr_CreatedAt :: time
  gr_UpdatedAt :: time

record tupleAt =
  ta_TenantID :: string
  ta_Tuple :: tuple

record tupleFilter =
  f_Namespace :: string
  f_ObjectID :: string
  f_Relation :: string
  f_SubjectUserID :: string

definition HasControlChar :: "string \<Rightarrow> bool" where
  "HasControlChar s \<longleftrightarrow> list_ex (\<lambda>c. code_of c < 32) s"

definition isNotFound :: "go_error \<Rightarrow> bool" where
  "isNotFound err = errors_Is err ErrNotFound"

definition isAlreadyExists :: "go_error \<Rightarrow> bool" where
  "isAlreadyExists err = errors_Is err ErrAlreadyExists"

lemmas role_defs = RoleOwner_def RoleAdmin_def RoleMember_def RoleGuest_def
lemmas status_defs = StatusActive_def StatusInvited_def StatusSuspended_def
lemmas enrollment_defs = EnrollmentWaitlisted_def EnrollmentEnrolled_def EnrollmentActive_def
  EnrollmentCompleted_def EnrollmentDropped_def

end
