(* ===== verification/Memory_Store.thy ===== *)
theory Memory_Store
  imports Service_Types
begin

section \<open>The in-memory Repository driver (internal/repo/memory/memory.go)\<close>

text \<open>
  The state of \<^verbatim>\<open>Store\<close> is the record \<open>store\<close>, one field per Go map. Every method runs under the
  store's mutex, so it is one atomic step: a write is a function from the store to a result and
  the new store, a read a function of the store. The wall clock a read consults is its argument
  \<open>now\<close>. A row handed out or stored is a copy in Go, and a value here.

  Assignment through a missing inner map creates it (\<^const>\<open>put2\<close>, \<^const>\<open>put3\<close>); deletion in a missing
  inner map does nothing (\<open>AList.map_entry\<close>). The methods that create the inner map before they can
  fail fail only when it has an entry, with one exception, \<open>mem_AssignSeatAndTuple\<close>, which shows it.
\<close>

record store =
  m_projects :: "(string, project) gomap"
  m_workspaces :: "(string, (string, workspace) gomap) gomap"
  m_memberships :: "(string, (string, (string, membership) gomap) gomap) gomap"
  m_invitations :: "(string, (string, invitation) gomap) gomap"
  m_groups :: "(string, (string, group) gomap) gomap"
  m_enrollments :: "(string, (string, (string, enrollment) gomap) gomap) gomap"
  m_seatLimits :: "(string, (string, int) gomap) gomap"
  m_seatAssigns :: "(string, (string, (string, seatAssignment) gomap) gomap) gomap"
  m_tuples :: "(string, (string, tuple) gomap) gomap"
  m_seqs :: "(string, int) gomap"

definition mem_New :: store where
  "mem_New = \<lparr>m_projects = [], m_workspaces = [], m_memberships = [], m_invitations = [], m_groups = [],
     m_enrollments = [], m_seatLimits = [], m_seatAssigns = [], m_tuples = [], m_seqs = []\<rparr>"

type_synonym 'a st_write = "store \<Rightarrow> 'a result \<times> store"

definition NUL :: char where "NUL = char_of (0::nat)"

definition scope :: "string \<Rightarrow> string \<Rightarrow> string" where
  "scope projectID tenantID = projectID @ [NUL] @ tenantID"

subsection \<open>Tuple keys\<close>

definition part :: "string \<Rightarrow> string" where
  "part s = Itoa (length s) @ '':'' @ s"

definition subjectKey :: "subject \<Rightarrow> string" where
  "subjectKey s =
     (if Wildcard s then ''w''
      else (case s_Set s of
              Some st \<Rightarrow> ''s'' @ part (ss_Namespace st) @ part (ss_ObjectID st) @ part (ss_Relation st)
            | None \<Rightarrow> ''u'' @ part (UserID s)))"

definition tupleKey :: "tuple \<Rightarrow> string" where
  "tupleKey t = part (t_Namespace t) @ part (t_ObjectID t) @ part (t_Relation t) @ part (subjectKey (t_Subject t))"

subsection \<open>Projects\<close>

definition mem_CreateProject :: "project \<Rightarrow> unit st_write" where
  "mem_CreateProject p s =
     (if map_of (m_projects s) (pr_ID p) \<noteq> None then (Inl ErrAlreadyExists, s)
      else (Inr (), s\<lparr>m_projects := AList.update (pr_ID p) p (m_projects s)\<rparr>))"

definition mem_GetProject :: "string \<Rightarrow> store \<Rightarrow> project result" where
  "mem_GetProject i s =
     (case map_of (m_projects s) i of Some p \<Rightarrow> Inr p | None \<Rightarrow> Inl ErrNotFound)"

definition mem_UpdateProject :: "project \<Rightarrow> unit st_write" where
  "mem_UpdateProject p s =
     (if map_of (m_projects s) (pr_ID p) = None then (Inl ErrNotFound, s)
      else (Inr (), s\<lparr>m_projects := AList.update (pr_ID p) p (m_projects s)\<rparr>))"

text \<open>The order all lists share: by time, then by an identifier.\<close>

definition before :: "('a \<Rightarrow> time) \<Rightarrow> ('a \<Rightarrow> string) \<Rightarrow> 'a \<Rightarrow> 'a \<Rightarrow> bool" where
  "before tm i x y = (if tm x = tm y then str_less (i x) (i y) else tm x < tm y)"

definition mem_ListProjects :: "store \<Rightarrow> project list result" where
  "mem_ListProjects s = Inr (sort_Slice (before pr_CreatedAt pr_ID) (map snd (m_projects s)))"

subsection \<open>Relation tuples\<close>

definition bump_seq :: "string \<Rightarrow> store \<Rightarrow> store" where
  "bump_seq sk s = s\<lparr>m_seqs := AList.update sk (case map_of (m_seqs s) sk of None \<Rightarrow> 1 | Some n \<Rightarrow> n + 1) (m_seqs s)\<rparr>"

definition writeTuplesLocked :: "string \<Rightarrow> string \<Rightarrow> tuple list \<Rightarrow> tuple list \<Rightarrow> store \<Rightarrow> store" where
  "writeTuplesLocked projectID tenantID inserts deletes s =
     (let sk = scope projectID tenantID;
          m = submap (m_tuples s) sk;
          m1 = foldl (\<lambda>m t. AList.delete (tupleKey t) m) m deletes;
          m2 = foldl (\<lambda>m t. AList.update (tupleKey t) t m) m1 inserts in
      bump_seq sk (s\<lparr>m_tuples := AList.update sk m2 (m_tuples s)\<rparr>))"

definition mem_WriteTuples :: "string \<Rightarrow> string \<Rightarrow> tuple list \<Rightarrow> tuple list \<Rightarrow> unit st_write" where
  "mem_WriteTuples projectID tenantID inserts deletes s =
     (Inr (), writeTuplesLocked projectID tenantID inserts deletes s)"

definition mem_ConsistencyToken :: "string \<Rightarrow> string \<Rightarrow> store \<Rightarrow> int result" where
  "mem_ConsistencyToken projectID tenantID s =
     Inr (case map_of (m_seqs s) (scope projectID tenantID) of None \<Rightarrow> 0 | Some n \<Rightarrow> n)"

text \<open>The tuples of a shard, in the order of the map.\<close>

definition shard :: "store \<Rightarrow> string \<Rightarrow> string \<Rightarrow> tuple list" where
  "shard s projectID tenantID = map snd (submap (m_tuples s) (scope projectID tenantID))"

definition mem_ListSubjects ::
  "time \<Rightarrow> store \<Rightarrow> string \<Rightarrow> string \<Rightarrow> string \<Rightarrow> string \<Rightarrow> string \<Rightarrow> subject list result" where
  "mem_ListSubjects now s projectID tenantID namespace objectID relation =
     Inr (map t_Subject (filter (\<lambda>t. t_Namespace t = namespace \<and> t_ObjectID t = objectID \<and>
                                      t_Relation t = relation \<and> ActiveAt t now)
                         (shard s projectID tenantID)))"

definition mem_ListObjectIDs :: "time \<Rightarrow> store \<Rightarrow> string \<Rightarrow> string \<Rightarrow> string \<Rightarrow> string list result" where
  "mem_ListObjectIDs now s projectID tenantID namespace =
     Inr (sort_Slice str_less (remdups (map t_ObjectID
            (filter (\<lambda>t. t_Namespace t = namespace \<and> ActiveAt t now) (shard s projectID tenantID)))))"

definition matches_filter :: "tupleFilter \<Rightarrow> tuple \<Rightarrow> bool" where
  "matches_filter f t \<longleftrightarrow>
     \<not> (f_Namespace f \<noteq> [] \<and> t_Namespace t \<noteq> f_Namespace f) \<and>
     \<not> (f_ObjectID f \<noteq> [] \<and> t_ObjectID t \<noteq> f_ObjectID f) \<and>
     \<not> (f_Relation f \<noteq> [] \<and> t_Relation t \<noteq> f_Relation f) \<and>
     \<not> (f_SubjectUserID f \<noteq> [] \<and> UserID (t_Subject t) \<noteq> f_SubjectUserID f)"

definition mem_ReadTuples :: "time \<Rightarrow> string \<Rightarrow> string \<Rightarrow> tupleFilter \<Rightarrow> store \<Rightarrow> tuple list result" where
  "mem_ReadTuples now projectID tenantID f s =
     Inr (sort_Slice (\<lambda>a b. str_less (tupleKey a) (tupleKey b))
            (filter (\<lambda>t. ActiveAt t now \<and> matches_filter f t) (shard s projectID tenantID)))"

definition is_user_tuple :: "string \<Rightarrow> tuple \<Rightarrow> bool" where
  "is_user_tuple userID t \<longleftrightarrow>
     s_Set (t_Subject t) = None \<and> \<not> Wildcard (t_Subject t) \<and> UserID (t_Subject t) = userID"

definition mem_DeleteAllSubjectTuplesInProject :: "string \<Rightarrow> string \<Rightarrow> int st_write" where
  "mem_DeleteAllSubjectTuplesInProject projectID userID s =
     (let prefix = projectID @ [NUL];
          n = (\<Sum>(sk, m) \<leftarrow> m_tuples s.
                 if starts_with sk prefix then int (length (filter (\<lambda>(k, t). is_user_tuple userID t) m)) else 0);
          tuples' = map (\<lambda>(sk, m). (sk, if starts_with sk prefix
                      then filter (\<lambda>(k, t). \<not> is_user_tuple userID t) m else m)) (m_tuples s);
          seats' = map (\<lambda>(sk, bySKU). (sk, if starts_with sk prefix
                      then map (\<lambda>(sku, byUser). (sku, AList.delete userID byUser)) bySKU else bySKU)) (m_seatAssigns s) in
      (Inr n, s\<lparr>m_tuples := tuples', m_seatAssigns := seats'\<rparr>))"

definition tenantOfScope :: "string \<Rightarrow> string" where
  "tenantOfScope sk = (if NUL \<in> set sk then tl (dropWhile (\<lambda>c. c \<noteq> NUL) sk) else [])"

definition sortTupleAt :: "tupleAt list \<Rightarrow> tupleAt list" where
  "sortTupleAt = sort_Slice (\<lambda>a b. if ta_TenantID a \<noteq> ta_TenantID b then str_less (ta_TenantID a) (ta_TenantID b)
                                   else str_less (tupleKey (ta_Tuple a)) (tupleKey (ta_Tuple b)))"

text \<open>The project scan both list methods share: the tuples satisfying \<open>P\<close> in every shard of the project.\<close>

definition project_scan :: "string \<Rightarrow> (tuple \<Rightarrow> bool) \<Rightarrow> store \<Rightarrow> tupleAt list" where
  "project_scan projectID P s =
     concat (map (\<lambda>(sk, m). if starts_with sk (projectID @ [NUL])
                   then map (\<lambda>(k, t). \<lparr>ta_TenantID = tenantOfScope sk, ta_Tuple = t\<rparr>)
                          (filter (\<lambda>(k, t). P t) m)
                   else []) (m_tuples s))"

definition mem_ListSubjectTuplesInProject :: "time \<Rightarrow> string \<Rightarrow> string \<Rightarrow> store \<Rightarrow> tupleAt list result" where
  "mem_ListSubjectTuplesInProject now projectID userID s =
     Inr (sortTupleAt (project_scan projectID (\<lambda>t. is_user_tuple userID t \<and> ActiveAt t now) s))"

definition mem_ListTuplesForSubjectSetsInProject ::
  "time \<Rightarrow> string \<Rightarrow> subjectSet list \<Rightarrow> store \<Rightarrow> tupleAt list result" where
  "mem_ListTuplesForSubjectSetsInProject now projectID sets s =
     (if length sets = 0 then Inr []
      else Inr (sortTupleAt (project_scan projectID
             (\<lambda>t. (case s_Set (t_Subject t) of None \<Rightarrow> False | Some st \<Rightarrow> st \<in> set sets) \<and> ActiveAt t now) s)))"

subsection \<open>Workspaces\<close>

definition mem_CreateWorkspace :: "workspace \<Rightarrow> unit st_write" where
  "mem_CreateWorkspace w s =
     (let sk = scope (ws_ProjectID w) (ws_TenantID w);
          byID = submap (m_workspaces s) sk in
      if map_of byID (ws_ID w) \<noteq> None then (Inl ErrAlreadyExists, s)
      else if ws_Type w = TypePersonal \<and>
              list_ex (\<lambda>(k, ex). ws_Type ex = TypePersonal \<and> ws_OwnerUserID ex = ws_OwnerUserID w) byID
      then (Inl ErrAlreadyExists, s)
      else (Inr (), s\<lparr>m_workspaces := put2 sk (ws_ID w) w (m_workspaces s)\<rparr>))"

definition mem_GetWorkspace :: "string \<Rightarrow> string \<Rightarrow> string \<Rightarrow> store \<Rightarrow> workspace result" where
  "mem_GetWorkspace projectID tenantID i s =
     (case map_of (submap (m_workspaces s) (scope projectID tenantID)) i of
        Some w \<Rightarrow> Inr w | None \<Rightarrow> Inl ErrNotFound)"

definition mem_UpdateWorkspace :: "workspace \<Rightarrow> unit st_write" where
  "mem_UpdateWorkspace w s =
     (let sk = scope (ws_ProjectID w) (ws_TenantID w) in
      if map_of (submap (m_workspaces s) sk) (ws_ID w) = None then (Inl ErrNotFound, s)
      else (Inr (), s\<lparr>m_workspaces := put2 sk (ws_ID w) w (m_workspaces s)\<rparr>))"

definition mem_DeleteWorkspace :: "string \<Rightarrow> string \<Rightarrow> string \<Rightarrow> unit st_write" where
  "mem_DeleteWorkspace projectID tenantID i s =
     (let sk = scope projectID tenantID in
      if map_of (submap (m_workspaces s) sk) i = None then (Inl ErrNotFound, s)
      else (Inr (), bump_seq sk (s\<lparr>
             m_workspaces := AList.map_entry sk (AList.delete i) (m_workspaces s),
             m_memberships := AList.map_entry sk (AList.delete i) (m_memberships s),
             m_tuples := AList.map_entry sk
               (filter (\<lambda>(k, t). \<not> (t_Namespace t = ''workspace'' \<and> t_ObjectID t = i))) (m_tuples s),
             m_invitations := AList.map_entry sk
               (filter (\<lambda>(k, iv). iv_WorkspaceID iv \<noteq> i)) (m_invitations s)\<rparr>)))"

definition mem_PersonalWorkspace :: "string \<Rightarrow> string \<Rightarrow> string \<Rightarrow> store \<Rightarrow> workspace result" where
  "mem_PersonalWorkspace projectID tenantID userID s =
     (case find (\<lambda>(k, w). ws_Type w = TypePersonal \<and> ws_OwnerUserID w = userID)
             (submap (m_workspaces s) (scope projectID tenantID)) of
        Some (k, w) \<Rightarrow> Inr w | None \<Rightarrow> Inl ErrNotFound)"

definition mem_WorkspacesForUser :: "string \<Rightarrow> string \<Rightarrow> string \<Rightarrow> store \<Rightarrow> workspace list result" where
  "mem_WorkspacesForUser projectID tenantID userID s =
     (let sk = scope projectID tenantID in
      Inr (sort_Slice (before ws_CreatedAt ws_ID)
        (List.map_filter (\<lambda>(wsID, byUser).
           (case map_of byUser userID of
              None \<Rightarrow> None
            | Some m \<Rightarrow> if mb_Status m \<noteq> StatusActive then None
                        else map_of (submap (m_workspaces s) sk) wsID))
           (submap (m_memberships s) sk))))"

subsection \<open>Memberships\<close>

definition putMembershipLocked :: "membership \<Rightarrow> store \<Rightarrow> store" where
  "putMembershipLocked m s =
     s\<lparr>m_memberships := put3 (scope (mb_ProjectID m) (mb_TenantID m)) (mb_WorkspaceID m) (mb_UserID m) m (m_memberships s)\<rparr>"

definition mem_PutMembership :: "membership \<Rightarrow> unit st_write" where
  "mem_PutMembership m s = (Inr (), putMembershipLocked m s)"

definition mem_PutMembershipAndTuples :: "membership \<Rightarrow> tuple list \<Rightarrow> tuple list \<Rightarrow> unit st_write" where
  "mem_PutMembershipAndTuples m inserts deletes s =
     (Inr (), writeTuplesLocked (mb_ProjectID m) (mb_TenantID m) inserts deletes (putMembershipLocked m s))"

definition mem_GetMembership :: "string \<Rightarrow> string \<Rightarrow> string \<Rightarrow> string \<Rightarrow> store \<Rightarrow> membership result" where
  "mem_GetMembership projectID tenantID workspaceID userID s =
     (case map_of (submap (submap (m_memberships s) (scope projectID tenantID)) workspaceID) userID of
        Some m \<Rightarrow> Inr m | None \<Rightarrow> Inl ErrNotFound)"

definition deleteMembershipLocked :: "string \<Rightarrow> string \<Rightarrow> string \<Rightarrow> string \<Rightarrow> unit st_write" where
  "deleteMembershipLocked projectID tenantID workspaceID userID s =
     (let sk = scope projectID tenantID in
      if map_of (submap (submap (m_memberships s) sk) workspaceID) userID = None then (Inl ErrNotFound, s)
      else (Inr (), s\<lparr>m_memberships :=
              AList.map_entry sk (AList.map_entry workspaceID (AList.delete userID)) (m_memberships s)\<rparr>))"

definition mem_DeleteMembership :: "string \<Rightarrow> string \<Rightarrow> string \<Rightarrow> string \<Rightarrow> unit st_write" where
  "mem_DeleteMembership = deleteMembershipLocked"

definition mem_DeleteMembershipAndTuples ::
  "string \<Rightarrow> string \<Rightarrow> string \<Rightarrow> string \<Rightarrow> tuple list \<Rightarrow> unit st_write" where
  "mem_DeleteMembershipAndTuples projectID tenantID workspaceID userID deletes s =
     (case deleteMembershipLocked projectID tenantID workspaceID userID s of
        (Inl err, s') \<Rightarrow> (Inl err, s')
      | (Inr _, s') \<Rightarrow> (Inr (), writeTuplesLocked projectID tenantID [] deletes s'))"

definition mem_ListMembers :: "string \<Rightarrow> string \<Rightarrow> string \<Rightarrow> store \<Rightarrow> membership list result" where
  "mem_ListMembers projectID tenantID workspaceID s =
     Inr (sort_Slice (before mb_CreatedAt mb_UserID)
            (map snd (submap (submap (m_memberships s) (scope projectID tenantID)) workspaceID)))"

subsection \<open>Invitations\<close>

definition mem_CreateInvitation :: "invitation \<Rightarrow> unit st_write" where
  "mem_CreateInvitation iv s =
     (let sk = scope (iv_ProjectID iv) (iv_TenantID iv) in
      if map_of (submap (m_invitations s) sk) (iv_ID iv) \<noteq> None then (Inl ErrAlreadyExists, s)
      else (Inr (), s\<lparr>m_invitations := put2 sk (iv_ID iv) iv (m_invitations s)\<rparr>))"

definition mem_GetInvitation :: "string \<Rightarrow> string \<Rightarrow> string \<Rightarrow> store \<Rightarrow> invitation result" where
  "mem_GetInvitation projectID tenantID i s =
     (case map_of (submap (m_invitations s) (scope projectID tenantID)) i of
        Some iv \<Rightarrow> Inr iv | None \<Rightarrow> Inl ErrNotFound)"

definition mem_GetInvitationByTokenHash :: "string \<Rightarrow> string \<Rightarrow> string \<Rightarrow> store \<Rightarrow> invitation result" where
  "mem_GetInvitationByTokenHash projectID tenantID tokenHash s =
     (case find (\<lambda>(k, iv). iv_TokenHash iv = tokenHash) (submap (m_invitations s) (scope projectID tenantID)) of
        Some (k, iv) \<Rightarrow> Inr iv | None \<Rightarrow> Inl ErrNotFound)"

definition mem_UpdateInvitation :: "invitation \<Rightarrow> unit st_write" where
  "mem_UpdateInvitation iv s =
     (let sk = scope (iv_ProjectID iv) (iv_TenantID iv) in
      if map_of (submap (m_invitations s) sk) (iv_ID iv) = None then (Inl ErrNotFound, s)
      else (Inr (), s\<lparr>m_invitations := put2 sk (iv_ID iv) iv (m_invitations s)\<rparr>))"

definition mem_ListInvitations :: "string \<Rightarrow> string \<Rightarrow> string \<Rightarrow> store \<Rightarrow> invitation list result" where
  "mem_ListInvitations projectID tenantID workspaceID s =
     Inr (sort_Slice (before iv_CreatedAt iv_ID)
            (filter (\<lambda>iv. iv_WorkspaceID iv = workspaceID)
               (map snd (submap (m_invitations s) (scope projectID tenantID)))))"

subsection \<open>Groups\<close>

definition mem_CreateGroup :: "group \<Rightarrow> unit st_write" where
  "mem_CreateGroup g s =
     (let sk = scope (gr_ProjectID g) (gr_TenantID g) in
      if map_of (submap (m_groups s) sk) (gr_ID g) \<noteq> None then (Inl ErrAlreadyExists, s)
      else (Inr (), s\<lparr>m_groups := put2 sk (gr_ID g) g (m_groups s)\<rparr>))"

definition mem_GetGroup :: "string \<Rightarrow> string \<Rightarrow> string \<Rightarrow> store \<Rightarrow> group result" where
  "mem_GetGroup projectID tenantID i s =
     (case map_of (submap (m_groups s) (scope projectID tenantID)) i of
        Some g \<Rightarrow> Inr g | None \<Rightarrow> Inl ErrNotFound)"

definition mem_ListGroups :: "string \<Rightarrow> string \<Rightarrow> string \<Rightarrow> store \<Rightarrow> group list result" where
  "mem_ListGroups projectID tenantID workspaceID s =
     Inr (sort_Slice (before gr_CreatedAt gr_ID)
            (filter (\<lambda>g. \<not> (workspaceID \<noteq> [] \<and> gr_WorkspaceID g \<noteq> workspaceID))
               (map snd (submap (m_groups s) (scope projectID tenantID)))))"

definition mem_DeleteGroup :: "string \<Rightarrow> string \<Rightarrow> string \<Rightarrow> unit st_write" where
  "mem_DeleteGroup projectID tenantID i s =
     (let sk = scope projectID tenantID in
      if map_of (submap (m_groups s) sk) i = None then (Inl ErrNotFound, s)
      else (Inr (), bump_seq sk (s\<lparr>
             m_groups := AList.map_entry sk (AList.delete i) (m_groups s),
             m_enrollments := AList.map_entry sk (AList.delete i) (m_enrollments s),
             m_tuples := AList.map_entry sk
               (filter (\<lambda>(k, t). \<not> (t_Namespace t = ''group'' \<and> t_ObjectID t = i))) (m_tuples s)\<rparr>)))"

subsection \<open>Enrollments\<close>

definition memberRowKey :: "groupMember \<Rightarrow> string" where
  "memberRowKey m = (case MemberKey m of (kind, i) \<Rightarrow> kind @ '':'' @ i)"

definition mem_SetEnrollmentAndTuples :: "enrollment \<Rightarrow> tuple list \<Rightarrow> tuple list \<Rightarrow> unit st_write" where
  "mem_SetEnrollmentAndTuples e inserts deletes s =
     (Inr (), writeTuplesLocked (en_ProjectID e) (en_TenantID e) inserts deletes
        (s\<lparr>m_enrollments := put3 (scope (en_ProjectID e) (en_TenantID e)) (en_GroupID e) (memberRowKey (en_Member e)) e
             (m_enrollments s)\<rparr>))"

definition mem_GetEnrollment :: "string \<Rightarrow> string \<Rightarrow> string \<Rightarrow> groupMember \<Rightarrow> store \<Rightarrow> enrollment result" where
  "mem_GetEnrollment projectID tenantID groupID member s =
     (case map_of (submap (submap (m_enrollments s) (scope projectID tenantID)) groupID) (memberRowKey member) of
        Some e \<Rightarrow> Inr e | None \<Rightarrow> Inl ErrNotFound)"

definition mem_ListEnrollments :: "string \<Rightarrow> string \<Rightarrow> string \<Rightarrow> store \<Rightarrow> enrollment list result" where
  "mem_ListEnrollments projectID tenantID groupID s =
     Inr (sort_Slice (before en_CreatedAt (\<lambda>e. memberRowKey (en_Member e)))
            (map snd (submap (submap (m_enrollments s) (scope projectID tenantID)) groupID)))"

subsection \<open>Seats\<close>

definition mem_SetSeatLimit :: "string \<Rightarrow> string \<Rightarrow> string \<Rightarrow> int option \<Rightarrow> unit st_write" where
  "mem_SetSeatLimit projectID tenantID sku limit s =
     (let sk = scope projectID tenantID in
      case limit of
        None \<Rightarrow> (Inr (), s\<lparr>m_seatLimits := AList.map_entry sk (AList.delete sku) (m_seatLimits s)\<rparr>)
      | Some n \<Rightarrow> (Inr (), s\<lparr>m_seatLimits := put2 sk sku n (m_seatLimits s)\<rparr>))"

definition seatUsageLocked :: "store \<Rightarrow> string \<Rightarrow> string \<Rightarrow> int \<times> int \<times> bool" where
  "seatUsageLocked s sk sku =
     (let used = int (length (submap (submap (m_seatAssigns s) sk) sku)) in
      case map_of (submap (m_seatLimits s) sk) sku of
        None \<Rightarrow> (used, 0, False)
      | Some limit \<Rightarrow> (used, limit, True))"

definition mem_GetSeatUsage :: "string \<Rightarrow> string \<Rightarrow> string \<Rightarrow> store \<Rightarrow> seatUsage result" where
  "mem_GetSeatUsage projectID tenantID sku s =
     (case seatUsageLocked s (scope projectID tenantID) sku of
        (used, limit, limited) \<Rightarrow> Inr \<lparr>su_SKU = sku, su_Used = used, su_Limit = limit, su_Limited = limited\<rparr>)"

definition mem_AssignSeatAndTuple :: "seatAssignment \<Rightarrow> tuple \<Rightarrow> bool st_write" where
  "mem_AssignSeatAndTuple a tuple s =
     (let sk = scope (sa_ProjectID a) (sa_TenantID a);
          bySKU = submap (m_seatAssigns s) sk;
          byUser = submap bySKU (sa_SKU a);
          s0 = s\<lparr>m_seatAssigns := AList.update sk (AList.update (sa_SKU a) byUser bySKU) (m_seatAssigns s)\<rparr> in
      if map_of byUser (sa_UserID a) \<noteq> None then
        (Inr True, writeTuplesLocked (sa_ProjectID a) (sa_TenantID a) [tuple] [] s0)
      else (case seatUsageLocked s0 sk (sa_SKU a) of
              (used, limit, limited) \<Rightarrow>
                if limited \<and> used \<ge> limit then (Inl ErrResourceExhausted, s0)
                else (Inr False, writeTuplesLocked (sa_ProjectID a) (sa_TenantID a) [tuple] []
                        (s0\<lparr>m_seatAssigns := put3 sk (sa_SKU a) (sa_UserID a) a (m_seatAssigns s0)\<rparr>))))"

definition mem_RevokeSeatAndTuple :: "string \<Rightarrow> string \<Rightarrow> string \<Rightarrow> string \<Rightarrow> tuple \<Rightarrow> unit st_write" where
  "mem_RevokeSeatAndTuple projectID tenantID sku userID tuple s =
     (Inr (), writeTuplesLocked projectID tenantID [] [tuple]
        (s\<lparr>m_seatAssigns := AList.map_entry (scope projectID tenantID)
             (AList.map_entry sku (AList.delete userID)) (m_seatAssigns s)\<rparr>))"

definition mem_ListSeats :: "string \<Rightarrow> string \<Rightarrow> string \<Rightarrow> store \<Rightarrow> seatAssignment list result" where
  "mem_ListSeats projectID tenantID sku s =
     Inr (sort_Slice (before sa_AssignedAt sa_UserID)
            (map snd (submap (submap (m_seatAssigns s) (scope projectID tenantID)) sku)))"

lemmas store_write_defs =
  mem_CreateProject_def mem_UpdateProject_def mem_WriteTuples_def mem_DeleteAllSubjectTuplesInProject_def
  mem_CreateWorkspace_def mem_UpdateWorkspace_def mem_DeleteWorkspace_def mem_PutMembership_def
  mem_PutMembershipAndTuples_def mem_DeleteMembership_def mem_DeleteMembershipAndTuples_def
  mem_CreateInvitation_def mem_UpdateInvitation_def mem_CreateGroup_def mem_DeleteGroup_def
  mem_SetEnrollmentAndTuples_def mem_SetSeatLimit_def mem_AssignSeatAndTuple_def mem_RevokeSeatAndTuple_def

end
