(* ===== verification/Memory_Laws.thy ===== *)
theory Memory_Laws
  imports Memory_Store
begin

section \<open>Laws of the in-memory driver\<close>

text \<open>
  Tuple keys are injective; the shards of a store refine finite maps from tuple identities to
  tuples; and every write keeps the rows under their own keys (\<open>store_ok\<close>). The locale
  \<open>tuple_repo\<close> is what the service relies on: it is interpreted on the driver.
\<close>

subsection \<open>Keys\<close>

lemma colon_not_Itoa: "CHR '':'' \<notin> set (Itoa n)"
  using Itoa_digits [of "CHR '':''" n] by (auto simp: is_digit_def)

lemma part_append_inject: "part s @ xs = part s' @ xs' \<longleftrightarrow> s = s' \<and> xs = xs'"
proof
  assume "part s @ xs = part s' @ xs'"
  then have "Itoa (length s) @ [CHR '':''] @ (s @ xs) = Itoa (length s') @ [CHR '':''] @ (s' @ xs')"
    by (simp add: part_def)
  from prefix_free_append [OF this colon_not_Itoa colon_not_Itoa]
  have "length s = length s'" and "s @ xs = s' @ xs'" by (simp_all add: Itoa_inject)
  then show "s = s' \<and> xs = xs'" by simp
qed simp

lemma part_inject: "part s = part s' \<longleftrightarrow> s = s'"
  using part_append_inject [of s "[]" s' "[]"] by simp

text \<open>
  What a tuple key identifies: the object, the relation and the subject, but neither the
  condition nor the expiry of the grant.
\<close>

datatype subject_ident = WildcardId | SetId subjectSet | UserId string

type_synonym tuple_ident = "string \<times> string \<times> string \<times> subject_ident"

definition ident_of_subject :: "subject \<Rightarrow> subject_ident" where
  "ident_of_subject s =
     (if Wildcard s then WildcardId else case s_Set s of Some st \<Rightarrow> SetId st | None \<Rightarrow> UserId (UserID s))"

definition ident_of :: "tuple \<Rightarrow> tuple_ident" where
  "ident_of t = (t_Namespace t, t_ObjectID t, t_Relation t, ident_of_subject (t_Subject t))"

fun subject_ident_key :: "subject_ident \<Rightarrow> string" where
  "subject_ident_key WildcardId = ''w''"
| "subject_ident_key (SetId st) = ''s'' @ part (ss_Namespace st) @ part (ss_ObjectID st) @ part (ss_Relation st)"
| "subject_ident_key (UserId u) = ''u'' @ part u"

fun ident_key :: "tuple_ident \<Rightarrow> string" where
  "ident_key (ns, obj, rel, sub) = part ns @ part obj @ part rel @ part (subject_ident_key sub)"

lemma tupleKey_ident: "tupleKey t = ident_key (ident_of t)"
  by (simp add: tupleKey_def ident_of_def subjectKey_def ident_of_subject_def split: option.split)

lemma subject_ident_key_inject: "subject_ident_key a = subject_ident_key b \<longleftrightarrow> a = b"
  by (cases a; cases b) (auto simp: part_append_inject part_inject)

lemma ident_key_inject: "ident_key a = ident_key b \<longleftrightarrow> a = b"
  by (cases a; cases b) (simp add: part_append_inject part_inject subject_ident_key_inject)

declare ident_key.simps [simp del]

lemma tupleKey_inject: "tupleKey t = tupleKey t' \<longleftrightarrow> ident_of t = ident_of t'"
  by (simp add: tupleKey_ident ident_key_inject)

lemma scope_inject:
  assumes "NUL \<notin> set p" and "NUL \<notin> set p'"
  shows "scope p t = scope p' t' \<longleftrightarrow> p = p' \<and> t = t'"
  using prefix_free_append [OF _ assms] unfolding scope_def by blast

lemma starts_with_append [simp]: "starts_with (p @ xs) p"
  by (induction p) auto

lemma starts_withE: "starts_with s p \<Longrightarrow> \<exists>xs. s = p @ xs"
  by (induction s p rule: starts_with.induct) auto

lemma starts_with_scope:
  assumes "NUL \<notin> set p" and "NUL \<notin> set p'"
  shows "starts_with (scope p t) (p' @ [NUL]) \<longleftrightarrow> p = p'"
proof
  assume "starts_with (scope p t) (p' @ [NUL])"
  then obtain xs where "p @ [NUL] @ t = p' @ [NUL] @ xs"
    by (auto simp: scope_def dest!: starts_withE)
  from prefix_free_append [OF this assms] show "p = p'" by simp
next
  assume "p = p'"
  then show "starts_with (scope p t) (p' @ [NUL])"
    using starts_with_append [of "p' @ [NUL]" t] by (simp add: scope_def)
qed

lemma tenantOfScope_scope: "NUL \<notin> set p \<Longrightarrow> tenantOfScope (scope p t) = t"
  by (induction p) (auto simp: tenantOfScope_def scope_def)

subsection \<open>Rows stay under their keys\<close>

definition store_ok :: "store \<Rightarrow> bool" where
  "store_ok s \<longleftrightarrow>
     all_map (\<lambda>i p. pr_ID p = i) (m_projects s) \<and>
     all_map (\<lambda>sk. all_map (\<lambda>i w. ws_ID w = i \<and> scope (ws_ProjectID w) (ws_TenantID w) = sk)) (m_workspaces s) \<and>
     all_map (\<lambda>sk. all_map (\<lambda>w. all_map (\<lambda>u m. mb_UserID m = u \<and> mb_WorkspaceID m = w \<and>
        scope (mb_ProjectID m) (mb_TenantID m) = sk))) (m_memberships s) \<and>
     all_map (\<lambda>sk. all_map (\<lambda>i iv. iv_ID iv = i \<and> scope (iv_ProjectID iv) (iv_TenantID iv) = sk)) (m_invitations s) \<and>
     all_map (\<lambda>sk. all_map (\<lambda>i g. gr_ID g = i \<and> scope (gr_ProjectID g) (gr_TenantID g) = sk)) (m_groups s) \<and>
     all_map (\<lambda>sk. all_map (\<lambda>g. all_map (\<lambda>k e. memberRowKey (en_Member e) = k \<and> en_GroupID e = g \<and>
        scope (en_ProjectID e) (en_TenantID e) = sk))) (m_enrollments s) \<and>
     all_map (\<lambda>sk. all_map (\<lambda>sku n. True)) (m_seatLimits s) \<and>
     all_map (\<lambda>sk. all_map (\<lambda>sku. all_map (\<lambda>u a. sa_UserID a = u \<and> sa_SKU a = sku \<and>
        scope (sa_ProjectID a) (sa_TenantID a) = sk))) (m_seatAssigns s) \<and>
     all_map (\<lambda>sk. all_map (\<lambda>k t. tupleKey t = k)) (m_tuples s) \<and>
     all_map (\<lambda>sk n. 0 \<le> n) (m_seqs s)"

lemma store_ok_New [simp]: "store_ok mem_New"
  by (simp add: store_ok_def mem_New_def)

lemma all_map_foldl_delete [inv_intros]:
  "all_map P m \<Longrightarrow> all_map P (foldl (\<lambda>m t. AList.delete (f t) m) m ts)"
  by (induction ts arbitrary: m) (simp_all add: all_map_delete)

lemma all_map_foldl_update [inv_intros]:
  "all_map P m \<Longrightarrow> (\<And>t. P (f t) t) \<Longrightarrow> all_map P (foldl (\<lambda>m t. AList.update (f t) t m) m ts)"
  by (induction ts arbitrary: m) (simp_all add: all_map_update)

lemma store_ok_bump_seq: "store_ok s \<Longrightarrow> store_ok (bump_seq sk s)"
  unfolding store_ok_def bump_seq_def
  by (auto intro!: all_map_update split: option.split dest: all_mapD)

lemma store_ok_writeTuplesLocked: "store_ok s \<Longrightarrow> store_ok (writeTuplesLocked p t ins del s)"
  unfolding writeTuplesLocked_def Let_def
  by (rule store_ok_bump_seq)
    (auto simp: store_ok_def intro!: all_map_update all_map_foldl_update all_map_foldl_delete all_map_submap)

lemma store_ok_putMembershipLocked: "store_ok s \<Longrightarrow> store_ok (putMembershipLocked m s)"
  by (auto simp: store_ok_def putMembershipLocked_def intro!: all_map_put3)

lemma store_ok_deleteMembershipLocked:
  "store_ok s \<Longrightarrow> store_ok (snd (deleteMembershipLocked p t w u s))"
  by (auto simp: store_ok_def deleteMembershipLocked_def Let_def intro!: all_map_entry all_map_delete)

lemma store_ok_projects:
  assumes "store_ok s"
  shows "store_ok (snd (mem_CreateProject p s))" and "store_ok (snd (mem_UpdateProject p s))"
  using assms by (auto simp: store_ok_def mem_CreateProject_def mem_UpdateProject_def intro!: all_map_update)

lemma store_ok_WriteTuples: "store_ok s \<Longrightarrow> store_ok (snd (mem_WriteTuples p t ins del s))"
  by (simp add: mem_WriteTuples_def store_ok_writeTuplesLocked)

lemma store_ok_DeleteAll: "store_ok s \<Longrightarrow> store_ok (snd (mem_DeleteAllSubjectTuplesInProject p u s))"
  by (auto simp: store_ok_def mem_DeleteAllSubjectTuplesInProject_def Let_def
      intro!: all_map_map all_map_filter all_map_delete split: if_splits)

lemma store_ok_workspaces:
  assumes "store_ok s"
  shows "store_ok (snd (mem_CreateWorkspace w s))" and "store_ok (snd (mem_UpdateWorkspace w s))"
  using assms
  by (auto simp: store_ok_def mem_CreateWorkspace_def mem_UpdateWorkspace_def Let_def intro!: all_map_put2)

lemma store_ok_DeleteWorkspace: "store_ok s \<Longrightarrow> store_ok (snd (mem_DeleteWorkspace p t i s))"
  by (auto simp: mem_DeleteWorkspace_def Let_def intro!: store_ok_bump_seq)
    (auto simp: store_ok_def intro!: all_map_entry all_map_delete all_map_filter)

lemma store_ok_memberships:
  assumes "store_ok s"
  shows "store_ok (snd (mem_PutMembership m s))" and "store_ok (snd (mem_PutMembershipAndTuples m ins del s))"
    and "store_ok (snd (mem_DeleteMembership p t w u s))"
    and "store_ok (snd (mem_DeleteMembershipAndTuples p t w u del s))"
  using assms store_ok_deleteMembershipLocked [OF assms, of p t w u]
  by (auto simp: mem_PutMembership_def mem_PutMembershipAndTuples_def mem_DeleteMembership_def
      mem_DeleteMembershipAndTuples_def split: prod.split sum.split
      intro!: store_ok_writeTuplesLocked store_ok_putMembershipLocked)

lemma store_ok_invitations:
  assumes "store_ok s"
  shows "store_ok (snd (mem_CreateInvitation iv s))" and "store_ok (snd (mem_UpdateInvitation iv s))"
  using assms by (auto simp: store_ok_def mem_CreateInvitation_def mem_UpdateInvitation_def Let_def intro!: all_map_put2)

lemma store_ok_groups:
  assumes "store_ok s"
  shows "store_ok (snd (mem_CreateGroup g s))"
  using assms by (auto simp: store_ok_def mem_CreateGroup_def Let_def intro!: all_map_put2)

lemma store_ok_DeleteGroup: "store_ok s \<Longrightarrow> store_ok (snd (mem_DeleteGroup p t i s))"
  by (auto simp: mem_DeleteGroup_def Let_def intro!: store_ok_bump_seq)
    (auto simp: store_ok_def intro!: all_map_entry all_map_delete all_map_filter)

lemma store_ok_enrollments: "store_ok s \<Longrightarrow> store_ok (snd (mem_SetEnrollmentAndTuples e ins del s))"
  unfolding mem_SetEnrollmentAndTuples_def snd_conv
  by (intro store_ok_writeTuplesLocked) (auto simp: store_ok_def intro!: all_map_put3)

lemma store_ok_seats:
  assumes "store_ok s"
  shows "store_ok (snd (mem_SetSeatLimit p t sku l s))" and "store_ok (snd (mem_AssignSeatAndTuple a tu s))"
    and "store_ok (snd (mem_RevokeSeatAndTuple p t sku u tu s))"
proof -
  show "store_ok (snd (mem_SetSeatLimit p t sku l s))"
    using assms by (cases l) (auto simp: store_ok_def mem_SetSeatLimit_def Let_def
        intro!: all_map_put2 all_map_entry all_map_delete)
  let ?sk = "scope (sa_ProjectID a) (sa_TenantID a)"
  let ?s0 = "s\<lparr>m_seatAssigns := AList.update ?sk (AList.update (sa_SKU a)
      (submap (submap (m_seatAssigns s) ?sk) (sa_SKU a)) (submap (m_seatAssigns s) ?sk)) (m_seatAssigns s)\<rparr>"
  have s0: "store_ok ?s0"
    using assms by (auto simp: store_ok_def intro!: all_map_update all_map_submap)
  have "store_ok (?s0\<lparr>m_seatAssigns := put3 ?sk (sa_SKU a) (sa_UserID a) a (m_seatAssigns ?s0)\<rparr>)"
    using s0 unfolding store_ok_def by (auto intro!: all_map_put3)
  with s0 show "store_ok (snd (mem_AssignSeatAndTuple a tu s))"
    unfolding mem_AssignSeatAndTuple_def Let_def
    by (auto intro!: store_ok_writeTuplesLocked split: prod.split)
  show "store_ok (snd (mem_RevokeSeatAndTuple p t sku u tu s))"
    using assms unfolding mem_RevokeSeatAndTuple_def snd_conv
    by (intro store_ok_writeTuplesLocked) (auto simp: store_ok_def intro!: all_map_entry all_map_delete)
qed

subsection \<open>Reachable stores\<close>

text \<open>One step is one write method; reads do not change the store.\<close>

inductive mem_step :: "store \<Rightarrow> store \<Rightarrow> bool" where
  CreateProject: "mem_step s (snd (mem_CreateProject p s))"
| UpdateProject: "mem_step s (snd (mem_UpdateProject p s))"
| WriteTuples: "mem_step s (snd (mem_WriteTuples pr te ins del s))"
| DeleteAllSubjectTuples: "mem_step s (snd (mem_DeleteAllSubjectTuplesInProject pr u s))"
| CreateWorkspace: "mem_step s (snd (mem_CreateWorkspace w s))"
| UpdateWorkspace: "mem_step s (snd (mem_UpdateWorkspace w s))"
| DeleteWorkspace: "mem_step s (snd (mem_DeleteWorkspace pr te i s))"
| PutMembership: "mem_step s (snd (mem_PutMembership m s))"
| PutMembershipAndTuples: "mem_step s (snd (mem_PutMembershipAndTuples m ins del s))"
| DeleteMembership: "mem_step s (snd (mem_DeleteMembership pr te wi u s))"
| DeleteMembershipAndTuples: "mem_step s (snd (mem_DeleteMembershipAndTuples pr te wi u del s))"
| CreateInvitation: "mem_step s (snd (mem_CreateInvitation iv s))"
| UpdateInvitation: "mem_step s (snd (mem_UpdateInvitation iv s))"
| CreateGroup: "mem_step s (snd (mem_CreateGroup g s))"
| DeleteGroup: "mem_step s (snd (mem_DeleteGroup pr te i s))"
| SetEnrollmentAndTuples: "mem_step s (snd (mem_SetEnrollmentAndTuples e ins del s))"
| SetSeatLimit: "mem_step s (snd (mem_SetSeatLimit pr te sku l s))"
| AssignSeatAndTuple: "mem_step s (snd (mem_AssignSeatAndTuple a tu s))"
| RevokeSeatAndTuple: "mem_step s (snd (mem_RevokeSeatAndTuple pr te sku u tu s))"

lemmas store_ok_writes =
  store_ok_projects store_ok_WriteTuples store_ok_DeleteAll store_ok_workspaces store_ok_DeleteWorkspace
  store_ok_memberships store_ok_invitations store_ok_groups store_ok_DeleteGroup store_ok_enrollments
  store_ok_seats

lemma mem_step_store_ok: "mem_step s s' \<Longrightarrow> store_ok s \<Longrightarrow> store_ok s'"
  by (induction rule: mem_step.induct) (rule store_ok_writes, assumption)+

subsection \<open>A shard is a map from tuple identities to tuples\<close>

definition stored :: "store \<Rightarrow> string \<Rightarrow> string \<Rightarrow> tuple_ident \<Rightarrow> tuple option" where
  "stored s p t i = map_of (submap (m_tuples s) (scope p t)) (ident_key i)"

text \<open>The specification of a write: the last insert of an identity wins, an identity that is
  only deleted is gone, every other one keeps its tuple.\<close>

definition spec_write ::
  "(tuple_ident \<Rightarrow> tuple option) \<Rightarrow> tuple list \<Rightarrow> tuple list \<Rightarrow> tuple_ident \<Rightarrow> tuple option" where
  "spec_write M inserts deletes i =
     (case find (\<lambda>t. ident_of t = i) (rev inserts) of
        Some t \<Rightarrow> Some t
      | None \<Rightarrow> if i \<in> ident_of ` set deletes then None else M i)"

lemma map_of_foldl_update:
  "map_of (foldl (\<lambda>m t. AList.update (f t) t m) m ts) k =
     (case find (\<lambda>t. f t = k) (rev ts) of Some t \<Rightarrow> Some t | None \<Rightarrow> map_of m k)"
  by (induction ts arbitrary: m rule: rev_induct) auto

lemma map_of_foldl_delete:
  "map_of (foldl (\<lambda>m t. AList.delete (f t) m) m ts) k = (if k \<in> f ` set ts then None else map_of m k)"
  by (induction ts arbitrary: m) auto

lemma stored_bump_seq [simp]: "stored (bump_seq sk s) = stored s"
  by (simp add: stored_def bump_seq_def fun_eq_iff)

lemma tupleKey_inject': "tupleKey t = ident_key i \<longleftrightarrow> ident_of t = i"
  by (simp add: tupleKey_ident ident_key_inject)

lemma shard_keys: "store_ok s \<Longrightarrow> all_map (\<lambda>k t. tupleKey t = k) (submap (m_tuples s) sk)"
  by (rule all_map_submap [where P = "\<lambda>_ k t. tupleKey t = k"]) (simp add: store_ok_def)

lemma stored_writeTuplesLocked:
  "stored (writeTuplesLocked p t ins del s) p' t' =
     (if scope p' t' = scope p t then spec_write (stored s p t) ins del else stored s p' t')"
proof -
  have key: "ident_key i \<in> tupleKey ` set ts \<longleftrightarrow> i \<in> ident_of ` set ts" for i ts
    by (auto simp: tupleKey_ident ident_key_inject image_iff)
  show ?thesis
    by (rule ext) (simp add: writeTuplesLocked_def Let_def stored_def spec_write_def map_of_foldl_update
        map_of_foldl_delete key tupleKey_inject' split: option.split)
qed

lemma stored_ident: "store_ok s \<Longrightarrow> stored s p t i = Some tu \<Longrightarrow> ident_of tu = i"
  using all_mapD [OF shard_keys, of s "scope p t" "ident_key i" tu] by (simp add: stored_def tupleKey_inject')

lemma set_shard: "store_ok s \<Longrightarrow> set (shard s p t) = {tu. stored s p t (ident_of tu) = Some tu}"
proof -
  assume ok: "store_ok s"
  let ?m = "submap (m_tuples s) (scope p t)"
  note all = shard_keys [OF ok, of "scope p t"]
  then have wf: "wf_map ?m" by (rule all_map_wf)
  have mem: "(k, tu) \<in> set ?m \<longleftrightarrow> k = tupleKey tu \<and> stored s p t (ident_of tu) = Some tu" for k tu
    using wf_map_mem_iff [OF wf, of k tu] all_mapD [OF all, of k tu]
    by (auto simp: stored_def tupleKey_ident)
  have "tu \<in> snd ` set ?m \<longleftrightarrow> (\<exists>k. (k, tu) \<in> set ?m)" for tu by force
  then show ?thesis unfolding shard_def set_map by (simp add: mem set_eq_iff)
qed

subsection \<open>The interface of the tuple store\<close>

text \<open>
  What the engine and the service rely on: a write updates exactly one shard, as specified, and
  reading the subjects of a relation returns the subjects of its unexpired tuples.
\<close>

locale tuple_repo =
  fixes ok :: "'st \<Rightarrow> bool"
    and lookup :: "'st \<Rightarrow> string \<Rightarrow> string \<Rightarrow> tuple_ident \<Rightarrow> tuple option"
    and wr :: "string \<Rightarrow> string \<Rightarrow> tuple list \<Rightarrow> tuple list \<Rightarrow> 'st \<Rightarrow> 'st"
    and subjects :: "time \<Rightarrow> 'st \<Rightarrow> string \<Rightarrow> string \<Rightarrow> string \<Rightarrow> string \<Rightarrow> string \<Rightarrow> subject list result"
  assumes ok_wr: "ok s \<Longrightarrow> ok (wr p t ins del s)"
    and lookup_ident: "ok s \<Longrightarrow> lookup s p t i = Some tu \<Longrightarrow> ident_of tu = i"
    and lookup_wr: "lookup (wr p t ins del s) p t = spec_write (lookup s p t) ins del"
    and lookup_wr_other: "NUL \<notin> set p \<Longrightarrow> NUL \<notin> set p' \<Longrightarrow> (p', t') \<noteq> (p, t) \<Longrightarrow>
      lookup (wr p t ins del s) p' t' = lookup s p' t'"
    and subjects_lookup: "ok s \<Longrightarrow> \<exists>ss. subjects now s p t ns obj rel = Inr ss \<and>
      set ss = {t_Subject tu | tu. lookup s p t (ident_of tu) = Some tu \<and> t_Namespace tu = ns \<and>
                  t_ObjectID tu = obj \<and> t_Relation tu = rel \<and> ActiveAt tu now}"
begin

lemma read_after_write:
  assumes "ok s" and "ActiveAt tu now"
  shows "\<exists>ss. subjects now (wr p t [tu] del s) p t (t_Namespace tu) (t_ObjectID tu) (t_Relation tu) = Inr ss \<and>
    t_Subject tu \<in> set ss"
proof -
  have "lookup (wr p t [tu] del s) p t (ident_of tu) = Some tu"
    by (simp add: lookup_wr spec_write_def)
  with subjects_lookup [OF ok_wr [OF assms(1)], where now = now and p = p and t = t and ns = "t_Namespace tu"
      and obj = "t_ObjectID tu" and rel = "t_Relation tu"] assms(2)
  show ?thesis by blast
qed

lemma read_after_delete:
  assumes "ok s"
  shows "\<exists>ss. subjects now (wr p t [] [tu] s) p t (t_Namespace tu) (t_ObjectID tu) (t_Relation tu) = Inr ss \<and>
    ident_of_subject (t_Subject tu) \<notin> ident_of_subject ` set ss"
proof -
  have "lookup (wr p t [] [tu] s) p t (ident_of tu) = None"
    by (simp add: lookup_wr spec_write_def)
  then have "lookup (wr p t [] [tu] s) p t (ident_of tv) \<noteq> Some tv"
    if "ident_of tv = ident_of tu" for tv using that by simp
  with subjects_lookup [OF ok_wr [OF assms(1)], where now = now and p = p and t = t and ns = "t_Namespace tu"
      and obj = "t_ObjectID tu" and rel = "t_Relation tu"]
  show ?thesis by (fastforce simp: ident_of_def)
qed

lemma subjects_other_shard:
  assumes "ok s" and "NUL \<notin> set p" and "NUL \<notin> set p'" and "(p', t') \<noteq> (p, t)"
  shows "\<exists>ss ss'. subjects now (wr p t ins del s) p' t' ns obj rel = Inr ss \<and>
    subjects now s p' t' ns obj rel = Inr ss' \<and> set ss = set ss'"
proof -
  let ?sub = "\<lambda>s. {t_Subject tu | tu. lookup s p' t' (ident_of tu) = Some tu \<and> t_Namespace tu = ns \<and>
                  t_ObjectID tu = obj \<and> t_Relation tu = rel \<and> ActiveAt tu now}"
  obtain ss where ss: "subjects now (wr p t ins del s) p' t' ns obj rel = Inr ss" "set ss = ?sub (wr p t ins del s)"
    using subjects_lookup [OF ok_wr [OF assms(1)]] by metis
  obtain ss' where ss': "subjects now s p' t' ns obj rel = Inr ss'" "set ss' = ?sub s"
    using subjects_lookup [OF assms(1)] by metis
  have "?sub (wr p t ins del s) = ?sub s" by (simp only: lookup_wr_other [OF assms(2-4)])
  with ss ss' show ?thesis by simp
qed

end

interpretation memrepo: tuple_repo store_ok stored writeTuplesLocked mem_ListSubjects
proof
  fix s :: store and p t :: string and ins del :: "tuple list"
  show "store_ok s \<Longrightarrow> store_ok (writeTuplesLocked p t ins del s)"
    by (rule store_ok_writeTuplesLocked)
  show "stored (writeTuplesLocked p t ins del s) p t = spec_write (stored s p t) ins del"
    by (simp add: stored_writeTuplesLocked)
next
  fix s :: store and p t :: string and i :: tuple_ident and tu :: tuple
  show "store_ok s \<Longrightarrow> stored s p t i = Some tu \<Longrightarrow> ident_of tu = i"
    by (rule stored_ident)
next
  fix p p' t t' :: string and ins del :: "tuple list" and s :: store
  assume "NUL \<notin> set p" "NUL \<notin> set p'" "(p', t') \<noteq> (p, t)"
  then show "stored (writeTuplesLocked p t ins del s) p' t' = stored s p' t'"
    by (auto simp: stored_writeTuplesLocked scope_inject)
next
  fix s :: store and now :: time and p t ns obj rel :: string
  assume "store_ok s"
  from set_shard [OF this, of p t]
  show "\<exists>ss. mem_ListSubjects now s p t ns obj rel = Inr ss \<and>
      set ss = {t_Subject tu | tu. stored s p t (ident_of tu) = Some tu \<and> t_Namespace tu = ns \<and>
                  t_ObjectID tu = obj \<and> t_Relation tu = rel \<and> ActiveAt tu now}"
    by (auto simp: mem_ListSubjects_def)
qed

subsection \<open>The consistency sequence\<close>

definition seq_at :: "store \<Rightarrow> string \<Rightarrow> int" where
  "seq_at s sk = (case map_of (m_seqs s) sk of None \<Rightarrow> 0 | Some n \<Rightarrow> n)"

lemma mem_ConsistencyToken_seq: "mem_ConsistencyToken p t s = Inr (seq_at s (scope p t))"
  by (simp add: mem_ConsistencyToken_def seq_at_def)

lemma seq_at_bump_seq [simp]: "seq_at (bump_seq sk s) sk' = (if sk' = sk then seq_at s sk + 1 else seq_at s sk')"
  by (simp add: seq_at_def bump_seq_def split: option.split)

text \<open>How a store \<open>s'\<close> may differ from \<open>s\<close> in one shard: its sequence grows, or neither the
  sequence nor the tuples change.\<close>

definition advances :: "store \<Rightarrow> store \<Rightarrow> string \<Rightarrow> bool" where
  "advances s s' sk \<longleftrightarrow> seq_at s sk < seq_at s' sk \<or>
     (seq_at s' sk = seq_at s sk \<and> submap (m_tuples s') sk = submap (m_tuples s) sk)"

lemma advances_same [intro]:
  "m_seqs s' = m_seqs s \<Longrightarrow> m_tuples s' = m_tuples s \<Longrightarrow> advances s s' sk"
  by (simp add: advances_def seq_at_def)

lemma advances_writeTuplesLocked:
  "m_seqs s0 = m_seqs s \<Longrightarrow> m_tuples s0 = m_tuples s \<Longrightarrow> advances s (writeTuplesLocked p t ins del s0) sk"
  by (auto simp: advances_def writeTuplesLocked_def Let_def seq_at_def bump_seq_def split: option.split)

lemma advances_bump_entry:
  "m_seqs s0 = m_seqs s \<Longrightarrow> m_tuples s0 = AList.map_entry sk f (m_tuples s) \<Longrightarrow> advances s (bump_seq sk s0) sk'"
  by (auto simp: advances_def seq_at_def bump_seq_def split: option.split)

lemma mem_step_advances:
  assumes "mem_step s s'"
  shows "advances s s' sk \<or> (\<exists>p u. s' = snd (mem_DeleteAllSubjectTuplesInProject p u s))"
  using assms
proof cases
  case DeleteAllSubjectTuples
  then show ?thesis by blast
next
  case (AssignSeatAndTuple a tu)
  then show ?thesis
    by (auto simp: mem_AssignSeatAndTuple_def Let_def split: prod.split intro!: advances_writeTuplesLocked)
next
  case (DeleteMembershipAndTuples pr te wi u del)
  then show ?thesis
    by (auto simp: mem_DeleteMembershipAndTuples_def deleteMembershipLocked_def Let_def
        intro!: advances_writeTuplesLocked)
next
  case (DeleteWorkspace pr te i)
  then show ?thesis by (auto simp: mem_DeleteWorkspace_def Let_def intro!: advances_bump_entry)
next
  case (DeleteGroup pr te i)
  then show ?thesis by (auto simp: mem_DeleteGroup_def Let_def intro!: advances_bump_entry)
qed (auto simp: store_write_defs Let_def putMembershipLocked_def deleteMembershipLocked_def
    intro!: advances_writeTuplesLocked split: option.split)

end
