(* ===== verification/Model_Json.thy ===== *)
theory Model_Json
  imports Authz_Model
begin

section \<open>The document form of a model (pkg/authz/model_json.go)\<close>

text \<open>
  \<open>rewriteDoc\<close> is the struct \<^verbatim>\<open>RewriteDoc\<close>: a nil slice or pointer is \<^const>\<open>None\<close>, and a slice that is
  present but empty is \<^term>\<open>Some []\<close>, because \<^verbatim>\<open>toRewrite\<close> tells them apart. The theory stops at the
  document: \<^verbatim>\<open>MarshalModel\<close> and \<^verbatim>\<open>ParseModel\<close>, which turn one into bytes and back with
  \<^verbatim>\<open>encoding/json\<close>, are not modelled.
\<close>

subsection \<open>Documents\<close>

datatype rewriteDoc = RewriteDoc
  (rd_This: bool)
  (rd_Computed: string)
  (rd_TupleToUserset: "(string \<times> string) option")
  (rd_Union: "rewriteDoc list option")
  (rd_Intersection: "rewriteDoc list option")
  (rd_Exclusion: "(rewriteDoc \<times> rewriteDoc) option")

type_synonym modelDoc = "(string, (string, rewriteDoc) gomap) gomap"

definition operators_set :: "rewriteDoc \<Rightarrow> nat" where
  "operators_set rd =
     (if rd_This rd then 1 else 0) + (if rd_Computed rd \<noteq> [] then 1 else 0) +
     (if rd_TupleToUserset rd \<noteq> None then 1 else 0) + (if rd_Union rd \<noteq> None then 1 else 0) +
     (if rd_Intersection rd \<noteq> None then 1 else 0) + (if rd_Exclusion rd \<noteq> None then 1 else 0)"

function toRewrite :: "rewriteDoc \<Rightarrow> rewrite result" and toRewrites :: "rewriteDoc list \<Rightarrow> rewrite list result" where
  "toRewrite (RewriteDoc th c ttu u i x) =
     (if operators_set (RewriteDoc th c ttu u i x) \<noteq> 1 then Inl (ErrOther ''rewrite must set exactly one operator'')
      else if th then Inr this_rw
      else if c \<noteq> [] then Inr (computed_rw c)
      else (case ttu of
        Some (tupleset, computed) \<Rightarrow>
          if tupleset = [] \<or> computed = [] then Inl (ErrOther ''tupleToUserset requires tupleset and computed'')
          else Inr (tupleToUserset_rw tupleset computed)
      | None \<Rightarrow> (case u of
          Some docs \<Rightarrow> (case toRewrites docs of
              Inl err \<Rightarrow> Inl err
            | Inr children \<Rightarrow> if length children = 0 then Inl (ErrOther ''union requires at least one child'')
                              else Inr (union_rw children))
        | None \<Rightarrow> (case i of
            Some docs \<Rightarrow> (case toRewrites docs of
                Inl err \<Rightarrow> Inl err
              | Inr children \<Rightarrow> if length children = 0 then Inl (ErrOther ''intersection requires at least one child'')
                                else Inr (intersection_rw children))
          | None \<Rightarrow> (case x of
              Some (dinc, dexc) \<Rightarrow> (case toRewrite dinc of
                  Inl err \<Rightarrow> Inl err
                | Inr inc \<Rightarrow> (case toRewrite dexc of
                    Inl err \<Rightarrow> Inl err
                  | Inr exc \<Rightarrow> Inr (exclusion_rw inc exc)))
            | None \<Rightarrow> Inl (ErrOther ''unreachable''))))))"
| "toRewrites [] = Inr []"
| "toRewrites (d # docs) =
     (case toRewrite d of
        Inl err \<Rightarrow> Inl err
      | Inr rw \<Rightarrow> (case toRewrites docs of Inl err \<Rightarrow> Inl err | Inr out \<Rightarrow> Inr (rw # out)))"
  by pat_completeness auto
termination
  by (relation "measure (\<lambda>x. case x of Inl d \<Rightarrow> size d | Inr ds \<Rightarrow> size_list size ds)") auto

fun fromRewrite :: "rewrite \<Rightarrow> rewriteDoc" where
  "fromRewrite (Rewrite u i x c ts cr) =
     (if length u > 0 then RewriteDoc False [] None (Some (map fromRewrite u)) None None
      else if length i > 0 then RewriteDoc False [] None None (Some (map fromRewrite i)) None
      else (case x of
              Some (inc, exc) \<Rightarrow> RewriteDoc False [] None None None (Some (fromRewrite inc, fromRewrite exc))
            | None \<Rightarrow>
                if c \<noteq> [] then RewriteDoc False c None None None None
                else if ts \<noteq> [] then RewriteDoc False [] (Some (ts, cr)) None None None
                else RewriteDoc True [] None None None None))"

fun toNamespace :: "(string, rewriteDoc) gomap \<Rightarrow> nspace result" where
  "toNamespace [] = Inr []"
| "toNamespace ((rel, rd) # rels) =
     (if rel = [] then Inl (ErrOther ''empty relation name'')
      else (case toRewrite rd of
              Inl err \<Rightarrow> Inl err
            | Inr rw \<Rightarrow> (case toNamespace rels of Inl err \<Rightarrow> Inl err | Inr nm \<Rightarrow> Inr ((rel, rw) # nm))))"

fun ToModel :: "modelDoc \<Rightarrow> model result" where
  "ToModel [] = Inr []"
| "ToModel ((ns, rels) # d) =
     (if ns = [] then Inl (ErrOther ''empty namespace name'')
      else (case toNamespace rels of
              Inl err \<Rightarrow> Inl err
            | Inr nm \<Rightarrow> (case ToModel d of Inl err \<Rightarrow> Inl err | Inr m \<Rightarrow> Inr ((ns, nm) # m))))"

definition FromModel :: "model \<Rightarrow> modelDoc" where
  "FromModel m = map (\<lambda>(ns, rels). (ns, map (\<lambda>(rel, rw). (rel, fromRewrite rw)) rels)) m"

fun checkRefs :: "string list \<Rightarrow> rewrite \<Rightarrow> bool" where
  "checkRefs declared (Rewrite u i x c ts cr) \<longleftrightarrow>
     \<not> (c \<noteq> [] \<and> c \<notin> set declared) \<and> \<not> (ts \<noteq> [] \<and> ts \<notin> set declared) \<and>
     list_all (checkRefs declared) u \<and> list_all (checkRefs declared) i \<and>
     (case x of None \<Rightarrow> True | Some (inc, exc) \<Rightarrow> checkRefs declared inc \<and> checkRefs declared exc)"

definition ValidateModelRefs :: "model \<Rightarrow> unit result" where
  "ValidateModelRefs m =
     (if list_all (\<lambda>(ns, rels). list_all (\<lambda>(rel, rw). checkRefs (map fst rels) rw) rels) m
      then Inr () else Inl (ErrOther ''undeclared relation''))"

subsection \<open>Rewrites that set one operator\<close>

text \<open>The shape the constructors of \<^verbatim>\<open>model.go\<close> build, with named references and non-empty children.\<close>

fun canonical :: "rewrite \<Rightarrow> bool" where
  "canonical (Rewrite u i x c ts cr) \<longleftrightarrow>
     (if u \<noteq> [] then i = [] \<and> x = None \<and> c = [] \<and> ts = [] \<and> cr = [] \<and> list_all canonical u
      else if i \<noteq> [] then x = None \<and> c = [] \<and> ts = [] \<and> cr = [] \<and> list_all canonical i
      else (case x of
              Some (inc, exc) \<Rightarrow> c = [] \<and> ts = [] \<and> cr = [] \<and> canonical inc \<and> canonical exc
            | None \<Rightarrow> if c \<noteq> [] then ts = [] \<and> cr = [] else if ts \<noteq> [] then cr \<noteq> [] else cr = []))"

definition canonical_model :: "model \<Rightarrow> bool" where
  "canonical_model m \<longleftrightarrow> list_all (\<lambda>(ns, rels). ns \<noteq> [] \<and> list_all (\<lambda>(rel, rw). rel \<noteq> [] \<and> canonical rw) rels) m"

lemmas rw_accept = operators_set_def rw_ctor_defs

lemma toRewrites_map:
  "(\<And>r. r \<in> set rs \<Longrightarrow> toRewrite (f r) = Inr r) \<Longrightarrow> toRewrites (map f rs) = Inr rs"
  by (induction rs) auto

lemma toRewrite_fromRewrite: "canonical r \<Longrightarrow> toRewrite (fromRewrite r) = Inr r"
proof (induction r rule: canonical.induct)
  case (1 u i x c ts cr)
  show ?case
  proof (cases "u \<noteq> []")
    case True
    with 1 have "toRewrites (map fromRewrite u) = Inr u"
      by (intro toRewrites_map) (auto simp: list_all_iff)
    with True 1(5) show ?thesis by (simp add: rw_accept)
  next
    case u: False
    show ?thesis
    proof (cases "i \<noteq> []")
      case True
      with u 1 have "toRewrites (map fromRewrite i) = Inr i"
        by (intro toRewrites_map) (auto simp: list_all_iff)
      with u True 1(5) show ?thesis by (simp add: rw_accept)
    next
      case False
      with u 1 show ?thesis
        by (auto simp: rw_accept split: option.splits if_splits)
    qed
  qed
qed

lemma toRewrite_sound:
  "toRewrite d = Inr r \<Longrightarrow> canonical r \<and> fromRewrite r = d"
  "toRewrites ds = Inr rs \<Longrightarrow> list_all canonical rs \<and> map fromRewrite rs = ds"
proof (induction d and ds arbitrary: r and rs rule: toRewrite_toRewrites.induct)
  case (1 th c ttu u i x)
  have one: "operators_set (RewriteDoc th c ttu u i x) = 1" using "1.prems" by (simp split: if_splits)
  consider (this) th "c = []" "ttu = None" "u = None" "i = None" "x = None"
    | (comp) "\<not> th" "c \<noteq> []" "ttu = None" "u = None" "i = None" "x = None"
    | (ttu) a b where "\<not> th" "c = []" "ttu = Some (a, b)" "u = None" "i = None" "x = None"
    | (union) ds where "\<not> th" "c = []" "ttu = None" "u = Some ds" "i = None" "x = None"
    | (inter) ds where "\<not> th" "c = []" "ttu = None" "u = None" "i = Some ds" "x = None"
    | (excl) a b where "\<not> th" "c = []" "ttu = None" "u = None" "i = None" "x = Some (a, b)"
    using one by (cases ttu; cases x; cases u; cases i) (auto simp: operators_set_def split: if_splits)
  then show ?case
  proof cases
    case (union ds)
    have "toRewrites ds = Inr rs \<Longrightarrow> list_all canonical rs \<and> map fromRewrite rs = ds" for rs
      by (rule "1.IH") (use one union in simp_all)
    with union one "1.prems" show ?thesis by (auto simp: rw_ctor_defs split: sum.splits if_splits)
  next
    case (inter ds)
    have "toRewrites ds = Inr rs \<Longrightarrow> list_all canonical rs \<and> map fromRewrite rs = ds" for rs
      by (rule "1.IH") (use one inter in simp_all)
    with inter one "1.prems" show ?thesis by (auto simp: rw_ctor_defs split: sum.splits if_splits)
  next
    case (excl a b)
    from excl one "1.prems" obtain ra rb where ok: "toRewrite a = Inr ra" "toRewrite b = Inr rb" "r = exclusion_rw ra rb"
      by (auto split: sum.splits)
    have "canonical ra \<and> fromRewrite ra = a"
      by (rule "1.IH") (use one excl ok in simp_all)
    moreover have "canonical rb \<and> fromRewrite rb = b"
      by (rule "1.IH") (use one excl ok in simp_all)
    ultimately show ?thesis using excl ok by (simp add: rw_ctor_defs)
  qed (use "1.prems" one in \<open>auto simp: rw_ctor_defs split: if_splits\<close>)
qed (auto split: sum.splits)

lemma toNamespace_from:
  "list_all (\<lambda>(rel, rw). rel \<noteq> [] \<and> canonical rw) nm \<Longrightarrow>
   toNamespace (map (\<lambda>(rel, rw). (rel, fromRewrite rw)) nm) = Inr nm"
  by (induction nm) (auto simp: toRewrite_fromRewrite)

lemma toNamespace_sound:
  "toNamespace d = Inr nm \<Longrightarrow>
   list_all (\<lambda>(rel, rw). rel \<noteq> [] \<and> canonical rw) nm \<and> map (\<lambda>(rel, rw). (rel, fromRewrite rw)) nm = d"
proof (induction d arbitrary: nm rule: toNamespace.induct)
  case (2 rel rd rels)
  from "2.prems" obtain rw nm' where ok: "rel \<noteq> []" "toRewrite rd = Inr rw" "toNamespace rels = Inr nm'" "nm = (rel, rw) # nm'"
    by (simp split: if_splits sum.splits)
  with "2.IH" [of rw nm'] toRewrite_sound(1) [of rd rw] show ?case by simp
qed simp

lemma ToModel_from: "canonical_model m \<Longrightarrow> ToModel (FromModel m) = Inr m"
  by (induction m) (auto simp: toNamespace_from canonical_model_def FromModel_def)

lemma ToModel_sound: "ToModel d = Inr m \<Longrightarrow> canonical_model m \<and> FromModel m = d"
proof (induction d arbitrary: m rule: ToModel.induct)
  case (2 ns rels d)
  from "2.prems" obtain nm m' where ok: "ns \<noteq> []" "toNamespace rels = Inr nm" "ToModel d = Inr m'" "m = (ns, nm) # m'"
    by (simp split: if_splits sum.splits)
  with "2.IH" [of nm m'] toNamespace_sound [of rels nm] show ?case
    by (simp add: canonical_model_def FromModel_def)
qed (simp add: canonical_model_def FromModel_def)

lemma ToModel_iff: "ToModel d = Inr m \<longleftrightarrow> canonical_model m \<and> FromModel m = d"
  using ToModel_from ToModel_sound by blast

subsection \<open>Declared references\<close>

text \<open>The parts of a rewrite, at any depth.\<close>

inductive subrw :: "rewrite \<Rightarrow> rewrite \<Rightarrow> bool" where
  refl: "subrw r r"
| union: "c \<in> set (rw_Union r) \<Longrightarrow> subrw c r' \<Longrightarrow> subrw r r'"
| inter: "c \<in> set (rw_Intersection r) \<Longrightarrow> subrw c r' \<Longrightarrow> subrw r r'"
| incl: "rw_Exclusion r = Some (inc, exc) \<Longrightarrow> subrw inc r' \<Longrightarrow> subrw r r'"
| excl: "rw_Exclusion r = Some (inc, exc) \<Longrightarrow> subrw exc r' \<Longrightarrow> subrw r r'"

definition refs_declared :: "string list \<Rightarrow> rewrite \<Rightarrow> bool" where
  "refs_declared declared r \<longleftrightarrow>
     (rw_Computed r \<noteq> [] \<longrightarrow> rw_Computed r \<in> set declared) \<and>
     (rw_TuplesetRelation r \<noteq> [] \<longrightarrow> rw_TuplesetRelation r \<in> set declared)"

lemma checkRefs_subrw: "subrw r r' \<Longrightarrow> checkRefs declared r \<Longrightarrow> refs_declared declared r'"
proof (induction rule: subrw.induct)
  case (refl r)
  then show ?case by (cases r) (auto simp: refs_declared_def)
next
  case (union c r r')
  then show ?case by (cases r) (auto simp: list_all_iff)
next
  case (inter c r r')
  then show ?case by (cases r) (auto simp: list_all_iff)
next
  case (incl r inc exc r')
  then show ?case by (cases r) auto
next
  case (excl r inc exc r')
  then show ?case by (cases r) auto
qed

lemma checkRefs_complete: "(\<And>r'. subrw r r' \<Longrightarrow> refs_declared declared r') \<Longrightarrow> checkRefs declared r"
proof (induction declared r rule: checkRefs.induct)
  case (1 declared u i x c ts cr)
  have "refs_declared declared (Rewrite u i x c ts cr)" by (rule 1(5)) (rule subrw.refl)
  moreover have "checkRefs declared r" if "r \<in> set u" for r
    using that by (intro 1(1) 1(5)) (auto intro: subrw.union)
  moreover have "checkRefs declared r" if "r \<in> set i" for r
    using that by (intro 1(2) 1(5)) (auto intro: subrw.inter)
  moreover have "checkRefs declared inc" if "x = Some (inc, exc)" for inc exc
    by (rule 1(3), rule that, simp, rule 1(5), rule subrw.incl) (simp_all add: that)
  moreover have "checkRefs declared exc" if "x = Some (inc, exc)" for inc exc
    by (rule 1(4), rule that, simp, rule 1(5), rule subrw.excl) (simp_all add: that)
  ultimately show ?case
    by (auto simp: refs_declared_def list_all_iff split: option.split)
qed

lemma checkRefs_iff: "checkRefs declared r \<longleftrightarrow> (\<forall>r'. subrw r r' \<longrightarrow> refs_declared declared r')"
  using checkRefs_subrw checkRefs_complete by blast

text \<open>C9. Between documents and models the conversions lose nothing: the documents \<^verbatim>\<open>ToModel\<close> accepts are
  exactly the ones \<^verbatim>\<open>FromModel\<close> builds for models with named namespaces and relations whose rewrites
  set one operator each, and it returns that model. The JSON bytes of a document are outside the statement.\<close>

theorem ToModel_exact:
  "ToModel d = Inr m \<longleftrightarrow> canonical_model m \<and> FromModel m = d"
  by (auto simp: ToModel_iff)

text \<open>C10. \<^verbatim>\<open>ValidateModelRefs\<close> accepts a model exactly when every \<open>computed\<close> and tupleset reference,
  at any depth of any rewrite, names a relation its namespace declares, so that evaluating it never
  falls back to the empty \<open>this\<close> rewrite of an unknown name.\<close>

theorem ValidateModelRefs_exact:
  "ValidateModelRefs m = Inr () \<longleftrightarrow>
     (\<forall>ns rels rel rw r. (ns, rels) \<in> set m \<longrightarrow> (rel, rw) \<in> set rels \<longrightarrow> subrw rw r \<longrightarrow>
        (\<forall>c. c \<in> {rw_Computed r, rw_TuplesetRelation r} - {[]} \<longrightarrow> c \<in> fst ` set rels))"
proof -
  have refs: "checkRefs ds rw \<longleftrightarrow>
      (\<forall>r. subrw rw r \<longrightarrow> (\<forall>c. c \<in> {rw_Computed r, rw_TuplesetRelation r} - {[]} \<longrightarrow> c \<in> set ds))" for ds rw
    by (auto simp: checkRefs_iff refs_declared_def)
  have "ValidateModelRefs m = Inr () \<longleftrightarrow>
      (\<forall>ns rels. (ns, rels) \<in> set m \<longrightarrow> (\<forall>rel rw. (rel, rw) \<in> set rels \<longrightarrow> checkRefs (map fst rels) rw))"
    unfolding ValidateModelRefs_def list_all_pairs by simp
  then show ?thesis unfolding refs set_map by meson
qed

theorem ValidateModelRefs_exact_witness:
  "ValidateModelRefs [(''doc'', [(''viewer'', union_rw [this_rw, computed_rw ''owner'']), (''owner'', this_rw)])] = Inr () \<and>
   ValidateModelRefs [(''doc'', [(''viewer'', union_rw [this_rw, computed_rw ''ownr'']), (''owner'', this_rw)])] \<noteq> Inr () \<and>
   ''owner'' \<in> fst ` set [(''viewer'', union_rw [this_rw, computed_rw ''owner'']), (''owner'', this_rw)]"
  (is "ValidateModelRefs ?m = _ \<and> ?bad \<and> _ \<in> fst ` set ?rels")
proof -
  have ok: "ValidateModelRefs ?m = Inr ()" by code_simp
  have bad: ?bad by code_simp
  have "(''doc'', ?rels) \<in> set ?m" by simp
  moreover have "(''viewer'', union_rw [this_rw, computed_rw ''owner'']) \<in> set ?rels" by simp
  moreover have "subrw (union_rw [this_rw, computed_rw ''owner'']) (computed_rw ''owner'')"
    by (rule subrw.union [OF _ subrw.refl]) (simp add: union_rw_def)
  moreover have "''owner'' \<in> {rw_Computed (computed_rw ''owner''), rw_TuplesetRelation (computed_rw ''owner'')} - {[]}"
    by (simp add: computed_rw_def)
  ultimately have "''owner'' \<in> fst ` set ?rels"
    using ok unfolding ValidateModelRefs_exact by blast
  with ok bad show ?thesis by simp
qed

end
