(* ===== verification/GoStd_Text.thy ===== *)
theory GoStd_Text
  imports GoStd "HOL-Library.Word"
begin

section \<open>Text and hashing from Go's standard library\<close>

text \<open>
  \<^verbatim>\<open>strings.TrimSpace\<close>, the lower-casing and the regular-expression replacement of slugs,
  \<^verbatim>\<open>hex.EncodeToString\<close> and \<^verbatim>\<open>sha256.Sum256\<close>, on byte strings.
\<close>

unbundle bit_operations_syntax

subsection \<open>White space\<close>

text \<open>The UTF-8 encodings of the runes \<^verbatim>\<open>unicode.IsSpace\<close> accepts.\<close>

definition bytes :: "nat list \<Rightarrow> string" where
  "bytes ns = map char_of ns"

definition space_runes :: "string list" where
  "space_runes = map bytes
     ([[9], [10], [11], [12], [13], [32], [194, 133], [194, 160], [225, 154, 128]]
      @ map (\<lambda>k. [226, 128, k]) ([128..<139] @ [168, 169, 175])
      @ [[226, 129, 159], [227, 128, 128]])"

text \<open>Dropping leading runes of a given set: the first encoding that matches is removed, repeatedly.\<close>

definition strip_one :: "string list \<Rightarrow> string \<Rightarrow> string option" where
  "strip_one rs s = (case find (\<lambda>r. r \<noteq> [] \<and> starts_with s r) rs of None \<Rightarrow> None | Some r \<Rightarrow> Some (drop (length r) s))"

lemma strip_one_length: "strip_one rs s = Some s' \<Longrightarrow> length s' < length s"
proof -
  assume "strip_one rs s = Some s'"
  then obtain r where r: "find (\<lambda>r. r \<noteq> [] \<and> starts_with s r) rs = Some r" and s': "s' = drop (length r) s"
    by (auto simp: strip_one_def split: option.splits)
  from r have "r \<noteq> []" and "starts_with s r" by (auto simp: find_Some_iff)
  moreover have "s \<noteq> []" using calculation by (cases r; cases s) auto
  ultimately show ?thesis by (simp add: s')
qed

function trimLeft :: "string list \<Rightarrow> string \<Rightarrow> string" where
  "trimLeft rs s = (case strip_one rs s of None \<Rightarrow> s | Some s' \<Rightarrow> trimLeft rs s')"
  by auto
termination
  by (relation "measure (\<lambda>(rs, s). length s)") (auto dest: strip_one_length)

declare trimLeft.simps [simp del]

definition TrimSpace :: "string \<Rightarrow> string" where
  "TrimSpace s = rev (trimLeft (map rev space_runes) (rev (trimLeft space_runes s)))"

subsection \<open>Slugs\<close>

text \<open>
  \<^verbatim>\<open>strings.ToLower\<close> as far as a slug sees it: ASCII letters, and the two runes outside ASCII whose
  lower case is an ASCII letter (the Kelvin sign and the dotted capital I). Every other rune outside
  ASCII has a lower case outside ASCII and is replaced by the next step, so it is left alone.
\<close>

fun slugLower :: "string \<Rightarrow> string" where
  "slugLower [] = []"
| "slugLower (a # s) =
     (if code_of a = 226 \<and> take 2 s = bytes [132, 170] then CHR ''k'' # slugLower (drop 2 s)
      else if code_of a = 196 \<and> take 1 s = bytes [176] then CHR ''i'' # slugLower (drop 1 s)
      else (if 65 \<le> code_of a \<and> code_of a \<le> 90 then char_of (code_of a + 32) else a) # slugLower s)"

definition slug_char :: "char \<Rightarrow> bool" where
  "slug_char c \<longleftrightarrow> (97 \<le> code_of c \<and> code_of c \<le> 122) \<or> is_digit c"

text \<open>\<^verbatim>\<open>ReplaceAllString\<close> with \<^verbatim>\<open>[^a-z0-9]+\<close>: each maximal run of other bytes becomes one dash. The flag
  says that the previous byte was already replaced.\<close>

fun dashRuns :: "bool \<Rightarrow> string \<Rightarrow> string" where
  "dashRuns r [] = []"
| "dashRuns r (c # s) =
     (if slug_char c then c # dashRuns False s
      else if r then dashRuns True s else CHR ''-'' # dashRuns True s)"

definition trimDash :: "string \<Rightarrow> string" where
  "trimDash s = rev (dropWhile (\<lambda>c. c = CHR ''-'') (rev (dropWhile (\<lambda>c. c = CHR ''-'') s)))"

subsection \<open>SHA-256\<close>

definition hex_digit :: "nat \<Rightarrow> char" where
  "hex_digit n = (if n < 10 then char_of (48 + n) else char_of (87 + n))"

definition EncodeToString :: "nat list \<Rightarrow> string" where
  "EncodeToString bs = concat (map (\<lambda>b. [hex_digit (b div 16), hex_digit (b mod 16)]) bs)"

text \<open>
  The constants as the standard describes them: the first 32 bits of the fractional parts of the
  cube roots of the first 64 primes and of the square roots of the first 8. \<open>root_bits\<close> computes
  an integer root bit by bit.
\<close>

fun root_bits :: "nat \<Rightarrow> int \<Rightarrow> nat \<Rightarrow> int \<Rightarrow> int" where
  "root_bits k n 0 r = r"
| "root_bits k n (Suc b) r = root_bits k n b (if (r + 2 ^ b) ^ k \<le> n then r + 2 ^ b else r)"

definition root_fraction :: "nat \<Rightarrow> int \<Rightarrow> 32 word" where
  "root_fraction k p = word_of_int (root_bits k (p * 2 ^ (32 * k)) 40 0)"

definition primes_to :: "int \<Rightarrow> int list" where
  "primes_to m = filter (\<lambda>n. list_all (\<lambda>d. n mod d \<noteq> 0) [2..n - 1]) [2..m]"

definition sha_k :: "32 word list" where
  "sha_k = map (root_fraction 3) (primes_to 311)"

definition rotr :: "nat \<Rightarrow> 32 word \<Rightarrow> 32 word" where
  "rotr n w = (drop_bit n w) OR (push_bit (32 - n) w)"

text \<open>The message schedule, extended one word at a time; the list is kept in order.\<close>

fun sha_schedule :: "nat \<Rightarrow> 32 word list \<Rightarrow> 32 word list" where
  "sha_schedule 0 w = w"
| "sha_schedule (Suc n) w =
     (let i = length w; v1 = w ! (i - 2); v2 = w ! (i - 15);
          t1 = rotr 17 v1 XOR rotr 19 v1 XOR drop_bit 10 v1;
          t2 = rotr 7 v2 XOR rotr 18 v2 XOR drop_bit 3 v2 in
      sha_schedule n (w @ [t1 + w ! (i - 7) + t2 + w ! (i - 16)]))"

type_synonym sha_state = "32 word \<times> 32 word \<times> 32 word \<times> 32 word \<times> 32 word \<times> 32 word \<times> 32 word \<times> 32 word"

definition sha_h0 :: sha_state where
  "sha_h0 = (root_fraction 2 2, root_fraction 2 3, root_fraction 2 5, root_fraction 2 7,
     root_fraction 2 11, root_fraction 2 13, root_fraction 2 17, root_fraction 2 19)"

definition sha_round :: "sha_state \<Rightarrow> 32 word \<times> 32 word \<Rightarrow> sha_state" where
  "sha_round = (\<lambda>(a, b, c, d, e, f, g, h) (k, w).
     let t1 = h + (rotr 6 e XOR rotr 11 e XOR rotr 25 e) + ((e AND f) XOR (NOT e AND g)) + k + w;
         t2 = (rotr 2 a XOR rotr 13 a XOR rotr 22 a) + ((a AND b) XOR (a AND c) XOR (b AND c)) in
     (t1 + t2, a, b, c, d + t1, e, f, g))"

definition sha_add :: "sha_state \<Rightarrow> sha_state \<Rightarrow> sha_state" where
  "sha_add = (\<lambda>(a, b, c, d, e, f, g, h) (a', b', c', d', e', f', g', h').
     (a + a', b + b', c + c', d + d', e + e', f + f', g + g', h + h'))"

fun be_words :: "nat list \<Rightarrow> 32 word list" where
  "be_words (a # b # c # d # bs) = of_nat (((a * 256 + b) * 256 + c) * 256 + d) # be_words bs"
| "be_words _ = []"

function sha_blocks :: "nat list \<Rightarrow> sha_state \<Rightarrow> sha_state" where
  "sha_blocks bs h =
     (if length bs < 64 then h
      else sha_blocks (drop 64 bs)
             (sha_add h (foldl sha_round h (zip sha_k (sha_schedule 48 (be_words (take 64 bs)))))))"
  by auto
termination
  by (relation "measure (\<lambda>(bs, h). length bs)") auto

declare sha_blocks.simps [simp del]

definition be_bytes :: "nat \<Rightarrow> nat \<Rightarrow> nat list" where
  "be_bytes k n = map (\<lambda>i. n div 256 ^ i mod 256) (rev [0..<k])"

definition sha_pad :: "nat list \<Rightarrow> nat list" where
  "sha_pad bs = (let n = length bs in bs @ [128] @ replicate ((119 - n mod 64) mod 64) 0 @ be_bytes 8 (8 * n))"

definition Sum256 :: "nat list \<Rightarrow> nat list" where
  "Sum256 bs = (case sha_blocks (sha_pad bs) sha_h0 of (a, b, c, d, e, f, g, h) \<Rightarrow>
     concat (map (\<lambda>w. be_bytes 4 (unat w)) [a, b, c, d, e, f, g, h]))"

text \<open>The bitwise root is the integer root.\<close>

lemma root_bits_correct:
  assumes "0 \<le> r" "r ^ k \<le> n" "n < (r + 2 ^ b) ^ k"
  shows "root_bits k n b r ^ k \<le> n \<and> n < (root_bits k n b r + 1) ^ k"
  using assms
proof (induction b arbitrary: r)
  case (Suc b)
  show ?case
  proof (cases "(r + 2 ^ b) ^ k \<le> n")
    case True
    moreover have "n < (r + 2 ^ b + 2 ^ b) ^ k" using Suc.prems(3) by (simp add: add.assoc)
    ultimately show ?thesis using Suc.IH [of "r + 2 ^ b"] Suc.prems(1) by simp
  next
    case False
    then show ?thesis using Suc.IH [of r] Suc.prems(1,2) by simp
  qed
qed simp

subsection \<open>The shape of a slug\<close>

definition no_dashes :: "string \<Rightarrow> bool" where
  "no_dashes s \<longleftrightarrow> successively (\<lambda>a b. \<not> (a = CHR ''-'' \<and> b = CHR ''-'')) s"

definition slug_bytes :: "string \<Rightarrow> bool" where
  "slug_bytes s \<longleftrightarrow> list_all (\<lambda>c. slug_char c \<or> c = CHR ''-'') s \<and> no_dashes s"

definition slug_shape :: "string \<Rightarrow> bool" where
  "slug_shape s \<longleftrightarrow> s \<noteq> [] \<and> length s \<le> 48 \<and> slug_bytes s \<and> hd s \<noteq> CHR ''-'' \<and> last s \<noteq> CHR ''-''"

lemma dash_not_slug_char [simp]: "\<not> slug_char CHR ''-''"
  by (simp add: slug_char_def is_digit_def)

lemma no_dashes_Cons:
  "no_dashes (c # s) \<longleftrightarrow> no_dashes s \<and> (c = CHR ''-'' \<longrightarrow> s = [] \<or> hd s \<noteq> CHR ''-'')"
  by (cases s) (auto simp: no_dashes_def)

lemma dashRuns_bytes:
  "slug_bytes (dashRuns r s) \<and> (r \<longrightarrow> dashRuns r s = [] \<or> hd (dashRuns r s) \<noteq> CHR ''-'')"
  by (induction r s rule: dashRuns.induct) (auto simp: slug_bytes_def no_dashes_Cons no_dashes_def [of "[]"])

lemma slug_bytes_sub: "slug_bytes (xs @ ys @ zs) \<Longrightarrow> slug_bytes ys"
  by (auto simp: slug_bytes_def no_dashes_def successively_append_iff)

lemma trimDash_split: "\<exists>xs zs. s = xs @ trimDash s @ zs"
proof -
  let ?P = "\<lambda>c. c = CHR ''-''"
  have "s = takeWhile ?P s @ dropWhile ?P s" by simp
  also have "dropWhile ?P s = rev (takeWhile ?P (rev (dropWhile ?P s)) @ dropWhile ?P (rev (dropWhile ?P s)))"
    by simp
  finally show ?thesis unfolding trimDash_def rev_append by blast
qed

lemma trimDash_ends:
  assumes "trimDash s \<noteq> []"
  shows "hd (trimDash s) \<noteq> CHR ''-'' \<and> last (trimDash s) \<noteq> CHR ''-''"
proof -
  let ?P = "\<lambda>c. c = CHR ''-''"
  let ?d = "dropWhile ?P s"
  from assms have ne: "dropWhile ?P (rev ?d) \<noteq> []" by (simp add: trimDash_def)
  then have last: "last (trimDash s) \<noteq> CHR ''-''"
    using hd_dropWhile [OF ne] by (simp add: trimDash_def last_rev)
  have "rev (takeWhile ?P (rev ?d) @ dropWhile ?P (rev ?d)) = ?d" by simp
  then have eq: "trimDash s @ rev (takeWhile ?P (rev ?d)) = ?d" by (simp only: trimDash_def rev_append)
  have "hd (trimDash s @ rev (takeWhile ?P (rev ?d))) = hd (trimDash s)" using assms by simp
  then have hd: "hd ?d = hd (trimDash s)" by (simp only: eq)
  have "?d \<noteq> []"
  proof
    assume "?d = []"
    from ne [unfolded this] show False by simp
  qed
  from hd_dropWhile [OF this] hd last show ?thesis by simp
qed

lemma trimDash_id: "s \<noteq> [] \<Longrightarrow> hd s \<noteq> CHR ''-'' \<Longrightarrow> last s \<noteq> CHR ''-'' \<Longrightarrow> trimDash s = s"
proof -
  assume s: "s \<noteq> []" "hd s \<noteq> CHR ''-''" "last s \<noteq> CHR ''-''"
  have "dropWhile (\<lambda>c. c = CHR ''-'') xs = xs" if "xs \<noteq> []" "hd xs \<noteq> CHR ''-''" for xs
    using that by (cases xs) auto
  with s show ?thesis by (simp add: trimDash_def hd_rev)
qed

lemma slug_bytes_trimDash: "slug_bytes s \<Longrightarrow> slug_bytes (trimDash s)"
proof -
  assume "slug_bytes s"
  moreover obtain xs zs where "s = xs @ trimDash s @ zs" using trimDash_split by blast
  ultimately show ?thesis using slug_bytes_sub [of xs "trimDash s" zs] by simp
qed

lemma trimDash_length: "length (trimDash s) \<le> length s"
proof -
  let ?P = "\<lambda>c. c = CHR ''-''"
  have "length (dropWhile ?P (rev (dropWhile ?P s))) \<le> length (rev (dropWhile ?P s))"
    by (rule length_dropWhile_le)
  also have "\<dots> \<le> length s" by (simp add: length_dropWhile_le)
  finally show ?thesis by (simp add: trimDash_def)
qed

lemma trimDash_nonempty: "s \<noteq> [] \<Longrightarrow> hd s \<noteq> CHR ''-'' \<Longrightarrow> trimDash s \<noteq> []"
  by (cases s) (auto simp: trimDash_def dropWhile_append dropWhile_eq_Nil_conv)

lemma dashRuns_id: "slug_bytes s \<Longrightarrow> (r \<longrightarrow> s = [] \<or> hd s \<noteq> CHR ''-'') \<Longrightarrow> dashRuns r s = s"
  by (induction r s rule: dashRuns.induct) (auto simp: slug_bytes_def no_dashes_Cons)

lemma slug_char_ascii: "slug_char c \<or> c = CHR ''-'' \<Longrightarrow>
    code_of c \<noteq> 226 \<and> code_of c \<noteq> 196 \<and> \<not> (65 \<le> code_of c \<and> code_of c \<le> 90) \<and> 45 \<le> code_of c \<and> code_of c < 128"
  by (auto simp: slug_char_def is_digit_def)

lemma slugLower_id: "list_all (\<lambda>c. slug_char c \<or> c = CHR ''-'') s \<Longrightarrow> slugLower s = s"
proof (induction s)
  case (Cons a s)
  then have "slug_char a \<or> a = CHR ''-''" by simp
  from slug_char_ascii [OF this] Cons show ?case by auto
qed simp

lemma space_rune_ends:
  "r \<in> set space_runes \<Longrightarrow> r \<noteq> [] \<and> \<not> (45 \<le> code_of (hd r) \<and> code_of (hd r) < 128) \<and>
    \<not> (45 \<le> code_of (last r) \<and> code_of (last r) < 128)"
  by (auto simp: space_runes_def bytes_def upt_rec of_char_of)

lemma trimLeft_id:
  assumes "\<And>r. r \<in> set rs \<Longrightarrow> r \<noteq> [] \<and> (s = [] \<or> hd r \<noteq> hd s)"
  shows "trimLeft rs s = s"
proof -
  have "\<not> starts_with s r" if "r \<in> set rs" for r
    using assms [OF that] by (cases r; cases s) auto
  then have "strip_one rs s = None"
    by (auto simp: strip_one_def find_None_iff split: option.split)
  then show ?thesis by (simp add: trimLeft.simps)
qed

lemma TrimSpace_id:
  assumes "list_all (\<lambda>c. slug_char c \<or> c = CHR ''-'') s"
  shows "TrimSpace s = s"
proof (cases "s = []")
  case True
  then show ?thesis
    using trimLeft_id [of space_runes "[]"] trimLeft_id [of "map rev space_runes" "[]"] space_rune_ends
    by (auto simp: TrimSpace_def)
next
  case False
  then have hd: "slug_char (hd s) \<or> hd s = CHR ''-''" and last: "slug_char (last s) \<or> last s = CHR ''-''"
    using assms by (auto simp: list_all_iff)
  have "trimLeft space_runes s = s"
    by (rule trimLeft_id) (use space_rune_ends slug_char_ascii [OF hd] in force)
  moreover have "trimLeft (map rev space_runes) (rev s) = rev s"
    by (rule trimLeft_id) (use space_rune_ends slug_char_ascii [OF last] False in \<open>force simp: hd_rev\<close>)
  ultimately show ?thesis by (simp add: TrimSpace_def)
qed

end
