(* ===== verification/Service_Core.thy ===== *)
theory Service_Core
  imports Memory_Laws Model_Json GoStd_Text Authz_CheckSet
begin

section \<open>The service and its project resolver (internal/service: service.go, projects.go, auditlog.go, decisionlog.go)\<close>

text \<open>
  The state of \<^verbatim>\<open>Service\<close>: the repository (the in-memory driver), the resolver with its cache, the
  configured ceilings and what the loggers have received. A method runs as one step; the clock it
  reads is its argument \<open>now\<close> (one reading per request), and a generated identifier or token is an
  argument too. The concurrency of \<^verbatim>\<open>singleflight\<close> (one load for simultaneous callers) is not
  visible in a single step. Structured logging and metrics are left out. The read counters of
  the engine's backstop collector are observability only, so no collector is installed.
\<close>

subsection \<open>State\<close>

record principal =
  p_UserID :: string
  p_ProjectID :: string
  p_TenantID :: string
  p_Caller :: string

record resolved =
  rs_model :: "model option"
  rs_suspended :: bool
  rs_dataRegion :: string
  rs_maxCheckReads :: int
  rs_at :: time

record modelResolver =
  mr_ttl :: int
  mr_max :: int
  mr_cache :: "(string, resolved) gomap"

record decisionRecord =
  dr_ProjectID :: string
  dr_TenantID :: string
  dr_Namespace :: string
  dr_ObjectID :: string
  dr_Relation :: string
  dr_SubjectUserID :: string
  dr_SubjectSet :: "subjectSet option"
  dr_Allowed :: bool
  dr_Err :: "go_error option"
  dr_Caller :: string
  dr_DecidedAt :: time

datatype tupleOpKind = TupleOpInsert | TupleOpDelete

record tupleChangeRecord =
  tc_Op :: tupleOpKind
  tc_ProjectID :: string
  tc_TenantID :: string
  tc_Namespace :: string
  tc_ObjectID :: string
  tc_Relation :: string
  tc_SubjectUserID :: string
  tc_SubjectSet :: "subjectSet option"
  tc_Wildcard :: bool
  tc_Caller :: string
  tc_At :: time

datatype adminAction = AdminActionCreateProject | AdminActionUpdateProject

record adminAuditRecord =
  aa_Action :: adminAction
  aa_ProjectID :: string
  aa_NewStatus :: string
  aa_StatusChanged :: bool
  aa_ModelChanged :: bool
  aa_RegionChanged :: bool
  aa_BudgetChanged :: bool
  aa_At :: time

datatype auditEvent = TupleChange tupleChangeRecord | AdminMutation adminAuditRecord

record service =
  s_repo :: store
  s_resolver :: modelResolver
  s_maxListObjects :: int
  s_maxExpandNodes :: int
  s_maxCheckReads :: int
  s_decisionLog :: "decisionRecord list option"
  s_auditLog :: "auditEvent list option"
  s_dataRegion :: string

type_synonym 'a svc = "('a, service) operation"

text \<open>A repository read and a repository write, as operations of the service.\<close>

definition repo_read :: "(store \<Rightarrow> 'a result) \<Rightarrow> 'a svc" where
  "repo_read f s = (f (s_repo s), s)"

definition repo_write :: "(store \<Rightarrow> 'a result \<times> store) \<Rightarrow> 'a svc" where
  "repo_write f s = (case f (s_repo s) of (r, m) \<Rightarrow> (r, s\<lparr>s_repo := m\<rparr>))"

subsection \<open>Construction\<close>

definition resolverTTL :: int where "resolverTTL = 30 * 1000000000"
definition resolverMaxEntries :: int where "resolverMaxEntries = 4096"
definition DefaultMaxListObjects :: int where "DefaultMaxListObjects = 1000"
definition DefaultMaxExpandNodes :: int where "DefaultMaxExpandNodes = 10000"
definition DefaultMaxCheckReads :: int where "DefaultMaxCheckReads = 5000"

definition newModelResolver :: modelResolver where
  "newModelResolver = \<lparr>mr_ttl = resolverTTL, mr_max = resolverMaxEntries, mr_cache = []\<rparr>"

type_synonym svc_option = "service \<Rightarrow> service"

definition svc_WithMaxListObjects :: "int \<Rightarrow> svc_option" where
  "svc_WithMaxListObjects n s = (if n > 0 then s\<lparr>s_maxListObjects := n\<rparr> else s)"

definition svc_WithDataRegion :: "string \<Rightarrow> svc_option" where
  "svc_WithDataRegion region s = s\<lparr>s_dataRegion := region\<rparr>"

definition svc_WithMaxExpandNodes :: "int \<Rightarrow> svc_option" where
  "svc_WithMaxExpandNodes n s = (if n > 0 then s\<lparr>s_maxExpandNodes := n\<rparr> else s)"

definition svc_WithMaxCheckReads :: "int \<Rightarrow> svc_option" where
  "svc_WithMaxCheckReads n s = (if n > 0 then s\<lparr>s_maxCheckReads := n\<rparr> else s)"

definition svc_WithAuditLogger :: "auditEvent list option \<Rightarrow> svc_option" where
  "svc_WithAuditLogger l s = s\<lparr>s_auditLog := l\<rparr>"

definition svc_WithDecisionLogger :: "decisionRecord list option \<Rightarrow> svc_option" where
  "svc_WithDecisionLogger l s = s\<lparr>s_decisionLog := l\<rparr>"

definition svc_New :: "store \<Rightarrow> svc_option list \<Rightarrow> service" where
  "svc_New repo opts =
     foldl (\<lambda>s opt. opt s)
       \<lparr>s_repo = repo, s_resolver = newModelResolver, s_maxListObjects = DefaultMaxListObjects,
        s_maxExpandNodes = DefaultMaxExpandNodes, s_maxCheckReads = DefaultMaxCheckReads,
        s_decisionLog = None, s_auditLog = None, s_dataRegion = []\<rparr> opts"

subsection \<open>The resolver\<close>

definition modelOrDefault :: "resolved \<Rightarrow> model" where
  "modelOrDefault e = (case rs_model e of None \<Rightarrow> DefaultModel | Some m \<Rightarrow> m)"

definition resolver_lookup :: "time \<Rightarrow> string \<Rightarrow> modelResolver \<Rightarrow> resolved option \<times> modelResolver" where
  "resolver_lookup now projectID r =
     (case map_of (mr_cache r) projectID of
        None \<Rightarrow> (None, r)
      | Some e \<Rightarrow>
          if now - rs_at e > mr_ttl r then (None, r\<lparr>mr_cache := AList.delete projectID (mr_cache r)\<rparr>)
          else (Some e, r))"

definition resolver_load :: "time \<Rightarrow> string \<Rightarrow> store \<Rightarrow> resolved result" where
  "resolver_load now projectID repo =
     (case mem_GetProject projectID repo of
        Inl err \<Rightarrow>
          if errors_Is err ErrNotFound
          then Inr \<lparr>rs_model = None, rs_suspended = False, rs_dataRegion = [], rs_maxCheckReads = 0, rs_at = now\<rparr>
          else Inl err
      | Inr p \<Rightarrow>
          Inr \<lparr>rs_model = (if length (pr_Model p) > 0
                 then Some (foldl (\<lambda>m (ns, rels). AList.update ns rels m) DefaultModel (pr_Model p)) else None),
               rs_suspended = (pr_Status p = ProjectSuspended), rs_dataRegion = pr_DataRegion p,
               rs_maxCheckReads = pr_MaxCheckReads p, rs_at = now\<rparr>)"

text \<open>The second loop of \<^verbatim>\<open>evictLocked\<close> drops entries, in the order of the range, while the cache is
  not under its cap.\<close>

fun evict_loop :: "int \<Rightarrow> (string, resolved) gomap \<Rightarrow> (string, resolved) gomap" where
  "evict_loop mx [] = []"
| "evict_loop mx (e # cache) = (if int (length (e # cache)) < mx then e # cache else evict_loop mx cache)"

definition evictLocked :: "time \<Rightarrow> modelResolver \<Rightarrow> modelResolver" where
  "evictLocked now r =
     r\<lparr>mr_cache := evict_loop (mr_max r) (filter (\<lambda>(k, v). \<not> (now - rs_at v > mr_ttl r)) (mr_cache r))\<rparr>"

definition resolver_store :: "time \<Rightarrow> string \<Rightarrow> resolved \<Rightarrow> modelResolver \<Rightarrow> modelResolver" where
  "resolver_store now projectID e r =
     (let r1 = (if int (length (mr_cache r)) \<ge> mr_max r then evictLocked now r else r) in
      r1\<lparr>mr_cache := AList.update projectID e (mr_cache r1)\<rparr>)"

definition invalidate :: "string \<Rightarrow> unit svc" where
  "invalidate projectID s =
     (Inr (), s\<lparr>s_resolver := (s_resolver s)\<lparr>mr_cache := AList.delete projectID (mr_cache (s_resolver s))\<rparr>\<rparr>)"

definition resolve :: "time \<Rightarrow> string \<Rightarrow> resolved svc" where
  "resolve now projectID s =
     (case resolver_lookup now projectID (s_resolver s) of
        (Some e, r) \<Rightarrow> (Inr e, s\<lparr>s_resolver := r\<rparr>)
      | (None, r) \<Rightarrow>
          (case resolver_lookup now projectID r of
             (Some e, r') \<Rightarrow> (Inr e, s\<lparr>s_resolver := r'\<rparr>)
           | (None, r') \<Rightarrow>
               (case resolver_load now projectID (s_repo s) of
                  Inl err \<Rightarrow> (Inl err, s\<lparr>s_resolver := r'\<rparr>)
                | Inr e \<Rightarrow> (Inr e, s\<lparr>s_resolver := resolver_store now projectID e r'\<rparr>))))"

definition ModelFor :: "time \<Rightarrow> string \<Rightarrow> model svc" where
  "ModelFor now projectID = bindR (resolve now projectID) (\<lambda>e. ret (modelOrDefault e))"

subsection \<open>Guards\<close>

definition regionServable :: "resolved \<Rightarrow> unit svc" where
  "regionServable res s =
     (if s_dataRegion s = [] \<or> rs_dataRegion res = [] \<or> rs_dataRegion res = s_dataRegion s then (Inr (), s)
      else (Inl ErrRegionNotServable, s))"

definition ensureRegion :: "time \<Rightarrow> principal \<Rightarrow> unit svc" where
  "ensureRegion now p s =
     (if s_dataRegion s = [] then (Inr (), s)
      else bindR (resolve now (p_ProjectID p)) regionServable s)"

definition EnsureServable :: "time \<Rightarrow> principal \<Rightarrow> unit svc" where
  "EnsureServable = ensureRegion"

definition ensureProjectActive :: "time \<Rightarrow> principal \<Rightarrow> unit svc" where
  "ensureProjectActive now p =
     bindR (resolve now (p_ProjectID p)) (\<lambda>res.
     bindR (regionServable res) (\<lambda>_.
     if rs_suspended res then fail ErrFailedPrecondition else ret ()))"

definition mapBudgetErr :: "'a result \<Rightarrow> 'a result" where
  "mapBudgetErr r =
     (case r of Inl err \<Rightarrow> Inl (if errors_Is err ErrEvalBudgetExceeded then ErrResourceExhausted else err)
      | Inr x \<Rightarrow> Inr x)"

text \<open>
  The engine built by \<^verbatim>\<open>New\<close>: its model resolver and its tuple store are the service's own. The
  engine asks the resolver once per evaluation, so the effect of that call on the cache is the
  effect of \<open>ModelFor\<close>.
\<close>

definition svc_engine :: "time \<Rightarrow> service \<Rightarrow> engine" where
  "svc_engine now s =
     WithMaxListObjects (s_maxListObjects s) (WithMaxReads (s_maxCheckReads s)
       (NewEngine (Some (\<lambda>projectID. fst (ModelFor now projectID s)))
          (mem_ListSubjects now (s_repo s)) (Some (mem_ListObjectIDs now (s_repo s)))))"

definition allowed :: "time \<Rightarrow> principal \<Rightarrow> string \<Rightarrow> string \<Rightarrow> bool svc" where
  "allowed now p workspaceID rel s =
     (mapBudgetErr (fst (Check (svc_engine now s) None (p_ProjectID p) (p_TenantID p) ''workspace'' workspaceID rel (p_UserID p) [])),
      snd (ModelFor now (p_ProjectID p) s))"

definition requireWorkspace :: "time \<Rightarrow> principal \<Rightarrow> string \<Rightarrow> string \<Rightarrow> workspace svc" where
  "requireWorkspace now p workspaceID rel =
     bindR (repo_read (mem_GetWorkspace (p_ProjectID p) (p_TenantID p) workspaceID)) (\<lambda>w.
     bindR (allowed now p workspaceID rel) (\<lambda>ok.
     if \<not> ok then fail ErrPermissionDenied else ret w))"

subsection \<open>Helpers\<close>

definition hashToken :: "string \<Rightarrow> string" where
  "hashToken tok = EncodeToString (Sum256 (map code_of tok))"

definition slugify :: "string \<Rightarrow> string" where
  "slugify s =
     (let s1 = trimDash (dashRuns False (slugLower (TrimSpace s)));
          s2 = (if s1 = [] then ''ws'' else s1) in
      if length s2 > 48 then trimDash (take 48 s2) else s2)"

definition trimName :: "string \<Rightarrow> string" where
  "trimName s = TrimSpace s"

definition userTuple :: "string \<Rightarrow> string \<Rightarrow> string \<Rightarrow> string \<Rightarrow> tuple" where
  "userTuple ns obj rel userID =
     \<lparr>t_Namespace = ns, t_ObjectID = obj, t_Relation = rel,
      t_Subject = \<lparr>UserID = userID, s_Set = None, Wildcard = False, s_Condition = None\<rparr>, t_ExpiresAt = None\<rparr>"

subsection \<open>Projects\<close>

definition maxDataRegionLen :: nat where "maxDataRegionLen = 64"
definition MinMaxCheckReads :: int where "MinMaxCheckReads = 100"

definition ValidateRegion :: "string \<Rightarrow> unit result" where
  "ValidateRegion region =
     (if region = [] then Inr ()
      else if length region > maxDataRegionLen then Inl ErrInvalidArgument
      else if \<not> list_all (\<lambda>c. 97 \<le> code_of c \<and> code_of c \<le> 122 \<or> 48 \<le> code_of c \<and> code_of c \<le> 57 \<or>
                              c = CHR ''-'' \<or> c = CHR ''_'') region then Inl ErrInvalidArgument
      else Inr ())"

definition ValidateMaxCheckReads :: "int \<Rightarrow> unit result" where
  "ValidateMaxCheckReads n = (if n > 0 \<and> n < MinMaxCheckReads then Inl ErrInvalidArgument else Inr ())"

text \<open>\<^verbatim>\<open>validateModel\<close> sends the document of the model through JSON and back before it converts it again. Of the
  bytes only the emptiness of names matters to that conversion, and encoding keeps it; they are left out here.\<close>

definition validateModel :: "model \<Rightarrow> unit result" where
  "validateModel m =
     (if length m = 0 then Inr ()
      else (case ToModel (FromModel m) of
              Inl _ \<Rightarrow> Inl ErrInvalidArgument
            | Inr _ \<Rightarrow> (case ValidateModelRefs m of Inl _ \<Rightarrow> Inl ErrInvalidArgument | Inr _ \<Rightarrow> Inr ())))"

definition lift :: "'a result \<Rightarrow> 'a svc" where
  "lift r s = (r, s)"

definition LogAdminMutation :: "adminAuditRecord \<Rightarrow> unit svc" where
  "LogAdminMutation rec s =
     (Inr (), s\<lparr>s_auditLog := map_option (\<lambda>l. l @ [AdminMutation rec]) (s_auditLog s)\<rparr>)"

definition svc_CreateProject :: "time \<Rightarrow> string \<Rightarrow> string \<Rightarrow> model \<Rightarrow> string \<Rightarrow> int \<Rightarrow> project svc" where
  "svc_CreateProject now i name model dataRegion maxCR =
     (if i = [] then fail ErrInvalidArgument
      else if HasControlChar i then fail ErrInvalidArgument
      else
      bindR (lift (validateModel model)) (\<lambda>_.
      bindR (lift (ValidateRegion dataRegion)) (\<lambda>_.
      bindR (lift (ValidateMaxCheckReads maxCR)) (\<lambda>_.
      let p = \<lparr>pr_ID = i, pr_Name = name, pr_Status = ProjectActive, pr_Model = model, pr_DataRegion = dataRegion,
               pr_MaxCheckReads = maxCR, pr_CreatedAt = now, pr_UpdatedAt = now\<rparr> in
      bindR (repo_write (mem_CreateProject p)) (\<lambda>_.
      bindR (invalidate i) (\<lambda>_.
      bindR (LogAdminMutation \<lparr>aa_Action = AdminActionCreateProject, aa_ProjectID = i, aa_NewStatus = pr_Status p,
               aa_StatusChanged = True, aa_ModelChanged = length model > 0, aa_RegionChanged = dataRegion \<noteq> [],
               aa_BudgetChanged = maxCR > 0, aa_At = now\<rparr>) (\<lambda>_.
      ret p)))))))"

definition svc_GetProject :: "string \<Rightarrow> project svc" where
  "svc_GetProject i = (if i = [] then fail ErrInvalidArgument else repo_read (mem_GetProject i))"

definition svc_ListProjects :: "project list svc" where
  "svc_ListProjects = repo_read mem_ListProjects"

definition svc_UpdateProject ::
  "time \<Rightarrow> string \<Rightarrow> string \<Rightarrow> string \<Rightarrow> model \<Rightarrow> string \<Rightarrow> bool \<Rightarrow> int \<Rightarrow> bool \<Rightarrow> project svc" where
  "svc_UpdateProject now i name status model dataRegion clearRegion maxCR clearBudget =
     (if i = [] then fail ErrInvalidArgument
      else if HasControlChar i then fail ErrInvalidArgument
      else if status \<noteq> [] \<and> status \<noteq> ProjectActive \<and> status \<noteq> ProjectSuspended then fail ErrInvalidArgument
      else
      bindR (lift (validateModel model)) (\<lambda>_.
      bindR (lift (ValidateRegion dataRegion)) (\<lambda>_.
      if clearRegion \<and> dataRegion \<noteq> [] then fail ErrInvalidArgument else
      bindR (lift (ValidateMaxCheckReads maxCR)) (\<lambda>_.
      if clearBudget \<and> maxCR > 0 then fail ErrInvalidArgument else
      bindR (repo_read (mem_GetProject i)) (\<lambda>p0.
      let p1 = (if name \<noteq> [] then p0\<lparr>pr_Name := name\<rparr> else p0);
          p2 = (if status \<noteq> [] then p1\<lparr>pr_Status := status\<rparr> else p1);
          p3 = (if length model > 0 then p2\<lparr>pr_Model := model\<rparr> else p2);
          p4 = (if clearRegion then p3\<lparr>pr_DataRegion := []\<rparr>
                else if dataRegion \<noteq> [] then p3\<lparr>pr_DataRegion := dataRegion\<rparr> else p3);
          p5 = (if clearBudget then p4\<lparr>pr_MaxCheckReads := 0\<rparr>
                else if maxCR > 0 then p4\<lparr>pr_MaxCheckReads := maxCR\<rparr> else p4);
          p = p5\<lparr>pr_UpdatedAt := now\<rparr> in
      bindR (repo_write (mem_UpdateProject p)) (\<lambda>_.
      bindR (invalidate i) (\<lambda>_.
      bindR (LogAdminMutation \<lparr>aa_Action = AdminActionUpdateProject, aa_ProjectID = i, aa_NewStatus = pr_Status p,
               aa_StatusChanged = (status \<noteq> [] \<and> status \<noteq> pr_Status p0), aa_ModelChanged = length model > 0,
               aa_RegionChanged = (pr_DataRegion p \<noteq> pr_DataRegion p0),
               aa_BudgetChanged = (pr_MaxCheckReads p \<noteq> pr_MaxCheckReads p0), aa_At = now\<rparr>) (\<lambda>_.
      ret p))))))))"

definition EnsureDefaultProject :: "time \<Rightarrow> string \<Rightarrow> unit svc" where
  "EnsureDefaultProject now i =
     (if i = [] then ret ()
      else tryR (repo_read (mem_GetProject i)) (\<lambda>r.
        case r of
          Inr existing \<Rightarrow> (\<lambda>s.
            if s_dataRegion s \<noteq> [] \<and> pr_DataRegion existing \<noteq> [] \<and> pr_DataRegion existing \<noteq> s_dataRegion s
            then (Inl ErrFailedPrecondition, s) else (Inr (), s))
        | Inl err \<Rightarrow>
            if \<not> isNotFound err then fail err
            else tryR (svc_CreateProject now i ''Default'' [] [] 0) (\<lambda>r2.
              case r2 of
                Inl err2 \<Rightarrow> if isAlreadyExists err2 then ret () else fail err2
              | Inr _ \<Rightarrow> ret ())))"

end
