(* ===== verification/Service_Ops.thy ===== *)
theory Service_Ops
  imports Service_Core
begin

section \<open>The operations of the service (internal/service: workspaces, members, ownership, invitations, groups, seats, authz, batchcheck)\<close>

text \<open>
  One definition per method of \<^verbatim>\<open>Service\<close>, in the order of the source files. An early return on an
  error is \<^const>\<open>bindR\<close>; where the code inspects the error it is \<^const>\<open>tryR\<close>.
\<close>

subsection \<open>Workspaces (workspaces.go)\<close>

definition createWorkspaceWithOwner :: "workspace \<Rightarrow> unit svc" where
  "createWorkspaceWithOwner w =
     bindR (repo_write (mem_CreateWorkspace w)) (\<lambda>_.
     repo_write (mem_PutMembershipAndTuples
       \<lparr>mb_ProjectID = ws_ProjectID w, mb_TenantID = ws_TenantID w, mb_WorkspaceID = ws_ID w, mb_UserID = ws_OwnerUserID w,
        mb_Role = RoleOwner, mb_Status = StatusActive, mb_CreatedAt = ws_CreatedAt w, mb_UpdatedAt = ws_UpdatedAt w\<rparr>
       [userTuple ''workspace'' (ws_ID w) RoleOwner (ws_OwnerUserID w)] []))"

definition EnsurePersonalWorkspace :: "time \<Rightarrow> string \<Rightarrow> principal \<Rightarrow> workspace svc" where
  "EnsurePersonalWorkspace now newID p =
     tryR (repo_read (mem_PersonalWorkspace (p_ProjectID p) (p_TenantID p) (p_UserID p))) (\<lambda>r.
       case r of
         Inr w \<Rightarrow> ret w
       | Inl err \<Rightarrow>
           if \<not> isNotFound err then fail err
           else (let w = \<lparr>ws_ID = newID, ws_ProjectID = p_ProjectID p, ws_TenantID = p_TenantID p, ws_Slug = ''personal'',
                          ws_DisplayName = ''Personal'', ws_Type = TypePersonal, ws_OwnerUserID = p_UserID p,
                          ws_CreatedAt = now, ws_UpdatedAt = now\<rparr> in
             tryR (createWorkspaceWithOwner w) (\<lambda>r2.
               case r2 of
                 Inr _ \<Rightarrow> ret w
               | Inl err2 \<Rightarrow>
                   if isAlreadyExists err2
                   then repo_read (mem_PersonalWorkspace (p_ProjectID p) (p_TenantID p) (p_UserID p))
                   else fail err2)))"

definition svc_CreateWorkspace :: "time \<Rightarrow> string \<Rightarrow> principal \<Rightarrow> string \<Rightarrow> string \<Rightarrow> workspace svc" where
  "svc_CreateWorkspace now newID p displayName slug =
     bindR (ensureProjectActive now p) (\<lambda>_.
     let name = trimName displayName in
     if name = [] then fail ErrInvalidArgument
     else (let sl = (if slug = [] then slugify name else slugify slug);
               w = \<lparr>ws_ID = newID, ws_ProjectID = p_ProjectID p, ws_TenantID = p_TenantID p, ws_Slug = sl,
                    ws_DisplayName = name, ws_Type = TypeTeam, ws_OwnerUserID = p_UserID p,
                    ws_CreatedAt = now, ws_UpdatedAt = now\<rparr> in
           bindR (createWorkspaceWithOwner w) (\<lambda>_. ret w)))"

definition svc_GetWorkspace :: "time \<Rightarrow> principal \<Rightarrow> string \<Rightarrow> workspace svc" where
  "svc_GetWorkspace now p i = requireWorkspace now p i RoleGuest"

definition svc_ListWorkspaces :: "time \<Rightarrow> string \<Rightarrow> principal \<Rightarrow> workspace list svc" where
  "svc_ListWorkspaces now newID p =
     bindR (EnsurePersonalWorkspace now newID p) (\<lambda>_.
     repo_read (mem_WorkspacesForUser (p_ProjectID p) (p_TenantID p) (p_UserID p)))"

definition svc_UpdateWorkspace :: "time \<Rightarrow> principal \<Rightarrow> string \<Rightarrow> string \<Rightarrow> workspace svc" where
  "svc_UpdateWorkspace now p i displayName =
     bindR (requireWorkspace now p i RoleAdmin) (\<lambda>w.
     let name = trimName displayName in
     if name = [] then fail ErrInvalidArgument
     else (let w' = w\<lparr>ws_DisplayName := name, ws_UpdatedAt := now\<rparr> in
           bindR (repo_write (mem_UpdateWorkspace w')) (\<lambda>_. ret w')))"

definition svc_DeleteWorkspace :: "time \<Rightarrow> principal \<Rightarrow> string \<Rightarrow> unit svc" where
  "svc_DeleteWorkspace now p i =
     bindR (requireWorkspace now p i RoleOwner) (\<lambda>w.
     if ws_Type w = TypePersonal then fail ErrFailedPrecondition
     else repo_write (mem_DeleteWorkspace (p_ProjectID p) (p_TenantID p) i))"

subsection \<open>Members (members.go)\<close>

definition putMember :: "time \<Rightarrow> principal \<Rightarrow> string \<Rightarrow> string \<Rightarrow> string \<Rightarrow> membership svc" where
  "putMember now p workspaceID userID role =
     bindR (ensureProjectActive now p) (\<lambda>_.
     let m = \<lparr>mb_ProjectID = p_ProjectID p, mb_TenantID = p_TenantID p, mb_WorkspaceID = workspaceID, mb_UserID = userID,
              mb_Role = role, mb_Status = StatusActive, mb_CreatedAt = now, mb_UpdatedAt = now\<rparr> in
     bindR (repo_write (mem_PutMembershipAndTuples m [userTuple ''workspace'' workspaceID role userID] [])) (\<lambda>_. ret m))"

definition svc_AddMember :: "time \<Rightarrow> principal \<Rightarrow> string \<Rightarrow> string \<Rightarrow> string \<Rightarrow> membership svc" where
  "svc_AddMember now p workspaceID userID role =
     (if \<not> Role_Valid role \<or> role = RoleOwner then fail ErrInvalidArgument
      else if userID = [] then fail ErrInvalidArgument
      else bindR (requireWorkspace now p workspaceID RoleAdmin) (\<lambda>w.
        if ws_Type w = TypePersonal then fail ErrFailedPrecondition
        else tryR (repo_read (mem_GetMembership (p_ProjectID p) (p_TenantID p) workspaceID userID)) (\<lambda>r.
          case r of
            Inr _ \<Rightarrow> fail ErrAlreadyExists
          | Inl err \<Rightarrow> if \<not> isNotFound err then fail err else putMember now p workspaceID userID role)))"

definition svc_UpdateMemberRole :: "time \<Rightarrow> principal \<Rightarrow> string \<Rightarrow> string \<Rightarrow> string \<Rightarrow> membership svc" where
  "svc_UpdateMemberRole now p workspaceID userID role =
     (if \<not> Role_Valid role \<or> role = RoleOwner then fail ErrInvalidArgument
      else bindR (requireWorkspace now p workspaceID RoleAdmin) (\<lambda>_.
        bindR (repo_read (mem_GetMembership (p_ProjectID p) (p_TenantID p) workspaceID userID)) (\<lambda>m.
        if mb_Role m = RoleOwner then fail ErrFailedPrecondition
        else if mb_Status m = StatusSuspended then fail ErrFailedPrecondition
        else if mb_Role m = role then ret m
        else (let m' = m\<lparr>mb_Role := role, mb_UpdatedAt := now\<rparr> in
              bindR (repo_write (mem_PutMembershipAndTuples m'
                [userTuple ''workspace'' workspaceID role userID]
                [userTuple ''workspace'' workspaceID (mb_Role m) userID])) (\<lambda>_. ret m')))))"

definition svc_RemoveMember :: "time \<Rightarrow> principal \<Rightarrow> string \<Rightarrow> string \<Rightarrow> unit svc" where
  "svc_RemoveMember now p workspaceID userID =
     bindR (requireWorkspace now p workspaceID RoleAdmin) (\<lambda>_.
     bindR (repo_read (mem_GetMembership (p_ProjectID p) (p_TenantID p) workspaceID userID)) (\<lambda>m.
     if mb_Role m = RoleOwner then fail ErrFailedPrecondition
     else repo_write (mem_DeleteMembershipAndTuples (p_ProjectID p) (p_TenantID p) workspaceID userID
            [userTuple ''workspace'' workspaceID (mb_Role m) userID])))"

definition svc_ListMembers :: "time \<Rightarrow> principal \<Rightarrow> string \<Rightarrow> membership list svc" where
  "svc_ListMembers now p workspaceID =
     bindR (requireWorkspace now p workspaceID RoleGuest) (\<lambda>_.
     repo_read (mem_ListMembers (p_ProjectID p) (p_TenantID p) workspaceID))"

definition svc_SuspendMember :: "time \<Rightarrow> principal \<Rightarrow> string \<Rightarrow> string \<Rightarrow> membership svc" where
  "svc_SuspendMember now p workspaceID userID =
     bindR (requireWorkspace now p workspaceID RoleAdmin) (\<lambda>_.
     bindR (repo_read (mem_GetMembership (p_ProjectID p) (p_TenantID p) workspaceID userID)) (\<lambda>m.
     if mb_Role m = RoleOwner then fail ErrFailedPrecondition
     else if mb_Status m = StatusSuspended then ret m
     else (let m' = m\<lparr>mb_Status := StatusSuspended, mb_UpdatedAt := now\<rparr> in
           bindR (repo_write (mem_PutMembershipAndTuples m' []
             [userTuple ''workspace'' workspaceID (mb_Role m') userID])) (\<lambda>_. ret m'))))"

definition svc_ReinstateMember :: "time \<Rightarrow> principal \<Rightarrow> string \<Rightarrow> string \<Rightarrow> membership svc" where
  "svc_ReinstateMember now p workspaceID userID =
     bindR (requireWorkspace now p workspaceID RoleAdmin) (\<lambda>_.
     bindR (repo_read (mem_GetMembership (p_ProjectID p) (p_TenantID p) workspaceID userID)) (\<lambda>m.
     if mb_Status m \<noteq> StatusSuspended then ret m
     else (let m' = m\<lparr>mb_Status := StatusActive, mb_UpdatedAt := now\<rparr> in
           bindR (repo_write (mem_PutMembershipAndTuples m'
             [userTuple ''workspace'' workspaceID (mb_Role m') userID] [])) (\<lambda>_. ret m'))))"

subsection \<open>Ownership (ownership.go)\<close>

text \<open>The three phases after the guards: promote the new owner, record it, demote the former one.\<close>

definition promoteOwner :: "time \<Rightarrow> principal \<Rightarrow> string \<Rightarrow> string \<Rightarrow> unit svc" where
  "promoteOwner now p workspaceID newOwnerID =
     tryR (repo_read (mem_GetMembership (p_ProjectID p) (p_TenantID p) workspaceID newOwnerID)) (\<lambda>r.
       let promote = (\<lambda>createdAt deletes.
             repo_write (mem_PutMembershipAndTuples
               \<lparr>mb_ProjectID = p_ProjectID p, mb_TenantID = p_TenantID p, mb_WorkspaceID = workspaceID, mb_UserID = newOwnerID,
                mb_Role = RoleOwner, mb_Status = StatusActive, mb_CreatedAt = createdAt, mb_UpdatedAt = now\<rparr>
               [userTuple ''workspace'' workspaceID RoleOwner newOwnerID] deletes)) in
       case r of
         Inr existing \<Rightarrow>
           promote (mb_CreatedAt existing)
             (if mb_Role existing \<noteq> RoleOwner then [userTuple ''workspace'' workspaceID (mb_Role existing) newOwnerID] else [])
       | Inl err \<Rightarrow> if isNotFound err then promote now [] else fail err)"

definition demoteOwner :: "time \<Rightarrow> principal \<Rightarrow> string \<Rightarrow> string \<Rightarrow> unit svc" where
  "demoteOwner now p workspaceID oldOwnerID =
     (let adminInsert = [userTuple ''workspace'' workspaceID RoleAdmin oldOwnerID];
          ownerDelete = [userTuple ''workspace'' workspaceID RoleOwner oldOwnerID] in
      tryR (repo_read (mem_GetMembership (p_ProjectID p) (p_TenantID p) workspaceID oldOwnerID)) (\<lambda>r.
        case r of
          Inr old \<Rightarrow> repo_write (mem_PutMembershipAndTuples (old\<lparr>mb_Role := RoleAdmin, mb_UpdatedAt := now\<rparr>) adminInsert ownerDelete)
        | Inl err \<Rightarrow>
            if isNotFound err then repo_write (mem_WriteTuples (p_ProjectID p) (p_TenantID p) adminInsert ownerDelete)
            else fail err))"

definition svc_TransferOwnership :: "time \<Rightarrow> principal \<Rightarrow> string \<Rightarrow> string \<Rightarrow> workspace svc" where
  "svc_TransferOwnership now p workspaceID newOwnerID =
     (if newOwnerID = [] then fail ErrInvalidArgument
      else bindR (requireWorkspace now p workspaceID RoleOwner) (\<lambda>w.
        bindR (ensureProjectActive now p) (\<lambda>_.
        if ws_Type w = TypePersonal then fail ErrFailedPrecondition
        else if newOwnerID = ws_OwnerUserID w then ret w
        else bindR (promoteOwner now p workspaceID newOwnerID) (\<lambda>_.
          let w' = w\<lparr>ws_OwnerUserID := newOwnerID, ws_UpdatedAt := now\<rparr> in
          bindR (repo_write (mem_UpdateWorkspace w')) (\<lambda>_.
          bindR (demoteOwner now p workspaceID (ws_OwnerUserID w)) (\<lambda>_. ret w'))))))"

subsection \<open>Invitations (invitations.go)\<close>

definition InvitationTTL :: int where "InvitationTTL = 7 * 24 * 3600 * 1000000000"

definition svc_CreateInvitation ::
  "time \<Rightarrow> string \<Rightarrow> string \<Rightarrow> principal \<Rightarrow> string \<Rightarrow> string \<Rightarrow> string \<Rightarrow> (invitation \<times> string) svc" where
  "svc_CreateInvitation now newID token p workspaceID email role =
     bindR (ensureProjectActive now p) (\<lambda>_.
     if \<not> Role_Valid role \<or> role = RoleOwner then fail ErrInvalidArgument
     else (let em = trimName email in
       if em = [] then fail ErrInvalidArgument
       else bindR (requireWorkspace now p workspaceID RoleAdmin) (\<lambda>w.
         if ws_Type w = TypePersonal then fail ErrFailedPrecondition
         else (let iv = \<lparr>iv_ID = newID, iv_ProjectID = p_ProjectID p, iv_TenantID = p_TenantID p, iv_WorkspaceID = workspaceID,
                         iv_Email = em, iv_Role = role, iv_Status = InvitePending, iv_InvitedBy = p_UserID p,
                         iv_TokenHash = hashToken token, iv_CreatedAt = now, iv_ExpiresAt = now + InvitationTTL\<rparr> in
               bindR (repo_write (mem_CreateInvitation iv)) (\<lambda>_. ret (iv, token))))))"

definition svc_AcceptInvitation :: "time \<Rightarrow> principal \<Rightarrow> string \<Rightarrow> membership svc" where
  "svc_AcceptInvitation now p token =
     (if token = [] then fail ErrInvalidArgument
      else bindR (repo_read (mem_GetInvitationByTokenHash (p_ProjectID p) (p_TenantID p) (hashToken token))) (\<lambda>iv.
        if iv_Status iv \<noteq> InvitePending then fail ErrFailedPrecondition
        else if now > iv_ExpiresAt iv then
          tryR (repo_write (mem_UpdateInvitation (iv\<lparr>iv_Status := InviteExpired\<rparr>))) (\<lambda>_. fail ErrFailedPrecondition)
        else tryR (repo_read (mem_GetMembership (p_ProjectID p) (p_TenantID p) (iv_WorkspaceID iv) (p_UserID p))) (\<lambda>r.
          case r of
            Inr m \<Rightarrow> bindR (repo_write (mem_UpdateInvitation (iv\<lparr>iv_Status := InviteAccepted\<rparr>))) (\<lambda>_. ret m)
          | Inl err \<Rightarrow>
              if \<not> isNotFound err then fail err
              else bindR (putMember now p (iv_WorkspaceID iv) (p_UserID p) (iv_Role iv)) (\<lambda>m.
                bindR (repo_write (mem_UpdateInvitation (iv\<lparr>iv_Status := InviteAccepted\<rparr>))) (\<lambda>_. ret m)))))"

definition svc_ListInvitations :: "time \<Rightarrow> principal \<Rightarrow> string \<Rightarrow> invitation list svc" where
  "svc_ListInvitations now p workspaceID =
     bindR (requireWorkspace now p workspaceID RoleAdmin) (\<lambda>_.
     repo_read (mem_ListInvitations (p_ProjectID p) (p_TenantID p) workspaceID))"

definition svc_RevokeInvitation :: "time \<Rightarrow> principal \<Rightarrow> string \<Rightarrow> unit svc" where
  "svc_RevokeInvitation now p invitationID =
     bindR (repo_read (mem_GetInvitation (p_ProjectID p) (p_TenantID p) invitationID)) (\<lambda>iv.
     bindR (requireWorkspace now p (iv_WorkspaceID iv) RoleAdmin) (\<lambda>_.
     if iv_Status iv = InvitePending then repo_write (mem_UpdateInvitation (iv\<lparr>iv_Status := InviteRevoked\<rparr>))
     else ret ()))"

subsection \<open>Groups (groups.go)\<close>

definition svc_CreateGroup :: "time \<Rightarrow> string \<Rightarrow> principal \<Rightarrow> string \<Rightarrow> string \<Rightarrow> string \<Rightarrow> group svc" where
  "svc_CreateGroup now newID p displayName slug workspaceID =
     bindR (ensureProjectActive now p) (\<lambda>_.
     let name = trimName displayName in
     if name = [] then fail ErrInvalidArgument
     else bindR (if workspaceID \<noteq> [] then bindR (requireWorkspace now p workspaceID RoleMember) (\<lambda>_. ret ()) else ret ()) (\<lambda>_.
       let g = \<lparr>gr_ID = newID, gr_ProjectID = p_ProjectID p, gr_TenantID = p_TenantID p, gr_WorkspaceID = workspaceID,
                gr_Slug = (if slug = [] then slugify name else slugify slug), gr_DisplayName = name,
                gr_CreatedBy = p_UserID p, gr_CreatedAt = now, gr_UpdatedAt = now\<rparr> in
       bindR (repo_write (mem_CreateGroup g)) (\<lambda>_. ret g)))"

definition svc_GetGroup :: "principal \<Rightarrow> string \<Rightarrow> group svc" where
  "svc_GetGroup p i = repo_read (mem_GetGroup (p_ProjectID p) (p_TenantID p) i)"

definition svc_ListGroups :: "time \<Rightarrow> principal \<Rightarrow> string \<Rightarrow> group list svc" where
  "svc_ListGroups now p workspaceID =
     bindR (if workspaceID \<noteq> [] then bindR (requireWorkspace now p workspaceID RoleGuest) (\<lambda>_. ret ()) else ret ()) (\<lambda>_.
     repo_read (mem_ListGroups (p_ProjectID p) (p_TenantID p) workspaceID))"

definition requireGroupManager :: "time \<Rightarrow> principal \<Rightarrow> group \<Rightarrow> unit svc" where
  "requireGroupManager now p g =
     (if gr_CreatedBy g = p_UserID p then ret ()
      else if gr_WorkspaceID g \<noteq> [] then
        bindR (allowed now p (gr_WorkspaceID g) RoleAdmin) (\<lambda>ok. if ok then ret () else fail ErrPermissionDenied)
      else fail ErrPermissionDenied)"

definition svc_DeleteGroup :: "time \<Rightarrow> principal \<Rightarrow> string \<Rightarrow> unit svc" where
  "svc_DeleteGroup now p i =
     bindR (repo_read (mem_GetGroup (p_ProjectID p) (p_TenantID p) i)) (\<lambda>g.
     bindR (requireGroupManager now p g) (\<lambda>_.
     repo_write (mem_DeleteGroup (p_ProjectID p) (p_TenantID p) i)))"

definition groupMemberTuple :: "string \<Rightarrow> groupMember \<Rightarrow> tuple result" where
  "groupMemberTuple groupID m =
     (if gm_UserID m \<noteq> [] \<and> gm_GroupID m = [] then Inr (userTuple ''group'' groupID ''member'' (gm_UserID m))
      else if gm_GroupID m \<noteq> [] \<and> gm_UserID m = [] then
        Inr \<lparr>t_Namespace = ''group'', t_ObjectID = groupID, t_Relation = ''member'',
             t_Subject = \<lparr>UserID = [], s_Set = Some \<lparr>ss_Namespace = ''group'', ss_ObjectID = gm_GroupID m, ss_Relation = ''member''\<rparr>,
                          Wildcard = False, s_Condition = None\<rparr>, t_ExpiresAt = None\<rparr>
      else Inl ErrInvalidArgument)"

definition svc_AddGroupMember :: "time \<Rightarrow> principal \<Rightarrow> string \<Rightarrow> groupMember \<Rightarrow> unit svc" where
  "svc_AddGroupMember now p groupID member =
     bindR (ensureProjectActive now p) (\<lambda>_.
     bindR (repo_read (mem_GetGroup (p_ProjectID p) (p_TenantID p) groupID)) (\<lambda>g.
     bindR (requireGroupManager now p g) (\<lambda>_.
     bindR (lift (groupMemberTuple groupID member)) (\<lambda>t.
     tryR (repo_read (mem_GetEnrollment (p_ProjectID p) (p_TenantID p) groupID member)) (\<lambda>r.
       case r of
         Inr enr \<Rightarrow> repo_write (mem_SetEnrollmentAndTuples (enr\<lparr>en_State := EnrollmentEnrolled, en_UpdatedAt := now\<rparr>) [t] [])
       | Inl err \<Rightarrow>
           if \<not> isNotFound err then fail err
           else repo_write (mem_WriteTuples (p_ProjectID p) (p_TenantID p) [t] []))))))"

definition svc_RemoveGroupMember :: "time \<Rightarrow> principal \<Rightarrow> string \<Rightarrow> groupMember \<Rightarrow> unit svc" where
  "svc_RemoveGroupMember now p groupID member =
     bindR (repo_read (mem_GetGroup (p_ProjectID p) (p_TenantID p) groupID)) (\<lambda>g.
     bindR (requireGroupManager now p g) (\<lambda>_.
     bindR (lift (groupMemberTuple groupID member)) (\<lambda>t.
     tryR (repo_read (mem_GetEnrollment (p_ProjectID p) (p_TenantID p) groupID member)) (\<lambda>r.
       case r of
         Inr enr \<Rightarrow> repo_write (mem_SetEnrollmentAndTuples (enr\<lparr>en_State := EnrollmentDropped, en_UpdatedAt := now\<rparr>) [] [t])
       | Inl err \<Rightarrow>
           if \<not> isNotFound err then fail err
           else repo_write (mem_WriteTuples (p_ProjectID p) (p_TenantID p) [] [t])))))"

definition svc_ListGroupMembers :: "time \<Rightarrow> principal \<Rightarrow> string \<Rightarrow> groupMember list svc" where
  "svc_ListGroupMembers now p groupID =
     bindR (repo_read (mem_GetGroup (p_ProjectID p) (p_TenantID p) groupID)) (\<lambda>_.
     bindR (repo_read (\<lambda>m. mem_ListSubjects now m (p_ProjectID p) (p_TenantID p) ''group'' groupID ''member'')) (\<lambda>subjects.
     ret (List.map_filter (\<lambda>sub.
       case s_Set sub of
         None \<Rightarrow> Some \<lparr>gm_UserID = UserID sub, gm_GroupID = []\<rparr>
       | Some st \<Rightarrow> if ss_Namespace st = ''group'' then Some \<lparr>gm_UserID = [], gm_GroupID = ss_ObjectID st\<rparr> else None) subjects)))"

definition svc_SetEnrollmentState :: "time \<Rightarrow> principal \<Rightarrow> string \<Rightarrow> groupMember \<Rightarrow> string \<Rightarrow> enrollment svc" where
  "svc_SetEnrollmentState now p groupID member state =
     bindR (ensureProjectActive now p) (\<lambda>_.
     if \<not> Enrollment_Valid state then fail ErrInvalidArgument
     else
     bindR (lift (groupMemberTuple groupID member)) (\<lambda>t.
     bindR (repo_read (mem_GetGroup (p_ProjectID p) (p_TenantID p) groupID)) (\<lambda>g.
     bindR (requireGroupManager now p g) (\<lambda>_.
     tryR (repo_read (mem_GetEnrollment (p_ProjectID p) (p_TenantID p) groupID member)) (\<lambda>r.
       let upsert = (\<lambda>createdAt.
             let e = \<lparr>en_ProjectID = p_ProjectID p, en_TenantID = p_TenantID p, en_GroupID = groupID, en_Member = member,
                      en_State = state, en_CreatedAt = createdAt, en_UpdatedAt = now\<rparr> in
             bindR (repo_write (mem_SetEnrollmentAndTuples e (if GrantsAccess state then [t] else [])
                                  (if GrantsAccess state then [] else [t]))) (\<lambda>_. ret e)) in
       case r of
         Inr existing \<Rightarrow> upsert (en_CreatedAt existing)
       | Inl err \<Rightarrow> if \<not> isNotFound err then fail err else upsert now)))))"

definition svc_ListEnrollments :: "time \<Rightarrow> principal \<Rightarrow> string \<Rightarrow> enrollment list svc" where
  "svc_ListEnrollments now p groupID =
     bindR (repo_read (mem_GetGroup (p_ProjectID p) (p_TenantID p) groupID)) (\<lambda>g.
     bindR (requireGroupManager now p g) (\<lambda>_.
     repo_read (mem_ListEnrollments (p_ProjectID p) (p_TenantID p) groupID)))"

subsection \<open>Seats (seats.go)\<close>

definition seatNamespace :: string where "seatNamespace = ''seat''"
definition SeatRelation :: string where "SeatRelation = ''holder''"

record seatLimit =
  sl_SKU :: string
  sl_Limit :: int
  sl_Limited :: bool

definition seatTuple :: "string \<Rightarrow> string \<Rightarrow> tuple" where
  "seatTuple sku userID = userTuple seatNamespace sku SeatRelation userID"

definition svc_SetSeatLimit :: "time \<Rightarrow> principal \<Rightarrow> string \<Rightarrow> int option \<Rightarrow> seatLimit svc" where
  "svc_SetSeatLimit now p sku limit =
     (if sku = [] then fail ErrInvalidArgument
      else if (case limit of Some n \<Rightarrow> n < 0 | None \<Rightarrow> False) then fail ErrInvalidArgument
      else bindR (ensureProjectActive now p) (\<lambda>_.
        bindR (repo_write (mem_SetSeatLimit (p_ProjectID p) (p_TenantID p) sku limit)) (\<lambda>_.
        ret \<lparr>sl_SKU = sku, sl_Limit = (case limit of Some n \<Rightarrow> n | None \<Rightarrow> 0), sl_Limited = (limit \<noteq> None)\<rparr>)))"

definition svc_SeatUsage :: "principal \<Rightarrow> string \<Rightarrow> seatUsage svc" where
  "svc_SeatUsage p sku =
     (if sku = [] then fail ErrInvalidArgument else repo_read (mem_GetSeatUsage (p_ProjectID p) (p_TenantID p) sku))"

definition svc_AssignSeat :: "time \<Rightarrow> principal \<Rightarrow> string \<Rightarrow> string \<Rightarrow> bool svc" where
  "svc_AssignSeat now p sku userID =
     (if sku = [] \<or> userID = [] then fail ErrInvalidArgument
      else bindR (ensureProjectActive now p) (\<lambda>_.
        repo_write (mem_AssignSeatAndTuple
          \<lparr>sa_ProjectID = p_ProjectID p, sa_TenantID = p_TenantID p, sa_SKU = sku, sa_UserID = userID, sa_AssignedAt = now\<rparr>
          (seatTuple sku userID))))"

definition svc_RevokeSeat :: "time \<Rightarrow> principal \<Rightarrow> string \<Rightarrow> string \<Rightarrow> unit svc" where
  "svc_RevokeSeat now p sku userID =
     (if sku = [] \<or> userID = [] then fail ErrInvalidArgument
      else bindR (ensureProjectActive now p) (\<lambda>_.
        repo_write (mem_RevokeSeatAndTuple (p_ProjectID p) (p_TenantID p) sku userID (seatTuple sku userID))))"

definition svc_ListSeats :: "principal \<Rightarrow> string \<Rightarrow> seatAssignment list svc" where
  "svc_ListSeats p sku =
     (if sku = [] then fail ErrInvalidArgument else repo_read (mem_ListSeats (p_ProjectID p) (p_TenantID p) sku))"

end
