(* ===== verification/Consistency_Token.thy ===== *)
theory Consistency_Token
  imports GoStd
begin

section \<open>Consistency tokens (internal/consistencytoken/token.go)\<close>

text \<open>
  A token is a version prefix and the URL-safe base64 form, without padding, of the JSON object
  with the fields \<^verbatim>\<open>p\<close>, \<^verbatim>\<open>t\<close> and \<^verbatim>\<open>s\<close>. The functions of \<^verbatim>\<open>encoding/base64\<close> and \<^verbatim>\<open>encoding/json\<close> are
  modelled on bytes for exactly this struct: \<^verbatim>\<open>json.Marshal\<close> with its escapes, and a decoder with
  \<^verbatim>\<open>DisallowUnknownFields\<close> that reads the first value of its input and ignores what follows it. Since
  every failure has the same outcome, a value the struct has no field for needs no parsing.
\<close>

subsection \<open>base64.RawURLEncoding\<close>

definition b64_char :: "nat \<Rightarrow> char" where
  "b64_char n =
     (if n < 26 then char_of (65 + n) else if n < 52 then char_of (71 + n) else if n < 62 then char_of (n - 4)
      else if n = 62 then CHR ''-'' else CHR ''_'')"

definition b64_val :: "char \<Rightarrow> nat option" where
  "b64_val c = (let n = code_of c in
     if 65 \<le> n \<and> n \<le> 90 then Some (n - 65) else if 97 \<le> n \<and> n \<le> 122 then Some (n - 71)
     else if 48 \<le> n \<and> n \<le> 57 then Some (n + 4) else if c = CHR ''-'' then Some 62
     else if c = CHR ''_'' then Some 63 else None)"

fun b64_encode :: "string \<Rightarrow> string" where
  "b64_encode [] = []"
| "b64_encode [a] = (let x = code_of a in [b64_char (x div 4), b64_char (x mod 4 * 16)])"
| "b64_encode [a, b] = (let x = code_of a; y = code_of b in
     [b64_char (x div 4), b64_char (x mod 4 * 16 + y div 16), b64_char (y mod 16 * 4)])"
| "b64_encode (a # b # c # s) = (let x = code_of a; y = code_of b; z = code_of c in
     [b64_char (x div 4), b64_char (x mod 4 * 16 + y div 16), b64_char (y mod 16 * 4 + z div 64), b64_char (z mod 64)]
     @ b64_encode s)"

text \<open>Decoding of the digits: the unused low bits of a last group are ignored, a group of one is an error.\<close>

fun b64_groups :: "nat list \<Rightarrow> string option" where
  "b64_groups [] = Some []"
| "b64_groups [a] = None"
| "b64_groups [a, b] = Some [char_of (a * 4 + b div 16)]"
| "b64_groups [a, b, c] = Some [char_of (a * 4 + b div 16), char_of (b mod 16 * 16 + c div 4)]"
| "b64_groups (a # b # c # d # ds) =
     map_option (\<lambda>s. [char_of (a * 4 + b div 16), char_of (b mod 16 * 16 + c div 4), char_of (c mod 4 * 64 + d)] @ s)
       (b64_groups ds)"

text \<open>Carriage returns and line feeds in the input are skipped.\<close>

definition b64_decode :: "string \<Rightarrow> string option" where
  "b64_decode s =
     (let s' = filter (\<lambda>c. code_of c \<noteq> 10 \<and> code_of c \<noteq> 13) s in
      if list_all (\<lambda>c. b64_val c \<noteq> None) s' then b64_groups (map (\<lambda>c. the (b64_val c)) s') else None)"

subsection \<open>UTF-8\<close>

definition cont_byte :: "nat \<Rightarrow> bool" where
  "cont_byte b \<longleftrightarrow> 128 \<le> b \<and> b \<le> 191"

text \<open>The number of bytes of the rune a string starts with, zero when its first byte starts no valid
  encoding (\<^verbatim>\<open>utf8.DecodeRune\<close>).\<close>

definition rune_len :: "string \<Rightarrow> nat" where
  "rune_len s =
     (case map code_of (take 4 s) of
        [] \<Rightarrow> 0
      | a # r \<Rightarrow>
          if a < 128 then 1
          else if 194 \<le> a \<and> a \<le> 223 then (case r of b # _ \<Rightarrow> if cont_byte b then 2 else 0 | [] \<Rightarrow> 0)
          else if 224 \<le> a \<and> a \<le> 239 then
            (case r of
               b # c # _ \<Rightarrow>
                 if cont_byte b \<and> cont_byte c \<and> (a = 224 \<longrightarrow> 160 \<le> b) \<and> (a = 237 \<longrightarrow> b \<le> 159) then 3 else 0
             | _ \<Rightarrow> 0)
          else if 240 \<le> a \<and> a \<le> 244 then
            (case r of
               [b, c, d] \<Rightarrow>
                 if cont_byte b \<and> cont_byte c \<and> cont_byte d \<and> (a = 240 \<longrightarrow> 144 \<le> b) \<and> (a = 244 \<longrightarrow> b \<le> 143) then 4 else 0
             | _ \<Rightarrow> 0)
          else 0)"

definition utf8_encode :: "nat \<Rightarrow> string" where
  "utf8_encode r =
     (if r < 128 then [char_of r]
      else if r < 2048 then [char_of (192 + r div 64), char_of (128 + r mod 64)]
      else if r < 65536 then [char_of (224 + r div 4096), char_of (128 + r div 64 mod 64), char_of (128 + r mod 64)]
      else [char_of (240 + r div 262144), char_of (128 + r div 4096 mod 64), char_of (128 + r div 64 mod 64),
            char_of (128 + r mod 64)])"

definition rune_error :: string where
  "rune_error = utf8_encode 65533"

subsection \<open>json.Marshal\<close>

definition hex4 :: "nat \<Rightarrow> string" where
  "hex4 n = (let h = (\<lambda>d. if d < 10 then char_of (48 + d) else char_of (87 + d)) in
     [h (n div 4096 mod 16), h (n div 256 mod 16), h (n div 16 mod 16), h (n mod 16)])"

definition quote_byte :: char where "quote_byte = CHR 0x22"
definition backslash :: char where "backslash = CHR 0x5C"

definition u_escape :: "nat \<Rightarrow> string" where
  "u_escape n = [backslash, CHR ''u''] @ hex4 n"

definition ascii_escape :: "char \<Rightarrow> string" where
  "ascii_escape c = (let n = code_of c in
     if c = quote_byte \<or> c = backslash then [backslash, c]
     else if n = 8 then [backslash, CHR ''b''] else if n = 12 then [backslash, CHR ''f'']
     else if n = 10 then [backslash, CHR ''n''] else if n = 13 then [backslash, CHR ''r'']
     else if n = 9 then [backslash, CHR ''t'']
     else if n < 32 \<or> n = 60 \<or> n = 62 \<or> n = 38 then u_escape n
     else [c])"

function json_body :: "string \<Rightarrow> string" where
  "json_body [] = []"
| "json_body (c # s) =
     (let k = rune_len (c # s) in
      if k = 0 then u_escape 65533 @ json_body s
      else if k = 1 then ascii_escape c @ json_body s
      else if k = 3 \<and> code_of c = 226 \<and> code_of (s ! 0) = 128 \<and> (code_of (s ! 1) = 168 \<or> code_of (s ! 1) = 169)
      then u_escape (8192 + 40 + (code_of (s ! 1) - 168)) @ json_body (drop 2 s)
      else take k (c # s) @ json_body (drop (k - 1) s))"
  by pat_completeness auto
termination
  by (relation "measure length") auto

definition json_string :: "string \<Rightarrow> string" where
  "json_string s = [quote_byte] @ json_body s @ [quote_byte]"

record token =
  tok_Project :: string
  tok_Tenant :: string
  tok_Seq :: int

definition int_text :: "int \<Rightarrow> string" where
  "int_text n = (if n < 0 then ''-'' @ Itoa (nat (- n)) else Itoa (nat n))"

definition json_token :: "token \<Rightarrow> string" where
  "json_token t =
     ''{'' @ json_string ''p'' @ '':'' @ json_string (tok_Project t) @ '','' @
     json_string ''t'' @ '':'' @ json_string (tok_Tenant t) @ '','' @
     json_string ''s'' @ '':'' @ int_text (tok_Seq t) @ ''}''"

definition tok_prefix :: string where "tok_prefix = ''ct1.''"

definition Encode :: "string \<Rightarrow> string \<Rightarrow> int \<Rightarrow> string" where
  "Encode proj tenant seqn =
     tok_prefix @ b64_encode (json_token \<lparr>tok_Project = proj, tok_Tenant = tenant, tok_Seq = seqn\<rparr>)"

subsection \<open>json.Decoder\<close>

definition json_ws :: "char \<Rightarrow> bool" where
  "json_ws c \<longleftrightarrow> code_of c = 32 \<or> code_of c = 9 \<or> code_of c = 13 \<or> code_of c = 10"

definition skip_ws :: "string \<Rightarrow> string" where
  "skip_ws s = dropWhile json_ws s"

definition json_hex :: "char \<Rightarrow> nat option" where
  "json_hex c = hex_val c"

definition getu4 :: "string \<Rightarrow> (nat \<times> string) option" where
  "getu4 s =
     (case s of
        a # b # c # d # r \<Rightarrow>
          (case (json_hex a, json_hex b, json_hex c, json_hex d) of
             (Some w, Some x, Some y, Some z) \<Rightarrow> Some (((w * 16 + x) * 16 + y) * 16 + z, r)
           | _ \<Rightarrow> None)
      | _ \<Rightarrow> None)"

lemma getu4_length: "getu4 s = Some (n, r) \<Longrightarrow> length r < length s"
  by (auto simp: getu4_def split: list.splits option.splits)

text \<open>A surrogate escape needs its partner right behind it; anything else is the replacement rune.\<close>

definition unescape_u :: "nat \<Rightarrow> string \<Rightarrow> string \<times> string" where
  "unescape_u n r =
     (if 55296 \<le> n \<and> n < 57344 then
        (case r of
           b # u # r1 \<Rightarrow>
             if b = backslash \<and> u = CHR ''u'' then
               (case getu4 r1 of
                  Some (n2, r2) \<Rightarrow>
                    if n < 56320 \<and> 56320 \<le> n2 \<and> n2 < 57344
                    then (utf8_encode ((n - 55296) * 1024 + (n2 - 56320) + 65536), r2)
                    else (rune_error, r)
                | None \<Rightarrow> (rune_error, r))
             else (rune_error, r)
         | _ \<Rightarrow> (rune_error, r))
      else (utf8_encode n, r))"

lemma unescape_u_length: "length (snd (unescape_u n r)) \<le> length r"
  by (auto simp: unescape_u_def split: list.splits option.splits dest!: getu4_length)

lemma getu4_unescape_length: "getu4 s = Some (n, r) \<Longrightarrow> length (snd (unescape_u n r)) < length s"
  using getu4_length [of s n r] unescape_u_length [of n r] by simp

text \<open>The body of a string up to its closing quote: the decoded bytes and the rest.\<close>

function json_unbody :: "string \<Rightarrow> (string \<times> string) option" where
  "json_unbody [] = None"
| "json_unbody (c # s) =
     (if c = quote_byte then Some ([], s)
      else if c = backslash then
        (case s of
           [] \<Rightarrow> None
         | e # r \<Rightarrow>
             if e = CHR ''u'' then
               (case getu4 r of
                  None \<Rightarrow> None
                | Some (n, r1) \<Rightarrow>
                    (case json_unbody (snd (unescape_u n r1)) of
                       None \<Rightarrow> None
                     | Some (out, rest) \<Rightarrow> Some (fst (unescape_u n r1) @ out, rest)))
             else
               (case map_of [(quote_byte, quote_byte), (backslash, backslash), (CHR ''/'', CHR ''/''),
                             (CHR ''b'', CHR 0x08), (CHR ''f'', CHR 0x0C), (CHR ''n'', CHR 0x0A),
                             (CHR ''r'', CHR 0x0D), (CHR ''t'', CHR 0x09)] e of
                  None \<Rightarrow> None
                | Some x \<Rightarrow>
                    (case json_unbody r of None \<Rightarrow> None | Some (out, rest) \<Rightarrow> Some (x # out, rest))))
      else if code_of c < 32 then None
      else (let k = rune_len (c # s) in
            if k = 0 then
              (case json_unbody s of None \<Rightarrow> None | Some (out, rest) \<Rightarrow> Some (rune_error @ out, rest))
            else
              (case json_unbody (drop (k - 1) s) of
                 None \<Rightarrow> None | Some (out, rest) \<Rightarrow> Some (take k (c # s) @ out, rest))))"
  by pat_completeness auto
termination
  by (relation "measure length") (auto dest: getu4_unescape_length)

declare json_body.simps [simp del] json_unbody.simps [simp del]

definition json_unstring :: "string \<Rightarrow> (string \<times> string) option" where
  "json_unstring s = (case s of c # r \<Rightarrow> if c = quote_byte then json_unbody r else None | [] \<Rightarrow> None)"

text \<open>An integer literal as \<^verbatim>\<open>strconv.ParseInt\<close> accepts it; a fraction or an exponent stays in the rest
  and is rejected by the caller, which expects a comma or a brace.\<close>

definition json_int :: "string \<Rightarrow> (int \<times> string) option" where
  "json_int s =
     (let neg = (s \<noteq> [] \<and> hd s = CHR ''-''); s' = (if neg then tl s else s);
          ds = takeWhile is_digit s'; rest = dropWhile is_digit s';
          v = (if neg then - int (dec_val ds) else int (dec_val ds)) in
      if ds = [] \<or> (length ds > 1 \<and> hd ds = CHR ''0'') then None
      else if v < - (2 ^ 63) \<or> 2 ^ 63 \<le> v then None
      else Some (v, rest))"

definition json_null :: "string \<Rightarrow> string option" where
  "json_null s = (if starts_with s ''null'' then Some (drop 4 s) else None)"

text \<open>Field names match exactly or up to case folding; the long s folds to s.\<close>

definition field_is :: "char \<Rightarrow> string \<Rightarrow> bool" where
  "field_is f k \<longleftrightarrow> k = [f] \<or> k = [char_of (code_of f - 32)] \<or>
     (f = CHR ''s'' \<and> k = [CHR 0xC5, CHR 0xBF])"

definition json_field :: "string \<Rightarrow> string \<Rightarrow> token \<Rightarrow> (token \<times> string) option" where
  "json_field k v t =
     (if field_is CHR ''p'' k \<or> field_is CHR ''t'' k then
        (case json_unstring v of
           Some (x, rest) \<Rightarrow> Some (if field_is CHR ''p'' k then t\<lparr>tok_Project := x\<rparr> else t\<lparr>tok_Tenant := x\<rparr>, rest)
         | None \<Rightarrow> map_option (\<lambda>rest. (t, rest)) (json_null v))
      else if field_is CHR ''s'' k then
        (case json_int v of
           Some (n, rest) \<Rightarrow> Some (t\<lparr>tok_Seq := n\<rparr>, rest)
         | None \<Rightarrow> map_option (\<lambda>rest. (t, rest)) (json_null v))
      else None)"

text \<open>The members of an object after its opening brace or a comma; the first argument bounds their
  number, the length of the input is enough.\<close>

fun json_members :: "nat \<Rightarrow> string \<Rightarrow> token \<Rightarrow> token option" where
  "json_members 0 s t = None"
| "json_members (Suc fuel) s t =
     (case json_unstring (skip_ws s) of
        None \<Rightarrow> None
      | Some (k, s1) \<Rightarrow>
          (case skip_ws s1 of
             [] \<Rightarrow> None
           | c # s2 \<Rightarrow>
               if c \<noteq> CHR '':'' then None
               else (case json_field k (skip_ws s2) t of
                       None \<Rightarrow> None
                     | Some (t', s3) \<Rightarrow>
                         (case skip_ws s3 of
                            [] \<Rightarrow> None
                          | d # s4 \<Rightarrow>
                              if d = CHR '','' then json_members fuel s4 t'
                              else if d = CHR ''}'' then Some t' else None))))"

definition json_untoken :: "string \<Rightarrow> token option" where
  "json_untoken s =
     (let z = \<lparr>tok_Project = [], tok_Tenant = [], tok_Seq = 0\<rparr>; s' = skip_ws s in
      case s' of
        [] \<Rightarrow> None
      | c # r \<Rightarrow>
          if c = CHR ''{'' then
            (case skip_ws r of
               [] \<Rightarrow> None
             | d # _ \<Rightarrow> if d = CHR ''}'' then Some z else json_members (length s) r z)
          else (case json_null s' of None \<Rightarrow> None | Some _ \<Rightarrow> Some z))"

definition Decode :: "string \<Rightarrow> token option" where
  "Decode s =
     (if \<not> starts_with s tok_prefix then None
      else (case b64_decode (drop (length tok_prefix) s) of
              None \<Rightarrow> None
            | Some raw \<Rightarrow>
                (case json_untoken raw of
                   None \<Rightarrow> None
                 | Some t \<Rightarrow> if tok_Seq t < 0 then None else Some t)))"

subsection \<open>Round trip\<close>

lemma b64_val_char: "n < 64 \<Longrightarrow> b64_val (b64_char n) = Some n"
  by (auto simp: b64_val_def b64_char_def Let_def)

lemma b64_char_no_newline: "n < 64 \<Longrightarrow> code_of (b64_char n) \<noteq> 10 \<and> code_of (b64_char n) \<noteq> 13"
  by (auto simp: b64_char_def)

fun b64_digits :: "string \<Rightarrow> nat list" where
  "b64_digits [] = []"
| "b64_digits [a] = [code_of a div 4, code_of a mod 4 * 16]"
| "b64_digits [a, b] = [code_of a div 4, code_of a mod 4 * 16 + code_of b div 16, code_of b mod 16 * 4]"
| "b64_digits (a # b # c # s) =
     [code_of a div 4, code_of a mod 4 * 16 + code_of b div 16, code_of b mod 16 * 4 + code_of c div 64, code_of c mod 64]
     @ b64_digits s"

lemma b64_encode_digits: "b64_encode s = map b64_char (b64_digits s)"
  by (induction s rule: b64_digits.induct) (simp_all add: Let_def)

lemma join_div: "q < m \<Longrightarrow> (r * m + q) div m = (r::nat)"
  by simp

lemma join_mod: "q < m \<Longrightarrow> (r * m + q) mod m = (q::nat)"
  by simp

lemma code_div:
  "code_of c div 4 < 64" "code_of c div 16 < 16" "code_of c div 64 < 4"
  using nat_of_char_less_256 [of c] by (simp_all add: less_mult_imp_div_less)

lemma join_bound: "r < k \<Longrightarrow> q < m \<Longrightarrow> r * m + q < k * (m::nat)"
proof -
  assume "r < k" "q < m"
  then have "r * m + q < Suc r * m" by simp
  also have "\<dots> \<le> k * m" using \<open>r < k\<close> by (simp only: mult_le_mono1 Suc_leI)
  finally show ?thesis .
qed

lemma b64_digits_bound: "d \<in> set (b64_digits s) \<Longrightarrow> d < 64"
proof (induction s rule: b64_digits.induct)
  case (4 a b c s)
  moreover have "code_of a mod 4 * 16 + code_of b div 16 < 4 * 16"
    by (rule join_bound) (simp_all add: code_div)
  moreover have "code_of b mod 16 * 4 + code_of c div 64 < 16 * 4"
    by (rule join_bound) (simp_all add: code_div)
  ultimately show ?case by (auto simp: code_div)
next
  case (3 a b)
  moreover have "code_of a mod 4 * 16 + code_of b div 16 < 4 * 16"
    by (rule join_bound) (simp_all add: code_div)
  moreover have "code_of b mod 16 * 4 + 0 < 16 * (4::nat)"
    by (rule join_bound) simp_all
  ultimately show ?case by (auto simp: code_div)
next
  case (2 a)
  moreover have "code_of a mod 4 * 16 + 0 < 4 * (16::nat)" by (rule join_bound) simp_all
  ultimately show ?case by (auto simp: code_div)
qed simp

lemma b64_join:
  "char_of (code_of a div 4 * 4 + (code_of a mod 4 * 16 + code_of b div 16) div 16) = a"
  "char_of (code_of a div 4 * 4 + code_of a mod 4 * 16 div 16) = a"
  "char_of ((code_of a mod 4 * 16 + code_of b div 16) mod 16 * 16 + (code_of b mod 16 * 4 + code_of c div 64) div 4) = b"
  "char_of ((code_of a mod 4 * 16 + code_of b div 16) mod 16 * 16 + code_of b mod 16 * 4 div 4) = b"
  "char_of ((code_of b mod 16 * 4 + code_of c div 64) mod 4 * 64 + code_of c mod 64) = c"
  by (simp_all only: join_div join_mod code_div div_mult_mod_eq char_of_char nonzero_mult_div_cancel_right)

lemma b64_groups_digits: "b64_groups (b64_digits s) = Some s"
  by (induction s rule: b64_digits.induct) (simp_all only: b64_digits.simps append_Cons append_Nil b64_groups.simps b64_join option.map)

lemma b64_roundtrip: "b64_decode (b64_encode s) = Some s"
proof -
  have "filter (\<lambda>c. code_of c \<noteq> 10 \<and> code_of c \<noteq> 13) (b64_encode s) = b64_encode s"
    unfolding b64_encode_digits by (rule filter_True) (use b64_digits_bound b64_char_no_newline in auto)
  moreover have "list_all (\<lambda>c. b64_val c \<noteq> None) (b64_encode s)"
    unfolding b64_encode_digits list_all_iff using b64_digits_bound b64_val_char by fastforce
  moreover have "map (\<lambda>c. the (b64_val c)) (b64_encode s) = b64_digits s"
    unfolding b64_encode_digits by (auto simp: b64_val_char b64_digits_bound intro: map_idI)
  ultimately show ?thesis by (simp add: b64_decode_def b64_groups_digits)
qed

text \<open>A string of whole runes.\<close>

function valid_utf8 :: "string \<Rightarrow> bool" where
  "valid_utf8 [] = True"
| "valid_utf8 (c # s) = (rune_len (c # s) \<noteq> 0 \<and> valid_utf8 (drop (rune_len (c # s) - 1) s))"
  by pat_completeness auto
termination
  by (relation "measure length") auto

declare valid_utf8.simps(2) [simp del]

lemma rune_len_ascii: "code_of c < 128 \<Longrightarrow> rune_len (c # s) = 1"
  by (simp add: rune_len_def)

lemma rune_len_one: "rune_len (c # s) = 1 \<longleftrightarrow> code_of c < 128"
  by (auto simp: rune_len_def split: list.splits if_splits)

lemma rune_len_prefix:
  assumes "rune_len s \<noteq> 0"
  shows "rune_len (take (rune_len s) s @ x) = rune_len s"
proof -
  obtain a t where s: "s = a # t" using assms by (cases s) (auto simp: rune_len_def)
  consider "t = []" | b where "t = [b]" | b c where "t = [b, c]" | b c d r where "t = b # c # d # r"
    by (metis list.exhaust)
  then show ?thesis
    using assms by cases (auto simp: s rune_len_def split: if_splits list.splits)
qed

lemma rune_len_le: "rune_len s \<le> length s"
proof (cases s)
  case (Cons a t)
  consider "t = []" | b where "t = [b]" | b c where "t = [b, c]" | b c d r where "t = b # c # d # r"
    by (metis list.exhaust)
  then show ?thesis by cases (auto simp: Cons rune_len_def)
qed (simp add: rune_len_def)

lemma hex_val_digit: "d < 16 \<Longrightarrow> hex_val (if d < 10 then char_of (48 + d) else char_of (87 + d)) = Some d"
  by (auto simp: hex_val_def Let_def)

lemma getu4_hex4:
  assumes "n < 65536"
  shows "getu4 (hex4 n @ r) = Some (n, r)"
proof -
  have h: "json_hex (if d < 10 then char_of (48 + d) else char_of (87 + d)) = Some d" if "d < 16" for d
    using hex_val_digit [OF that] by (simp add: json_hex_def)
  have n: "((n div 4096 mod 16 * 16 + n div 256 mod 16) * 16 + n div 16 mod 16) * 16 + n mod 16 = n"
  proof -
    have "n div 16 mod 16 + n div 16 div 16 * 16 = n div 16" by simp
    moreover have "n div 256 mod 16 + n div 256 div 16 * 16 = n div 256" by simp
    moreover have "n div 16 div 16 = n div 256" "n div 256 div 16 = n div 4096" by (simp_all add: div_mult2_eq [symmetric])
    moreover have "n div 4096 mod 16 = n div 4096" using assms by (simp add: less_mult_imp_div_less)
    ultimately show ?thesis by (metis add.commute mod_div_mult_eq mult.commute div_mult_mod_eq)
  qed
  show ?thesis
    unfolding hex4_def Let_def getu4_def by (simp only: append_Cons append_Nil list.case h mod_less_divisor
        zero_less_numeral prod.case option.case n)
qed

lemma unbody_quote: "json_unbody (quote_byte # r) = Some ([], r)"
  by (simp add: json_unbody.simps)

lemma quote_not_backslash [simp]: "quote_byte \<noteq> backslash" "backslash \<noteq> quote_byte"
  by (simp_all add: quote_byte_def backslash_def)

lemma unbody_u:
  assumes "n < 55296" and "json_unbody r = Some (out, rest)"
  shows "json_unbody (u_escape n @ r) = Some (utf8_encode n @ out, rest)"
proof -
  have "unescape_u n r = (utf8_encode n, r)" using assms by (simp add: unescape_u_def)
  then show ?thesis
    using assms getu4_hex4 [of n r]
    by (simp add: u_escape_def json_unbody.simps(2) [of backslash])
qed

lemma unbody_rune:
  assumes "32 \<le> code_of c" and "c \<noteq> quote_byte" and "c \<noteq> backslash" and "rune_len (c # s) = k" and "k \<noteq> 0"
    and "json_unbody r = Some (out, rest)"
  shows "json_unbody (take k (c # s) @ r) = Some (take k (c # s) @ out, rest)"
proof -
  have len: "rune_len (take k (c # s) @ r) = k" using rune_len_prefix [of "c # s" r] assms by simp
  obtain k' where k: "k = Suc k'" using assms(5) by (cases k) auto
  have "k \<le> Suc (length s)" using rune_len_le [of "c # s"] assms(4) by simp
  then have "min (length s) k' = k'" by (simp add: k)
  then show ?thesis
    using assms len by (simp add: k json_unbody.simps(2) [of c] Let_def)
qed

lemma unbody_short:
  assumes "(e, x) \<in> {(quote_byte, quote_byte), (backslash, backslash), (CHR ''b'', CHR 0x08),
     (CHR ''f'', CHR 0x0C), (CHR ''n'', CHR 0x0A), (CHR ''r'', CHR 0x0D), (CHR ''t'', CHR 0x09)}"
    and "json_unbody r = Some (out, rest)"
  shows "json_unbody ([backslash, e] @ r) = Some (x # out, rest)"
  using assms by (auto simp: json_unbody.simps(2) [of backslash] quote_byte_def backslash_def
      json_unbody.simps(2) [of backslash, unfolded backslash_def])

lemma code_of_eqD: "code_of c = n \<Longrightarrow> char_of n = c"
  by auto

lemma control_chars:
  "char_of (8::nat) = CHR 0x08" "char_of (12::nat) = CHR 0x0C" "char_of (10::nat) = CHR 0x0A"
  "char_of (13::nat) = CHR 0x0D" "char_of (9::nat) = CHR 0x09" "char_of (80::nat) = CHR ''P''" "char_of (84::nat) = CHR ''T''"
  by code_simp+

lemma unbody_ascii:
  assumes "code_of c < 128" and "json_unbody r = Some (out, rest)"
  shows "json_unbody (ascii_escape c @ r) = Some (c # out, rest)"
proof -
  let ?n = "code_of c :: nat"
  consider (q) "c = quote_byte \<or> c = backslash"
    | (short) "c \<noteq> quote_byte" "c \<noteq> backslash" "?n \<in> {8, 12, 10, 13, 9}"
    | (u) "c \<noteq> quote_byte" "c \<noteq> backslash" "?n \<notin> {8, 12, 10, 13, 9}" "?n < 32 \<or> ?n = 60 \<or> ?n = 62 \<or> ?n = 38"
    | (plain) "c \<noteq> quote_byte" "c \<noteq> backslash" "?n \<notin> {8, 12, 10, 13, 9}" "\<not> (?n < 32 \<or> ?n = 60 \<or> ?n = 62 \<or> ?n = 38)"
    by blast
  then show ?thesis
  proof cases
    case q
    then have "ascii_escape c = [backslash, c]" by (simp add: ascii_escape_def)
    with q assms(2) show ?thesis using unbody_short [of c c r out rest] by auto
  next
    case short
    then obtain e where e: "ascii_escape c = [backslash, e]" "(e, c) \<in> {(CHR ''b'', CHR 0x08), (CHR ''f'', CHR 0x0C),
        (CHR ''n'', CHR 0x0A), (CHR ''r'', CHR 0x0D), (CHR ''t'', CHR 0x09)}"
      by (auto simp: ascii_escape_def control_chars dest!: code_of_eqD)
    with assms(2) show ?thesis using unbody_short [of e c r out rest] by auto
  next
    case u
    then have "ascii_escape c = u_escape ?n" by (simp add: ascii_escape_def)
    with assms show ?thesis using unbody_u [of ?n r out rest] by (simp add: utf8_encode_def)
  next
    case plain
    then have "ascii_escape c = [c]" "32 \<le> ?n" by (auto simp: ascii_escape_def)
    with plain assms show ?thesis using unbody_rune [of c r 1 r out rest] by (simp add: rune_len_ascii)
  qed
qed

lemma unbody_body: "valid_utf8 s \<Longrightarrow> json_unbody (json_body s @ quote_byte # rest) = Some (s, rest)"
proof (induction s rule: json_body.induct)
  case 1
  show ?case by (simp add: json_body.simps unbody_quote)
next
  case (2 c s)
  let ?k = "rune_len (c # s)"
  have k: "?k \<noteq> 0" and valid: "valid_utf8 (drop (?k - 1) s)" using "2.prems" by (simp_all add: valid_utf8.simps)
  show ?case
  proof (cases "?k = 1")
    case True
    then have "json_unbody (json_body s @ quote_byte # rest) = Some (s, rest)" using "2.IH"(2) valid by simp
    moreover have "code_of c < 128" using True by (simp only: rune_len_one)
    ultimately show ?thesis using unbody_ascii True by (simp add: json_body.simps)
  next
    case False
    have hi: "128 \<le> code_of c" using False rune_len_one [of c s] by simp
    then have plain: "32 \<le> code_of c" "c \<noteq> quote_byte" "c \<noteq> backslash" by (auto simp: quote_byte_def backslash_def)
    let ?ls = "?k = 3 \<and> code_of c = 226 \<and> code_of (s ! 0) = 128 \<and> (code_of (s ! 1) = 168 \<or> code_of (s ! 1) = 169)"
    show ?thesis
    proof (cases ?ls)
      case True
      then have "json_unbody (json_body (drop 2 s) @ quote_byte # rest) = Some (drop 2 s, rest)"
        using "2.IH"(3) valid by simp
      moreover have "utf8_encode (8232 + (code_of (s ! 1) - 168)) @ drop 2 s = c # s"
      proof -
        have "2 \<le> length s" using True rune_len_le [of "c # s"] by simp
        then obtain x y t where s: "s = x # y # t" by (cases s; cases "tl s") auto
        with True have "c = char_of (226::nat)" "x = char_of (128::nat)" "y = char_of (168::nat) \<or> y = char_of (169::nat)"
          using code_of_eqD by (metis nth_Cons_0, metis nth_Cons_0, metis nth_Cons_0 nth_Cons_Suc One_nat_def)
        with s show ?thesis by (auto simp: utf8_encode_def)
      qed
      ultimately show ?thesis
        using True unbody_u [of "8232 + (code_of (s ! 1) - 168)"] by (auto simp: json_body.simps)
    next
      case False
      then have "json_unbody (json_body (drop (?k - 1) s) @ quote_byte # rest) = Some (drop (?k - 1) s, rest)"
        using "2.IH"(4) valid k \<open>?k \<noteq> 1\<close> by simp
      from unbody_rune [OF plain refl k this] have
        "json_unbody (take ?k (c # s) @ json_body (drop (?k - 1) s) @ quote_byte # rest) = Some (take ?k (c # s) @ drop (?k - 1) s, rest)" .
      moreover have "take ?k (c # s) @ drop (?k - 1) s = c # s" using k by (cases ?k) auto
      moreover have "json_body (c # s) = take ?k (c # s) @ json_body (drop (?k - 1) s)"
        using False \<open>?k \<noteq> 1\<close> k by (simp only: json_body.simps Let_def if_False)
      ultimately show ?thesis by simp
    qed
  qed
qed

lemma json_unstring_string: "valid_utf8 s \<Longrightarrow> json_unstring (json_string s @ r) = Some (s, r)"
  using unbody_body [of s r] by (simp add: json_unstring_def json_string_def)

lemma json_int_text:
  assumes "0 \<le> n" and "n < 2 ^ 63" and "r \<noteq> []" and "\<not> is_digit (hd r)"
  shows "json_int (int_text n @ r) = Some (n, r)"
proof -
  let ?ds = "Itoa (nat n)"
  have digits: "\<forall>c \<in> set ?ds. is_digit c" using Itoa_digits by blast
  have "hd ?ds \<in> set ?ds" by simp
  with digits have "is_digit (hd ?ds)" by blast
  then have "hd ?ds \<noteq> CHR ''-''" by (auto simp: is_digit_def)
  moreover have "takeWhile is_digit (?ds @ r) = ?ds" "dropWhile is_digit (?ds @ r) = r"
    using digits assms(3,4) by (cases r; simp add: takeWhile_append dropWhile_append)+
  moreover have "\<not> (length ?ds > 1 \<and> hd ?ds = CHR ''0'')" using Itoa_no_leading_zero by blast
  ultimately show ?thesis using assms by (simp add: json_int_def int_text_def Let_def)
qed

lemma skip_ws_id: "s \<noteq> [] \<Longrightarrow> \<not> json_ws (hd s) \<Longrightarrow> skip_ws s = s"
  by (cases s) (simp_all add: skip_ws_def)

lemma quote_not_ws [simp]: "\<not> json_ws quote_byte"
  by (simp add: json_ws_def quote_byte_def)

lemma skip_ws_string [simp]: "skip_ws (json_string s @ r) = json_string s @ r"
  by (rule skip_ws_id) (simp_all add: json_string_def)

lemma skip_ws_punct [simp]: "c \<in> set '':,{}'' \<Longrightarrow> skip_ws (c # r) = c # r"
  by (rule skip_ws_id) (auto simp: json_ws_def)

lemma skip_ws_int:
  assumes "0 \<le> n" shows "skip_ws (int_text n @ r) = int_text n @ r"
proof (rule skip_ws_id)
  have "hd (Itoa (nat n)) \<in> set (Itoa (nat n))" by simp
  from Itoa_digits [OF this] show "\<not> json_ws (hd (int_text n @ r))"
    using assms by (auto simp: int_text_def json_ws_def is_digit_def)
qed (use assms in \<open>simp add: int_text_def\<close>)

lemma valid_utf8_ascii: "code_of c < 128 \<Longrightarrow> valid_utf8 [c]"
  by (simp add: valid_utf8.simps rune_len_ascii)

lemma member_step:
  assumes "valid_utf8 k" and "json_field k (skip_ws v) t = Some (t', d # r)" and "d = CHR '','' \<or> d = CHR ''}''"
  shows "json_members (Suc fuel) (json_string k @ '':'' @ v) t = (if d = CHR '','' then json_members fuel r t' else Some t')"
  using assms by (auto simp: json_unstring_string)

lemma json_field_string:
  assumes "valid_utf8 x"
  shows "json_field ''p'' (json_string x @ r) t = Some (t\<lparr>tok_Project := x\<rparr>, r)"
    and "json_field ''t'' (json_string x @ r) t = Some (t\<lparr>tok_Tenant := x\<rparr>, r)"
  using json_unstring_string [OF assms, of r] by (simp_all add: json_field_def field_is_def control_chars)

lemma json_field_int:
  assumes "0 \<le> n" and "n < 2 ^ 63" and "r \<noteq> []" and "\<not> is_digit (hd r)"
  shows "json_field ''s'' (int_text n @ r) t = Some (t\<lparr>tok_Seq := n\<rparr>, r)"
  using json_int_text [OF assms] by (simp add: json_field_def field_is_def control_chars)

lemma json_untoken_object:
  assumes "m = quote_byte # x"
    and "json_members (Suc (length m)) m \<lparr>tok_Project = [], tok_Tenant = [], tok_Seq = 0\<rparr> = Some t"
  shows "json_untoken (CHR ''{'' # m) = Some t"
proof -
  have "skip_ws m = quote_byte # x" using assms(1) skip_ws_id [of m] by simp
  moreover have "quote_byte \<noteq> CHR ''}''" by (simp add: quote_byte_def)
  ultimately show ?thesis
    using assms(2) by (simp add: json_untoken_def Let_def del: json_members.simps)
qed

lemma json_token_roundtrip:
  assumes "valid_utf8 (tok_Project t)" and "valid_utf8 (tok_Tenant t)" and "0 \<le> tok_Seq t" and "tok_Seq t < 2 ^ 63"
  shows "json_untoken (json_token t) = Some t"
proof -
  let ?z = "\<lparr>tok_Project = [], tok_Tenant = [], tok_Seq = 0\<rparr>"
  let ?m3 = "json_string ''s'' @ '':'' @ int_text (tok_Seq t) @ ''}''"
  let ?m2 = "json_string ''t'' @ '':'' @ json_string (tok_Tenant t) @ CHR '','' # ?m3"
  let ?m1 = "json_string ''p'' @ '':'' @ json_string (tok_Project t) @ CHR '','' # ?m2"
  have names: "valid_utf8 ''p''" "valid_utf8 ''t''" "valid_utf8 ''s''" by (simp_all add: valid_utf8_ascii)
  have "json_members (Suc f) ?m3 u = Some (u\<lparr>tok_Seq := tok_Seq t\<rparr>)" for f u
    using member_step [OF names(3), of "int_text (tok_Seq t) @ ''}''" u]
      json_field_int [OF assms(3,4), of "''}''"] skip_ws_int [OF assms(3)] by (simp add: is_digit_def)
  moreover have "json_members (Suc (Suc f)) ?m2 u = json_members (Suc f) ?m3 (u\<lparr>tok_Tenant := tok_Tenant t\<rparr>)" for f u
    using member_step [OF names(2), of "json_string (tok_Tenant t) @ CHR '','' # ?m3" u]
      json_field_string(2) [OF assms(2)] by simp
  moreover have "json_members (Suc (Suc (Suc f))) ?m1 u = json_members (Suc (Suc f)) ?m2 (u\<lparr>tok_Project := tok_Project t\<rparr>)" for f u
    using member_step [OF names(1), of "json_string (tok_Project t) @ CHR '','' # ?m2" u]
      json_field_string(1) [OF assms(1)] by simp
  ultimately have members: "json_members (Suc (Suc (Suc f))) ?m1 ?z = Some t" for f by simp
  have token: "json_token t = CHR ''{'' # ?m1" by (simp add: json_token_def)
  show ?thesis
    unfolding token
  proof (rule json_untoken_object)
    show "?m1 = quote_byte # (json_body ''p'' @ [quote_byte]) @ '':'' @ json_string (tok_Project t) @ CHR '','' # ?m2"
      by (simp add: json_string_def)
    have "Suc (length ?m1) = Suc (Suc (Suc (length ?m1 - 2)))" by simp
    with members [of "length ?m1 - 2"] show "json_members (Suc (length ?m1)) ?m1 ?z = Some t" by (simp only:)
  qed
qed

text \<open>C16. A token decodes to what was encoded: for a project and a tenant of valid UTF-8, whatever
  characters they contain, and any sequence number the store can issue, \<^verbatim>\<open>Decode\<close> recovers the shard
  and the sequence \<^verbatim>\<open>Encode\<close> was given.\<close>

theorem token_roundtrip:
  assumes "valid_utf8 p" and "valid_utf8 t" and "0 \<le> n" and "n < 2 ^ 63"
  shows "Decode (Encode p t n) = Some \<lparr>tok_Project = p, tok_Tenant = t, tok_Seq = n\<rparr>"
  using assms json_token_roundtrip [of "\<lparr>tok_Project = p, tok_Tenant = t, tok_Seq = n\<rparr>"]
  by (simp add: Decode_def Encode_def tok_prefix_def b64_roundtrip)

theorem token_roundtrip_witness:
  "valid_utf8 [CHR ''a'', CHR 0x22, CHR 0xC3, CHR 0xA9] \<and>
   Decode (Encode [CHR ''a'', CHR 0x22, CHR 0xC3, CHR 0xA9] [] 7) =
     Some \<lparr>tok_Project = [CHR ''a'', CHR 0x22, CHR 0xC3, CHR 0xA9], tok_Tenant = [], tok_Seq = 7\<rparr>"
proof -
  have "valid_utf8 [CHR ''a'', CHR 0x22, CHR 0xC3, CHR 0xA9]" by code_simp
  with token_roundtrip [OF this, of "[]" 7] show ?thesis by simp
qed

end
