(* ===== verification/Service_Authz.thy ===== *)
theory Service_Authz
  imports Service_Ops Consistency_Token
begin

section \<open>The authorization surface of the service (internal/service: authz.go, batchcheck.go, auditlog.go, decisionlog.go)\<close>

text \<open>
  Raw tuple writes and reads, the four evaluations with the project guards in front of them,
  consistency tokens, offboarding and export, and batches. The order in which \<^verbatim>\<open>CheckSet\<close> ranges over
  the members it resolved is the argument \<open>rng\<close>.
\<close>

subsection \<open>Audit and decision logs\<close>

definition auditTupleChanges :: "time \<Rightarrow> principal \<Rightarrow> tuple list \<Rightarrow> tuple list \<Rightarrow> unit svc" where
  "auditTupleChanges now p inserts deletes s =
     (let emit = (\<lambda>op t. TupleChange
            \<lparr>tc_Op = op, tc_ProjectID = p_ProjectID p, tc_TenantID = p_TenantID p, tc_Namespace = t_Namespace t,
             tc_ObjectID = t_ObjectID t, tc_Relation = t_Relation t, tc_SubjectUserID = UserID (t_Subject t),
             tc_SubjectSet = s_Set (t_Subject t), tc_Wildcard = Wildcard (t_Subject t), tc_Caller = p_Caller p, tc_At = now\<rparr>) in
      (Inr (), s\<lparr>s_auditLog := map_option (\<lambda>l. l @ map (emit TupleOpInsert) inserts @ map (emit TupleOpDelete) deletes)
                 (s_auditLog s)\<rparr>))"

definition logDecision :: "decisionRecord \<Rightarrow> service \<Rightarrow> service" where
  "logDecision rec s = s\<lparr>s_decisionLog := map_option (\<lambda>l. l @ [rec]) (s_decisionLog s)\<rparr>"

text \<open>The deferred call that records the outcome, whatever it is.\<close>

definition withDecisionLog ::
  "time \<Rightarrow> principal \<Rightarrow> string \<Rightarrow> string \<Rightarrow> string \<Rightarrow> string \<Rightarrow> subjectSet option \<Rightarrow> bool svc \<Rightarrow> bool svc" where
  "withDecisionLog now p namespace objectID relation subjectUserID subjectSet body s =
     (case body s of
        (r, s') \<Rightarrow> (r, logDecision
          \<lparr>dr_ProjectID = p_ProjectID p, dr_TenantID = p_TenantID p, dr_Namespace = namespace, dr_ObjectID = objectID,
           dr_Relation = relation, dr_SubjectUserID = subjectUserID, dr_SubjectSet = subjectSet, dr_Allowed = (r = Inr True),
           dr_Err = (case r of Inl e \<Rightarrow> Some e | Inr _ \<Rightarrow> None), dr_Caller = p_Caller p, dr_DecidedAt = now\<rparr> s'))"

subsection \<open>Tuple writes and reads\<close>

record tupleOp =
  to_Delete :: bool
  to_Tuple :: tuple

definition validateTuple :: "tuple \<Rightarrow> unit result" where
  "validateTuple t =
     (let sub = t_Subject t in
      if t_Namespace t = [] \<or> t_ObjectID t = [] \<or> t_Relation t = [] then Inl ErrInvalidArgument
      else if t_Namespace t = seatNamespace then Inl ErrInvalidArgument
      else if list_ex HasControlChar [t_Namespace t, t_ObjectID t, t_Relation t, UserID sub] then Inl ErrInvalidArgument
      else if (case s_Set sub of
                 Some st \<Rightarrow> HasControlChar (ss_Namespace st) \<or> HasControlChar (ss_ObjectID st) \<or> HasControlChar (ss_Relation st)
               | None \<Rightarrow> False) then Inl ErrInvalidArgument
      else if (if UserID sub \<noteq> [] then 1 else 0) + (if s_Set sub \<noteq> None then 1 else 0) + (if Wildcard sub then 1 else (0::nat)) \<noteq> 1
      then Inl ErrInvalidArgument
      else if (case s_Set sub of Some st \<Rightarrow> ss_Namespace st = [] \<or> ss_ObjectID st = [] | None \<Rightarrow> False) then Inl ErrInvalidArgument
      else if (case s_Condition sub of Some c \<Rightarrow> c_Name c \<noteq> [] \<and> \<not> KnownCondition (c_Name c) | None \<Rightarrow> False)
      then Inl ErrInvalidArgument
      else Inr ())"

fun splitOps :: "tupleOp list \<Rightarrow> (tuple list \<times> tuple list) result" where
  "splitOps [] = Inr ([], [])"
| "splitOps (op # ops) =
     (case validateTuple (to_Tuple op) of
        Inl err \<Rightarrow> Inl err
      | Inr _ \<Rightarrow>
          (case splitOps ops of
             Inl err \<Rightarrow> Inl err
           | Inr (inserts, deletes) \<Rightarrow>
               if to_Delete op then Inr (inserts, to_Tuple op # deletes) else Inr (to_Tuple op # inserts, deletes)))"

definition svc_WriteTuples :: "time \<Rightarrow> principal \<Rightarrow> tupleOp list \<Rightarrow> string svc" where
  "svc_WriteTuples now p ops =
     bindR (lift (splitOps ops)) (\<lambda>(inserts, deletes).
     bindR (ensureProjectActive now p) (\<lambda>_.
     bindR (if length inserts > 0 then
              bindR (resolve now (p_ProjectID p)) (\<lambda>res.
                if list_all (\<lambda>t. WritableRelation (modelOrDefault res) (t_Namespace t) (t_Relation t)) inserts
                then ret () else fail ErrInvalidArgument)
            else ret ()) (\<lambda>_.
     bindR (repo_write (mem_WriteTuples (p_ProjectID p) (p_TenantID p) inserts deletes)) (\<lambda>_.
     bindR (auditTupleChanges now p inserts deletes) (\<lambda>_.
     bindR (repo_read (mem_ConsistencyToken (p_ProjectID p) (p_TenantID p))) (\<lambda>sequence.
     ret (Encode (p_ProjectID p) (p_TenantID p) sequence)))))))"

definition EnsureConsistency :: "principal \<Rightarrow> string \<Rightarrow> unit svc" where
  "EnsureConsistency p token =
     (if token = [] then ret ()
      else (case Decode token of
              None \<Rightarrow> fail ErrInvalidArgument
            | Some tok \<Rightarrow>
                if tok_Project tok \<noteq> p_ProjectID p \<or> tok_Tenant tok \<noteq> p_TenantID p then fail ErrInvalidArgument
                else bindR (repo_read (mem_ConsistencyToken (p_ProjectID p) (p_TenantID p))) (\<lambda>current.
                  if current < tok_Seq tok then fail ErrFailedPrecondition else ret ())))"

definition svc_ReadTuples :: "time \<Rightarrow> principal \<Rightarrow> tupleFilter \<Rightarrow> tuple list svc" where
  "svc_ReadTuples now p f =
     bindR (ensureRegion now p) (\<lambda>_.
     repo_read (mem_ReadTuples now (p_ProjectID p) (p_TenantID p) f))"

subsection \<open>Evaluation\<close>

definition svc_Check ::
  "time \<Rightarrow> principal \<Rightarrow> string \<Rightarrow> string \<Rightarrow> string \<Rightarrow> string \<Rightarrow> params \<Rightarrow> bool svc" where
  "svc_Check now p namespace objectID relation subjectUserID reqContext =
     (if namespace = [] \<or> objectID = [] \<or> relation = [] \<or> subjectUserID = [] then fail ErrInvalidArgument
      else withDecisionLog now p namespace objectID relation subjectUserID None (
        bindR (resolve now (p_ProjectID p)) (\<lambda>res.
        bindR (regionServable res) (\<lambda>_.
        if rs_suspended res then ret False
        else (\<lambda>s. (mapBudgetErr (fst (CheckWithModel (svc_engine now s) None (modelOrDefault res) (p_ProjectID p) (p_TenantID p)
                      namespace objectID relation subjectUserID reqContext (rs_maxCheckReads res))), s))))))"

definition svc_CheckSet ::
  "(string set \<Rightarrow> string list) \<Rightarrow> time \<Rightarrow> principal \<Rightarrow> string \<Rightarrow> string \<Rightarrow> string \<Rightarrow> subjectSet \<Rightarrow> params \<Rightarrow> bool svc" where
  "svc_CheckSet rng now p namespace objectID relation sset reqContext =
     (if namespace = [] \<or> objectID = [] \<or> relation = [] then fail ErrInvalidArgument
      else if ss_Namespace sset = [] \<or> ss_ObjectID sset = [] \<or> ss_Relation sset = [] then fail ErrInvalidArgument
      else withDecisionLog now p namespace objectID relation [] (Some sset) (
        bindR (resolve now (p_ProjectID p)) (\<lambda>res.
        bindR (regionServable res) (\<lambda>_.
        if rs_suspended res then ret False
        else (\<lambda>s. (mapBudgetErr (fst (CheckSetWithModel rng (svc_engine now s) None (modelOrDefault res) (p_ProjectID p) (p_TenantID p)
                      namespace objectID relation sset reqContext (rs_maxCheckReads res))), s))))))"

definition svc_Expand :: "time \<Rightarrow> principal \<Rightarrow> string \<Rightarrow> string \<Rightarrow> string \<Rightarrow> tree svc" where
  "svc_Expand now p namespace objectID relation =
     (if namespace = [] \<or> objectID = [] \<or> relation = [] then fail ErrInvalidArgument
      else bindR (resolve now (p_ProjectID p)) (\<lambda>res.
        bindR (regionServable res) (\<lambda>_.
        if rs_suspended res then fail ErrFailedPrecondition
        else (\<lambda>s. case fst (ExpandWithModel (svc_engine now s) None (modelOrDefault res) (p_ProjectID p) (p_TenantID p)
                              namespace objectID relation (s_maxExpandNodes s) (rs_maxCheckReads res)) of
                    Inl err \<Rightarrow> if errors_Is err ErrExpandTooLarge then (Inl ErrResourceExhausted, s)
                               else (mapBudgetErr (Inl err), s)
                  | Inr tree \<Rightarrow> (Inr tree, s)))))"

definition svc_ListObjects :: "time \<Rightarrow> principal \<Rightarrow> string \<Rightarrow> string \<Rightarrow> string \<Rightarrow> string list svc" where
  "svc_ListObjects now p namespace relation subjectUserID =
     (if namespace = [] \<or> relation = [] \<or> subjectUserID = [] then fail ErrInvalidArgument
      else bindR (resolve now (p_ProjectID p)) (\<lambda>res.
        bindR (regionServable res) (\<lambda>_.
        if rs_suspended res then fail ErrFailedPrecondition
        else (\<lambda>s. case fst (ListObjectsWithModel (svc_engine now s) None (modelOrDefault res) (p_ProjectID p) (p_TenantID p)
                              namespace relation subjectUserID (s_maxListObjects s) (rs_maxCheckReads res)) of
                    Inl err \<Rightarrow> if errors_Is err ErrTooManyObjects then (Inl ErrResourceExhausted, s)
                               else (mapBudgetErr (Inl err), s)
                  | Inr ids \<Rightarrow> (Inr ids, s)))))"

subsection \<open>Offboarding and export\<close>

definition DeprovisionUser :: "time \<Rightarrow> principal \<Rightarrow> string \<Rightarrow> int svc" where
  "DeprovisionUser now p userID =
     (if userID = [] then fail ErrInvalidArgument
      else bindR (ensureRegion now p) (\<lambda>_.
        repo_write (mem_DeleteAllSubjectTuplesInProject (p_ProjectID p) userID)))"

record subjectGrant =
  sg_TenantID :: string
  sg_Namespace :: string
  sg_ObjectID :: string
  sg_Relation :: string
  sg_ViaGroup :: string

definition grant_of :: "tupleAt \<Rightarrow> string \<Rightarrow> subjectGrant" where
  "grant_of ta via = \<lparr>sg_TenantID = ta_TenantID ta, sg_Namespace = t_Namespace (ta_Tuple ta), sg_ObjectID = t_ObjectID (ta_Tuple ta),
     sg_Relation = t_Relation (ta_Tuple ta), sg_ViaGroup = via\<rparr>"

definition ExportSubjectGrants :: "time \<Rightarrow> principal \<Rightarrow> string \<Rightarrow> subjectGrant list svc" where
  "ExportSubjectGrants now p userID =
     (if userID = [] then fail ErrInvalidArgument
      else bindR (ensureRegion now p) (\<lambda>_.
        bindR (repo_read (mem_ListSubjectTuplesInProject now (p_ProjectID p) userID)) (\<lambda>direct.
        let out = map (\<lambda>ta. grant_of ta []) direct;
            groupSets = map (\<lambda>ta. \<lparr>ss_Namespace = ''group'', ss_ObjectID = t_ObjectID (ta_Tuple ta), ss_Relation = ''member''\<rparr>)
                          (filter (\<lambda>ta. t_Namespace (ta_Tuple ta) = ''group'' \<and> t_Relation (ta_Tuple ta) = ''member'') direct) in
        if length groupSets > 0 then
          bindR (repo_read (mem_ListTuplesForSubjectSetsInProject now (p_ProjectID p) groupSets)) (\<lambda>viaGroup.
          ret (out @ map (\<lambda>ta. grant_of ta (ss_ObjectID (the (s_Set (t_Subject (ta_Tuple ta)))))) viaGroup))
        else ret out)))"

subsection \<open>Batches\<close>

record batchCheckItem =
  bi_Namespace :: string
  bi_ObjectID :: string
  bi_Relation :: string
  bi_SubjectUserID :: string

record batchCheckResult =
  br_Allowed :: bool
  br_Err :: "go_error option"

text \<open>\<open>ctxErr\<close> is what the request context reports before each item, in order.\<close>

fun svc_BatchCheck ::
  "time \<Rightarrow> principal \<Rightarrow> (nat \<Rightarrow> go_error option) \<Rightarrow> nat \<Rightarrow> batchCheckItem list \<Rightarrow> batchCheckResult list svc" where
  "svc_BatchCheck now p ctxErr i [] = ret []"
| "svc_BatchCheck now p ctxErr i (it # items) =
     (case ctxErr i of
        Some err \<Rightarrow> fail err
      | None \<Rightarrow>
          tryR (svc_Check now p (bi_Namespace it) (bi_ObjectID it) (bi_Relation it) (bi_SubjectUserID it) []) (\<lambda>r.
            case r of
              Inr ok \<Rightarrow> bindR (svc_BatchCheck now p ctxErr (Suc i) items) (\<lambda>rs. ret (\<lparr>br_Allowed = ok, br_Err = None\<rparr> # rs))
            | Inl err \<Rightarrow>
                if errors_Is err ErrInvalidArgument \<or> errors_Is err ErrResourceExhausted
                then bindR (svc_BatchCheck now p ctxErr (Suc i) items) (\<lambda>rs. ret (\<lparr>br_Allowed = False, br_Err = Some err\<rparr> # rs))
                else fail err))"

end
