(* ===== verification/Service_Laws.thy ===== *)
theory Service_Laws
  imports Service_Authz
begin

section \<open>Frames and invariants of the service\<close>

text \<open>
  What the guards and the queries leave alone (\<open>keeps\<close>), the step relation of the service with one
  rule per method (\<open>svc_step\<close>), and the locale \<open>repo_invariant\<close>: a predicate of the repository that
  every repository write keeps, seat tuples being written through the seat ledger only, holds
  along every run of the service.
\<close>

subsection \<open>Frames\<close>

definition keeps :: "('s \<Rightarrow> 'b) \<Rightarrow> ('a, 's) operation \<Rightarrow> bool" where
  "keeps f m \<longleftrightarrow> (\<forall>s. f (snd (m s)) = f s)"

named_theorems keep \<open>frame rules\<close>

lemma keepsD: "keeps f m \<Longrightarrow> m s = (r, s') \<Longrightarrow> f s' = f s"
  unfolding keeps_def by (metis snd_conv)

lemma keeps_snd: "keeps f m \<Longrightarrow> f (snd (m s)) = f s"
  by (simp add: keeps_def)

lemma keeps_ret [keep]: "keeps f (ret x)"
  by (simp add: keeps_def)

lemma keeps_fail [keep]: "keeps f (fail e)"
  by (simp add: keeps_def)

lemma keeps_bindR [keep]: "keeps f m \<Longrightarrow> (\<And>x. keeps f (g x)) \<Longrightarrow> keeps f (bindR m g)"
  unfolding keeps_def bindR_def by (auto split: prod.split sum.split) (metis snd_conv)+

lemma keeps_tryR [keep]: "keeps f m \<Longrightarrow> (\<And>x. keeps f (g x)) \<Longrightarrow> keeps f (tryR m g)"
  unfolding keeps_def tryR_def by (auto split: prod.split) (metis snd_conv)

lemma keeps_if [keep]: "keeps f m \<Longrightarrow> keeps f n \<Longrightarrow> keeps f (if b then m else n)"
  by simp

lemma keeps_sum [keep]:
  "(\<And>e. keeps f (g e)) \<Longrightarrow> (\<And>x. keeps f (h x)) \<Longrightarrow> keeps f (case r of Inl e \<Rightarrow> g e | Inr x \<Rightarrow> h x)"
  by (simp split: sum.split)

lemma keeps_lift [keep]: "keeps f (lift r)"
  by (simp add: keeps_def lift_def)

lemma keeps_repo_read [keep]: "keeps f (repo_read g)"
  by (simp add: keeps_def repo_read_def)

lemma keeps_pure [keep]: "keeps f (\<lambda>s. (g s, s))"
  by (simp add: keeps_def)

lemma keeps_regionServable [keep]: "keeps f (regionServable res)"
  by (simp add: keeps_def regionServable_def)

lemma keeps_resolve [keep]: "keeps s_repo (resolve now p)"
  by (simp add: keeps_def resolve_def split: prod.split option.split sum.split)

lemma keeps_ModelFor [keep]: "keeps s_repo (ModelFor now p)"
  unfolding ModelFor_def by (intro keep)

lemma keeps_ensureRegion [keep]: "keeps s_repo (ensureRegion now p)"
proof -
  have "keeps s_repo (bindR (resolve now (p_ProjectID p)) regionServable)" by (intro keep)
  then show ?thesis by (simp add: keeps_def ensureRegion_def)
qed

lemma keeps_ensureProjectActive [keep]: "keeps s_repo (ensureProjectActive now p)"
  unfolding ensureProjectActive_def by (intro keep)

lemma keeps_allowed [keep]: "keeps s_repo (allowed now p w rel)"
  using keeps_ModelFor [of now "p_ProjectID p"] by (simp add: keeps_def allowed_def)

lemma keeps_requireWorkspace [keep]: "keeps s_repo (requireWorkspace now p w rel)"
  unfolding requireWorkspace_def by (intro keep)

lemma keeps_requireGroupManager [keep]: "keeps s_repo (requireGroupManager now p g)"
  unfolding requireGroupManager_def by (intro keep)

lemma keeps_invalidate [keep]: "keeps s_repo (invalidate i)"
  by (simp add: keeps_def invalidate_def)

lemma keeps_LogAdminMutation [keep]: "keeps s_repo (LogAdminMutation rec)"
  by (simp add: keeps_def LogAdminMutation_def)

lemma keeps_auditTupleChanges [keep]: "keeps s_repo (auditTupleChanges now p ins del)"
  by (simp add: keeps_def auditTupleChanges_def Let_def)

lemma keeps_withDecisionLog [keep]:
  "keeps s_repo body \<Longrightarrow> keeps s_repo (withDecisionLog now p ns obj rel u sset body)"
  by (simp add: keeps_def withDecisionLog_def logDecision_def split: prod.split) (metis snd_conv)

subsection \<open>Queries leave the repository alone\<close>

lemma keeps_svc_Check [keep]: "keeps s_repo (svc_Check now p ns obj rel u cc)"
  unfolding svc_Check_def by (intro keep)

lemma keeps_svc_CheckSet [keep]: "keeps s_repo (svc_CheckSet rng now p ns obj rel sset cc)"
  unfolding svc_CheckSet_def by (intro keep)

lemma keeps_svc_Expand [keep]: "keeps s_repo (svc_Expand now p ns obj rel)"
  unfolding svc_Expand_def by (intro keep) (simp add: keeps_def split: sum.split)

lemma keeps_svc_ListObjects [keep]: "keeps s_repo (svc_ListObjects now p ns rel u)"
  unfolding svc_ListObjects_def by (intro keep) (simp add: keeps_def split: sum.split)

lemma keeps_svc_BatchCheck [keep]: "keeps s_repo (svc_BatchCheck now p ctxErr i items)"
  by (induction items arbitrary: i) (auto intro!: keep split: option.split)

lemma keeps_reads [keep]:
  "keeps s_repo (svc_GetWorkspace now p i)" "keeps s_repo (svc_ListMembers now p i)"
  "keeps s_repo (svc_ListInvitations now p i)" "keeps s_repo (svc_ListGroups now p i)"
  "keeps s_repo (svc_ListGroupMembers now p i)" "keeps s_repo (svc_ListEnrollments now p i)"
  "keeps s_repo (svc_ReadTuples now p f)" "keeps s_repo (EnsureServable now p)"
  unfolding svc_GetWorkspace_def svc_ListMembers_def svc_ListInvitations_def svc_ListGroups_def
    svc_ListGroupMembers_def svc_ListEnrollments_def svc_ReadTuples_def EnsureServable_def
  by (intro keep)+

lemma keeps_ExportSubjectGrants [keep]: "keeps s_repo (ExportSubjectGrants now p u)"
  unfolding ExportSubjectGrants_def Let_def by (intro keep)

subsection \<open>Steps of the service\<close>

text \<open>
  One rule per method that can change the state: the repository, the resolver cache or a log. The
  label separates the raw tuple writes and the offboarding of a user, which bypass the typed
  operations, from all others, and carries the token of a new invitation.
\<close>

datatype call = Typed | Invite string | RawTuples "tupleOp list" | Offboarding

inductive svc_step :: "call \<Rightarrow> service \<Rightarrow> service \<Rightarrow> bool" where
  CreateProject: "svc_step Typed s (snd (svc_CreateProject now i name model region mx s))"
| UpdateProject: "svc_step Typed s (snd (svc_UpdateProject now i name status model region clearRegion mx clearBudget s))"
| EnsureDefaultProject: "svc_step Typed s (snd (EnsureDefaultProject now i s))"
| EnsurePersonalWorkspace: "svc_step Typed s (snd (EnsurePersonalWorkspace now i p s))"
| CreateWorkspace: "svc_step Typed s (snd (svc_CreateWorkspace now i p name slug s))"
| GetWorkspace: "svc_step Typed s (snd (svc_GetWorkspace now p i s))"
| ListWorkspaces: "svc_step Typed s (snd (svc_ListWorkspaces now i p s))"
| UpdateWorkspace: "svc_step Typed s (snd (svc_UpdateWorkspace now p i name s))"
| DeleteWorkspace: "svc_step Typed s (snd (svc_DeleteWorkspace now p i s))"
| AddMember: "svc_step Typed s (snd (svc_AddMember now p w u role s))"
| UpdateMemberRole: "svc_step Typed s (snd (svc_UpdateMemberRole now p w u role s))"
| RemoveMember: "svc_step Typed s (snd (svc_RemoveMember now p w u s))"
| ListMembers: "svc_step Typed s (snd (svc_ListMembers now p w s))"
| SuspendMember: "svc_step Typed s (snd (svc_SuspendMember now p w u s))"
| ReinstateMember: "svc_step Typed s (snd (svc_ReinstateMember now p w u s))"
| TransferOwnership: "svc_step Typed s (snd (svc_TransferOwnership now p w u s))"
| CreateInvitation: "svc_step (Invite token) s (snd (svc_CreateInvitation now i token p w email role s))"
| AcceptInvitation: "svc_step Typed s (snd (svc_AcceptInvitation now p token s))"
| ListInvitations: "svc_step Typed s (snd (svc_ListInvitations now p w s))"
| RevokeInvitation: "svc_step Typed s (snd (svc_RevokeInvitation now p i s))"
| CreateGroup: "svc_step Typed s (snd (svc_CreateGroup now i p name slug w s))"
| ListGroups: "svc_step Typed s (snd (svc_ListGroups now p w s))"
| DeleteGroup: "svc_step Typed s (snd (svc_DeleteGroup now p i s))"
| AddGroupMember: "svc_step Typed s (snd (svc_AddGroupMember now p g m s))"
| RemoveGroupMember: "svc_step Typed s (snd (svc_RemoveGroupMember now p g m s))"
| ListGroupMembers: "svc_step Typed s (snd (svc_ListGroupMembers now p g s))"
| SetEnrollmentState: "svc_step Typed s (snd (svc_SetEnrollmentState now p g m state s))"
| ListEnrollments: "svc_step Typed s (snd (svc_ListEnrollments now p g s))"
| SetSeatLimit: "svc_step Typed s (snd (svc_SetSeatLimit now p sku limit s))"
| AssignSeat: "svc_step Typed s (snd (svc_AssignSeat now p sku u s))"
| RevokeSeat: "svc_step Typed s (snd (svc_RevokeSeat now p sku u s))"
| WriteTuples: "svc_step (RawTuples ops) s (snd (svc_WriteTuples now p ops s))"
| ReadTuples: "svc_step Typed s (snd (svc_ReadTuples now p f s))"
| Check: "svc_step Typed s (snd (svc_Check now p ns obj rel u cc s))"
| CheckSet: "svc_step Typed s (snd (svc_CheckSet rng now p ns obj rel sset cc s))"
| Expand: "svc_step Typed s (snd (svc_Expand now p ns obj rel s))"
| ListObjects: "svc_step Typed s (snd (svc_ListObjects now p ns rel u s))"
| DeprovisionUser: "svc_step Offboarding s (snd (DeprovisionUser now p u s))"
| ExportSubjectGrants: "svc_step Typed s (snd (ExportSubjectGrants now p u s))"
| BatchCheck: "svc_step Typed s (snd (svc_BatchCheck now p ctxErr n items s))"
| EnsureServable: "svc_step Typed s (snd (EnsureServable now p s))"

subsection \<open>Preservation rules for the building blocks\<close>

lemma preserves_bindR_lift:
  "(\<And>x. r = Inr x \<Longrightarrow> preserves I (f x)) \<Longrightarrow> preserves I (bindR (lift r) f)"
  by (cases r) (auto simp: preserves_def bindR_def lift_def)

lemma preserves_unchanged [preserve]:
  "preserves I (lift r)" "preserves I (repo_read g)" "preserves I (regionServable res)" "preserves I (\<lambda>s. (h s, s))"
  by (simp_all add: preserves_def lift_def repo_read_def regionServable_def)

lemma keeps_preserves: "keeps s_repo m \<Longrightarrow> preserves (\<lambda>s. J (s_repo s)) m"
  by (simp add: keeps_def preserves_def)

lemma preserves_repo_write: "(\<And>r. J r \<Longrightarrow> J (snd (f r))) \<Longrightarrow> preserves (\<lambda>s. J (s_repo s)) (repo_write f)"
  by (simp add: preserves_def repo_write_def split: prod.split) (metis snd_conv)

text \<open>
  A small calculus for methods that read before they write: from a service whose repository is \<open>r\<close>,
  the method leaves \<open>r\<close> or establishes \<open>E\<close>.
\<close>

definition writes :: "store \<Rightarrow> (store \<Rightarrow> bool) \<Rightarrow> 'a svc \<Rightarrow> bool" where
  "writes r E m \<longleftrightarrow> (\<forall>s. s_repo s = r \<longrightarrow> s_repo (snd (m s)) = r \<or> E (s_repo (snd (m s))))"

named_theorems writes_intros \<open>rules for \<open>writes\<close>\<close>

lemma preserves_writes: "(\<And>r. J r \<Longrightarrow> writes r J m) \<Longrightarrow> preserves (\<lambda>s. J (s_repo s)) m"
  unfolding preserves_def writes_def by metis

lemma writes_ret [writes_intros]: "writes r E (ret x)" "writes r E (fail e)" "writes r E (lift y)"
  by (simp_all add: writes_def lift_def)

lemma writes_keeps: "keeps s_repo m \<Longrightarrow> writes r E m"
  by (simp add: writes_def keeps_def)

lemma writes_guard: "keeps s_repo m \<Longrightarrow> (\<And>x. writes r E (f x)) \<Longrightarrow> writes r E (bindR m f)"
  unfolding writes_def keeps_def bindR_def by (auto split: prod.split sum.split) (metis snd_conv)+

lemma writes_read [writes_intros]:
  "(\<And>x. g r = Inr x \<Longrightarrow> writes r E (f x)) \<Longrightarrow> writes r E (bindR (repo_read g) f)"
  by (auto simp: writes_def bindR_def repo_read_def split: sum.split)

lemma writes_try_read [writes_intros]: "writes r E (f (g r)) \<Longrightarrow> writes r E (tryR (repo_read g) f)"
  by (auto simp: writes_def tryR_def repo_read_def)

lemma writes_lift [writes_intros]:
  "(\<And>x. y = Inr x \<Longrightarrow> writes r E (f x)) \<Longrightarrow> writes r E (bindR (lift y) f)"
  by (auto simp: writes_def bindR_def lift_def split: sum.split)

lemma writes_if [writes_intros]:
  "(b \<Longrightarrow> writes r E m) \<Longrightarrow> (\<not> b \<Longrightarrow> writes r E n) \<Longrightarrow> writes r E (if b then m else n)"
  by simp

lemma writes_sum [writes_intros]:
  "(\<And>e. y = Inl e \<Longrightarrow> writes r E (f e)) \<Longrightarrow> (\<And>x. y = Inr x \<Longrightarrow> writes r E (g x)) \<Longrightarrow>
   writes r E (case y of Inl e \<Rightarrow> f e | Inr x \<Rightarrow> g x)"
  by (simp split: sum.split)

lemma writes_repo_write [writes_intros]: "E (snd (f r)) \<Longrightarrow> writes r E (repo_write f)"
  by (auto simp: writes_def repo_write_def split: prod.split)

lemma writes_repo_write_ret [writes_intros]: "E (snd (f r)) \<Longrightarrow> writes r E (bindR (repo_write f) (\<lambda>_. ret x))"
  by (auto simp: writes_def bindR_def repo_write_def split: prod.split sum.split)

lemma requireWorkspace_row:
  "requireWorkspace now p i rel s = (Inr w, s') \<Longrightarrow> mem_GetWorkspace (p_ProjectID p) (p_TenantID p) i (s_repo s) = Inr w"
  by (auto simp: requireWorkspace_def bindR_def repo_read_def split: sum.splits prod.splits if_splits)

lemma writes_requireWorkspace [writes_intros]:
  assumes "\<And>w. mem_GetWorkspace (p_ProjectID p) (p_TenantID p) i r = Inr w \<Longrightarrow> writes r E (f w)"
  shows "writes r E (bindR (requireWorkspace now p i rel) f)"
  unfolding writes_def
proof (intro allI impI)
  fix s :: service
  assume r: "s_repo s = r"
  obtain y s1 where run: "requireWorkspace now p i rel s = (y, s1)" by force
  then have s1: "s_repo s1 = r" using keepsD [OF keeps_requireWorkspace run] r by simp
  show "s_repo (snd (bindR (requireWorkspace now p i rel) f s)) = r \<or> E (s_repo (snd (bindR (requireWorkspace now p i rel) f s)))"
  proof (cases y)
    case (Inl e)
    with run s1 show ?thesis by (simp add: bindR_def)
  next
    case (Inr w)
    with run requireWorkspace_row r have "mem_GetWorkspace (p_ProjectID p) (p_TenantID p) i r = Inr w" by metis
    from assms [OF this] run s1 Inr show ?thesis by (simp add: bindR_def writes_def)
  qed
qed

lemmas writes_guards [writes_intros] = writes_guard [OF keeps_ensureProjectActive] writes_guard [OF keeps_ensureRegion]
  writes_guard [OF keeps_requireGroupManager]

subsection \<open>Namespaces of the tuples the typed operations write\<close>

lemma userTuple_namespace [simp]: "t_Namespace (userTuple ns obj rel u) = ns"
  by (simp add: userTuple_def)

lemma seatTuple_namespace [simp]: "t_Namespace (seatTuple sku u) = seatNamespace"
  by (simp add: seatTuple_def)

lemma namespaces_differ [simp]:
  "''workspace'' \<noteq> seatNamespace" "''group'' \<noteq> seatNamespace" "seatNamespace \<noteq> ''workspace''" "seatNamespace \<noteq> ''group''"
  by (simp_all add: seatNamespace_def)

lemma groupMemberTuple_namespace: "groupMemberTuple g m = Inr t \<Longrightarrow> t_Namespace t = ''group''"
  by (auto simp: groupMemberTuple_def split: if_splits)

lemma splitOps_valid:
  "splitOps ops = Inr (ins, del) \<Longrightarrow> t \<in> set ins \<union> set del \<Longrightarrow> validateTuple t = Inr () \<and> t \<in> to_Tuple ` set ops"
  by (induction ops arbitrary: ins del) (auto split: sum.splits prod.splits if_splits)

lemma validateTuple_seat: "validateTuple t = Inr () \<Longrightarrow> t_Namespace t \<noteq> seatNamespace"
  by (auto simp: validateTuple_def Let_def split: if_splits)

subsection \<open>Invariants along the steps\<close>

text \<open>
  The contract between a predicate \<open>I\<close> of the service and its methods. \<open>free\<close> bounds the tuples raw
  writes may carry, \<open>off\<close> says whether a user may be offboarded, and \<open>mint\<close> bounds the tokens of new
  invitations. The methods on workspaces,
  members and invitations are assumed to keep \<open>I\<close> as a whole, because some of them write twice.
\<close>

fun call_ok :: "(tuple \<Rightarrow> bool) \<Rightarrow> bool \<Rightarrow> (string \<Rightarrow> bool) \<Rightarrow> call \<Rightarrow> bool" where
  "call_ok free off mint Typed \<longleftrightarrow> True"
| "call_ok free off mint (Invite token) \<longleftrightarrow> mint token"
| "call_ok free off mint (RawTuples ops) \<longleftrightarrow> (\<forall>op\<in>set ops. validateTuple (to_Tuple op) = Inr () \<longrightarrow> free (to_Tuple op))"
| "call_ok free off mint Offboarding \<longleftrightarrow> off"

locale guard_invariant =
  fixes I :: "service \<Rightarrow> bool"
  assumes I_resolve: "preserves I (resolve now i)"
    and I_audit: "I s \<Longrightarrow> I (s\<lparr>s_auditLog := al\<rparr>)"
    and I_decision: "I s \<Longrightarrow> I (s\<lparr>s_decisionLog := dl\<rparr>)"
begin

lemma I_ModelFor: "preserves I (ModelFor now i)"
  unfolding ModelFor_def by (intro preserve I_resolve)

lemma I_ensureRegion: "preserves I (ensureRegion now p)"
proof -
  have "preserves I (bindR (resolve now (p_ProjectID p)) regionServable)" by (intro preserve I_resolve)
  then show ?thesis by (simp add: preserves_def ensureRegion_def)
qed

lemma I_ensureProjectActive: "preserves I (ensureProjectActive now p)"
  unfolding ensureProjectActive_def by (intro preserve I_resolve)

lemma I_allowed: "preserves I (allowed now p w rel)"
  using I_ModelFor [of now "p_ProjectID p"] by (simp add: preserves_def allowed_def)

lemma I_requireWorkspace: "preserves I (requireWorkspace now p w rel)"
  unfolding requireWorkspace_def by (intro preserve I_allowed)

lemma I_requireGroupManager: "preserves I (requireGroupManager now p g)"
  unfolding requireGroupManager_def by (intro preserve I_allowed)

lemma I_auditTupleChanges: "preserves I (auditTupleChanges now p ins del)"
  by (simp add: preserves_def auditTupleChanges_def Let_def I_audit)

lemma I_withDecisionLog: "preserves I body \<Longrightarrow> preserves I (withDecisionLog now p ns obj rel u sset body)"
  by (simp add: preserves_def withDecisionLog_def logDecision_def split: prod.split) (metis I_decision snd_conv)

lemmas I_guards = preserve preserves_bindR_lift I_resolve I_ModelFor I_ensureRegion I_ensureProjectActive I_allowed I_requireWorkspace
  I_requireGroupManager I_auditTupleChanges I_withDecisionLog

end

locale svc_invariant = guard_invariant +
  fixes free :: "tuple \<Rightarrow> bool" and off :: bool and mint :: "string \<Rightarrow> bool"
  assumes free_group: "t_Namespace tu = ''group'' \<Longrightarrow> free tu"
    and I_CreateProject: "preserves I (svc_CreateProject now i name model region mx)"
    and I_UpdateProject: "preserves I (svc_UpdateProject now i name status model region clearRegion mx clearBudget)"
    and I_createWorkspaceWithOwner: "preserves I (createWorkspaceWithOwner w)"
    and I_UpdateWorkspace: "preserves I (svc_UpdateWorkspace now p i name)"
    and I_DeleteWorkspace: "preserves I (svc_DeleteWorkspace now p i)"
    and I_AddMember: "preserves I (svc_AddMember now p i u role)"
    and I_UpdateMemberRole: "preserves I (svc_UpdateMemberRole now p i u role)"
    and I_RemoveMember: "preserves I (svc_RemoveMember now p i u)"
    and I_SuspendMember: "preserves I (svc_SuspendMember now p i u)"
    and I_ReinstateMember: "preserves I (svc_ReinstateMember now p i u)"
    and I_TransferOwnership: "preserves I (svc_TransferOwnership now p i u)"
    and I_CreateInvitation: "mint token \<Longrightarrow> preserves I (svc_CreateInvitation now i token p wi email role)"
    and I_AcceptInvitation: "preserves I (svc_AcceptInvitation now p token)"
    and I_RevokeInvitation: "preserves I (svc_RevokeInvitation now p i)"
    and I_WriteTuples: "list_all free ins \<Longrightarrow> list_all free del \<Longrightarrow> preserves I (repo_write (mem_WriteTuples pj tn ins del))"
    and I_DeleteAll: "off \<Longrightarrow> preserves I (repo_write (mem_DeleteAllSubjectTuplesInProject pj u))"
    and I_CreateGroup: "preserves I (repo_write (mem_CreateGroup g))"
    and I_DeleteGroup: "preserves I (repo_write (mem_DeleteGroup pj tn i))"
    and I_SetEnrollment: "list_all (\<lambda>t. t_Namespace t = ''group'') (ins @ del) \<Longrightarrow>
      preserves I (repo_write (mem_SetEnrollmentAndTuples e ins del))"
    and I_SetSeatLimit: "preserves I (repo_write (mem_SetSeatLimit pj tn sku l))"
    and I_AssignSeat: "tu = seatTuple (sa_SKU a) (sa_UserID a) \<Longrightarrow> preserves I (repo_write (mem_AssignSeatAndTuple a tu))"
    and I_RevokeSeat: "preserves I (repo_write (mem_RevokeSeatAndTuple pj tn sku u (seatTuple sku u)))"
begin

lemmas I_intros = I_guards I_WriteTuples I_DeleteAll I_CreateGroup I_DeleteGroup I_SetEnrollment I_SetSeatLimit
  I_AssignSeat I_RevokeSeat

lemma I_EnsureDefaultProject: "preserves I (EnsureDefaultProject now i)"
  unfolding EnsureDefaultProject_def by (intro I_intros I_CreateProject; simp add: preserves_def)

lemma I_EnsurePersonalWorkspace: "preserves I (EnsurePersonalWorkspace now i p)"
  unfolding EnsurePersonalWorkspace_def Let_def by (intro I_intros I_createWorkspaceWithOwner)

lemma I_workspaces:
  "preserves I (svc_CreateWorkspace now i p name slug)" "preserves I (svc_GetWorkspace now p i)"
  "preserves I (svc_ListWorkspaces now i p)" "preserves I (svc_ListMembers now p w)"
  "preserves I (svc_ListInvitations now p w)"
  unfolding svc_CreateWorkspace_def svc_GetWorkspace_def svc_ListWorkspaces_def svc_ListMembers_def
    svc_ListInvitations_def Let_def
  by (intro I_intros I_createWorkspaceWithOwner I_EnsurePersonalWorkspace)+

lemmas I_members = I_UpdateWorkspace I_DeleteWorkspace I_AddMember I_UpdateMemberRole I_RemoveMember
  I_SuspendMember I_ReinstateMember I_TransferOwnership I_AcceptInvitation I_RevokeInvitation

lemma I_groups:
  "preserves I (svc_CreateGroup now i p name slug w)" "preserves I (svc_ListGroups now p w)"
  "preserves I (svc_DeleteGroup now p i)" "preserves I (svc_ListGroupMembers now p g)"
  "preserves I (svc_ListEnrollments now p g)"
  unfolding svc_CreateGroup_def svc_ListGroups_def svc_DeleteGroup_def svc_ListGroupMembers_def
    svc_ListEnrollments_def Let_def
  by (intro I_intros)+

lemma I_group_members:
  "preserves I (svc_AddGroupMember now p g m)" "preserves I (svc_RemoveGroupMember now p g m)"
  "preserves I (svc_SetEnrollmentState now p g m state)"
  unfolding svc_AddGroupMember_def svc_RemoveGroupMember_def svc_SetEnrollmentState_def Let_def
  by (intro I_intros; simp add: groupMemberTuple_namespace free_group)+

lemma I_seats:
  "preserves I (svc_SetSeatLimit now p sku limit)" "preserves I (svc_AssignSeat now p sku u)"
  "preserves I (svc_RevokeSeat now p sku u)"
  unfolding svc_SetSeatLimit_def svc_AssignSeat_def svc_RevokeSeat_def
  by (intro I_intros; simp)+

lemma I_WriteTuples_op:
  assumes "call_ok free off mint (RawTuples ops)"
  shows "preserves I (svc_WriteTuples now p ops)"
  unfolding svc_WriteTuples_def
proof (rule preserves_bindR_lift, clarify)
  fix ins del
  assume "splitOps ops = Inr (ins, del)"
  from splitOps_valid [OF this] assms have "list_all free ins" "list_all free del"
    by (fastforce simp: list_all_iff)+
  then show "preserves I (bindR (ensureProjectActive now p) (\<lambda>_.
     bindR (if length ins > 0 then
              bindR (resolve now (p_ProjectID p)) (\<lambda>res.
                if list_all (\<lambda>t. WritableRelation (modelOrDefault res) (t_Namespace t) (t_Relation t)) ins
                then ret () else fail ErrInvalidArgument)
            else ret ()) (\<lambda>_.
     bindR (repo_write (mem_WriteTuples (p_ProjectID p) (p_TenantID p) ins del)) (\<lambda>_.
     bindR (auditTupleChanges now p ins del) (\<lambda>_.
     bindR (repo_read (mem_ConsistencyToken (p_ProjectID p) (p_TenantID p))) (\<lambda>sequence.
     ret (Encode (p_ProjectID p) (p_TenantID p) sequence)))))))"
    by (intro I_intros)
qed

lemma I_DeprovisionUser: "off \<Longrightarrow> preserves I (DeprovisionUser now p u)"
  unfolding DeprovisionUser_def by (intro I_intros)

lemma I_evaluations:
  "preserves I (svc_Check now p ns obj rel u cc)" "preserves I (svc_CheckSet rng now p ns obj rel sset cc)"
  "preserves I (svc_Expand now p ns obj rel)" "preserves I (svc_ListObjects now p ns rel u)"
  unfolding svc_Check_def svc_CheckSet_def svc_Expand_def svc_ListObjects_def
  by (intro I_intros; simp add: preserves_def split: sum.split)+

lemma I_BatchCheck: "preserves I (svc_BatchCheck now p ctxErr n items)"
  by (induction items arbitrary: n) (auto intro!: I_intros I_evaluations split: option.split)

lemma I_subjects:
  "preserves I (svc_ReadTuples now p f)" "preserves I (ExportSubjectGrants now p u)" "preserves I (EnsureServable now p)"
  unfolding svc_ReadTuples_def ExportSubjectGrants_def EnsureServable_def Let_def
  by (intro I_intros)+

lemmas I_ops = I_CreateProject I_UpdateProject I_EnsureDefaultProject I_EnsurePersonalWorkspace I_workspaces
  I_members I_groups I_group_members I_seats I_evaluations I_BatchCheck I_subjects

lemma svc_step_keeps:
  assumes "svc_step c s s'" and "call_ok free off mint c" and "I s"
  shows "I s'"
  using assms
proof cases
  case WriteTuples
  then show ?thesis using I_WriteTuples_op assms(2,3) by (auto simp: preserves_def)
next
  case DeprovisionUser
  then show ?thesis using I_DeprovisionUser assms(2,3) by (auto simp: preserves_def)
next
  case CreateInvitation
  then show ?thesis using I_CreateInvitation assms(2,3) by (auto simp: preserves_def)
qed (use assms(3) I_ops in \<open>auto simp: preserves_def\<close>)

end

subsection \<open>Invariants kept by every single write\<close>

locale member_invariant = guard_invariant +
  fixes free :: "tuple \<Rightarrow> bool"
  assumes free_typed: "t_Namespace tu = ''group'' \<or> t_Namespace tu = ''workspace'' \<Longrightarrow> free tu"
    and W_CreateProject: "preserves I (svc_CreateProject now i name model region mx)"
    and W_UpdateProject: "preserves I (svc_UpdateProject now i name status model region clearRegion mx clearBudget)"
    and W_WriteTuples: "list_all free (ins @ del) \<Longrightarrow> preserves I (repo_write (mem_WriteTuples p t ins del))"
    and W_DeleteAll: "preserves I (repo_write (mem_DeleteAllSubjectTuplesInProject p u))"
    and W_CreateWorkspace: "preserves I (repo_write (mem_CreateWorkspace w))"
    and W_UpdateWorkspace: "preserves I (repo_write (mem_UpdateWorkspace w))"
    and W_DeleteWorkspace: "preserves I (repo_write (mem_DeleteWorkspace p t i))"
    and W_PutMembership: "list_all free (ins @ del) \<Longrightarrow> preserves I (repo_write (mem_PutMembershipAndTuples m ins del))"
    and W_DeleteMembership: "list_all free del \<Longrightarrow> preserves I (repo_write (mem_DeleteMembershipAndTuples p t i u del))"
    and W_CreateGroup: "preserves I (repo_write (mem_CreateGroup g))"
    and W_DeleteGroup: "preserves I (repo_write (mem_DeleteGroup p t i))"
    and W_SetEnrollment: "list_all free (ins @ del) \<Longrightarrow> preserves I (repo_write (mem_SetEnrollmentAndTuples e ins del))"
    and W_SetSeatLimit: "preserves I (repo_write (mem_SetSeatLimit p t sku l))"
    and W_AssignSeat: "preserves I (repo_write (mem_AssignSeatAndTuple a (seatTuple (sa_SKU a) (sa_UserID a))))"
    and W_RevokeSeat: "preserves I (repo_write (mem_RevokeSeatAndTuple p t sku u (seatTuple sku u)))"
begin

lemmas W_intros = I_guards W_WriteTuples W_CreateWorkspace W_UpdateWorkspace W_DeleteWorkspace W_PutMembership
  W_DeleteMembership

lemma W_workspaces:
  "preserves I (createWorkspaceWithOwner w)" "preserves I (svc_UpdateWorkspace now p i name)"
  "preserves I (svc_DeleteWorkspace now p i)"
  unfolding createWorkspaceWithOwner_def svc_UpdateWorkspace_def svc_DeleteWorkspace_def Let_def
  by (intro W_intros; simp add: free_typed)+

lemma W_putMember: "preserves I (putMember now p w u role)"
  unfolding putMember_def Let_def by (intro W_intros; simp add: free_typed)

lemma W_members:
  "preserves I (svc_AddMember now p w u role)" "preserves I (svc_UpdateMemberRole now p w u role)"
  "preserves I (svc_RemoveMember now p w u)" "preserves I (svc_SuspendMember now p w u)"
  "preserves I (svc_ReinstateMember now p w u)"
  unfolding svc_AddMember_def svc_UpdateMemberRole_def svc_RemoveMember_def svc_SuspendMember_def
    svc_ReinstateMember_def Let_def
  by (intro W_intros W_putMember; simp add: free_typed)+

lemma W_owners: "preserves I (promoteOwner now p w u)" "preserves I (demoteOwner now p w u)"
  unfolding promoteOwner_def demoteOwner_def Let_def by (intro W_intros; simp add: free_typed)+

lemma W_TransferOwnership: "preserves I (svc_TransferOwnership now p w u)"
  unfolding svc_TransferOwnership_def Let_def by (intro W_intros W_owners)

end

text \<open>The writes of the invitation handlers come on top.\<close>

locale write_invariant = member_invariant +
  assumes W_CreateInvitation: "preserves I (repo_write (mem_CreateInvitation iv))"
    and W_UpdateInvitation: "preserves I (repo_write (mem_UpdateInvitation iv))"
begin

lemma W_invitations:
  "preserves I (svc_CreateInvitation now i token p w email role)" "preserves I (svc_AcceptInvitation now p token)"
  "preserves I (svc_RevokeInvitation now p i)"
  unfolding svc_CreateInvitation_def svc_AcceptInvitation_def svc_RevokeInvitation_def Let_def
  by (intro W_intros W_putMember W_CreateInvitation W_UpdateInvitation)+

end

sublocale write_invariant \<subseteq> svc_invariant I free True "\<lambda>_. True"
  by unfold_locales
    (rule W_CreateProject W_UpdateProject W_workspaces W_members W_TransferOwnership W_invitations W_DeleteAll
       W_CreateGroup W_DeleteGroup W_SetSeatLimit W_RevokeSeat |
     (rule W_WriteTuples W_SetEnrollment; simp add: list_all_iff free_typed; blast intro: free_typed) |
     simp add: free_typed W_AssignSeat W_WriteTuples)+

subsection \<open>Invariants of the repository alone\<close>

locale repo_invariant =
  fixes J :: "store \<Rightarrow> bool" and free :: "tuple \<Rightarrow> bool"
  assumes free_written: "t_Namespace tu = ''group'' \<or> t_Namespace tu = ''workspace'' \<Longrightarrow> free tu"
    and J_CreateProject: "J r \<Longrightarrow> J (snd (mem_CreateProject pr r))"
    and J_UpdateProject: "J r \<Longrightarrow> J (snd (mem_UpdateProject pr r))"
    and J_WriteTuples: "J r \<Longrightarrow> list_all free (ins @ del) \<Longrightarrow> J (snd (mem_WriteTuples p t ins del r))"
    and J_DeleteAll: "J r \<Longrightarrow> J (snd (mem_DeleteAllSubjectTuplesInProject p u r))"
    and J_CreateWorkspace: "J r \<Longrightarrow> J (snd (mem_CreateWorkspace w r))"
    and J_UpdateWorkspace: "J r \<Longrightarrow> J (snd (mem_UpdateWorkspace w r))"
    and J_DeleteWorkspace: "J r \<Longrightarrow> J (snd (mem_DeleteWorkspace p t i r))"
    and J_PutMembership: "J r \<Longrightarrow> list_all free (ins @ del) \<Longrightarrow> J (snd (mem_PutMembershipAndTuples m ins del r))"
    and J_DeleteMembership: "J r \<Longrightarrow> list_all free del \<Longrightarrow> J (snd (mem_DeleteMembershipAndTuples p t i u del r))"
    and J_CreateInvitation: "J r \<Longrightarrow> J (snd (mem_CreateInvitation iv r))"
    and J_UpdateInvitation: "J r \<Longrightarrow> J (snd (mem_UpdateInvitation iv r))"
    and J_CreateGroup: "J r \<Longrightarrow> J (snd (mem_CreateGroup g r))"
    and J_DeleteGroup: "J r \<Longrightarrow> J (snd (mem_DeleteGroup p t i r))"
    and J_SetEnrollment: "J r \<Longrightarrow> list_all free (ins @ del) \<Longrightarrow> J (snd (mem_SetEnrollmentAndTuples e ins del r))"
    and J_SetSeatLimit: "J r \<Longrightarrow> J (snd (mem_SetSeatLimit p t sku l r))"
    and J_AssignSeat: "J r \<Longrightarrow> J (snd (mem_AssignSeatAndTuple a (seatTuple (sa_SKU a) (sa_UserID a)) r))"
    and J_RevokeSeat: "J r \<Longrightarrow> J (snd (mem_RevokeSeatAndTuple p t sku u (seatTuple sku u) r))"
begin

lemmas J_writes = J_CreateProject J_UpdateProject J_WriteTuples J_DeleteAll J_CreateWorkspace J_UpdateWorkspace
  J_DeleteWorkspace J_PutMembership J_DeleteMembership J_CreateInvitation J_UpdateInvitation J_CreateGroup
  J_DeleteGroup J_SetEnrollment J_SetSeatLimit J_AssignSeat J_RevokeSeat

lemma J_projects:
  "preserves (\<lambda>s. J (s_repo s)) (svc_CreateProject now i name model region mx)"
  "preserves (\<lambda>s. J (s_repo s)) (svc_UpdateProject now i name status model region clearRegion mx clearBudget)"
  unfolding svc_CreateProject_def svc_UpdateProject_def Let_def
  by (intro preserve preserves_bindR_lift preserves_repo_write J_writes keeps_preserves [OF keeps_invalidate]
      keeps_preserves [OF keeps_LogAdminMutation]; assumption)+

end

sublocale repo_invariant \<subseteq> write_invariant "\<lambda>s. J (s_repo s)" free
  by unfold_locales
    (rule J_projects keeps_preserves [OF keeps_resolve] | (rule preserves_repo_write; auto intro!: J_writes) |
     simp add: free_written)+

subsection \<open>Reachable services\<close>

text \<open>A service as \<^const>\<open>svc_New\<close> returns it over an empty repository, whichever of its options are
  given, and what any sequence of calls that satisfy \<open>ok\<close> makes of it.\<close>

definition svc_init :: "service \<Rightarrow> bool" where
  "svc_init s \<longleftrightarrow> s_repo s = mem_New \<and> s_resolver s = newModelResolver"

inductive svc_reachable :: "(call \<Rightarrow> bool) \<Rightarrow> service \<Rightarrow> bool" for ok where
  init: "svc_init s \<Longrightarrow> svc_reachable ok s"
| step: "svc_reachable ok s \<Longrightarrow> ok c \<Longrightarrow> svc_step c s s' \<Longrightarrow> svc_reachable ok s'"

lemma svc_init_New [simp]: "svc_init (svc_New mem_New [])"
  by (simp add: svc_init_def svc_New_def)

lemma svc_init_option:
  "svc_init s \<Longrightarrow> svc_init (svc_WithMaxListObjects n s)" "svc_init s \<Longrightarrow> svc_init (svc_WithDataRegion region s)"
  "svc_init s \<Longrightarrow> svc_init (svc_WithMaxExpandNodes n s)" "svc_init s \<Longrightarrow> svc_init (svc_WithMaxCheckReads n s)"
  "svc_init s \<Longrightarrow> svc_init (svc_WithAuditLogger al s)" "svc_init s \<Longrightarrow> svc_init (svc_WithDecisionLogger dl s)"
  by (simp_all add: svc_init_def svc_WithMaxListObjects_def svc_WithDataRegion_def svc_WithMaxExpandNodes_def
      svc_WithMaxCheckReads_def svc_WithAuditLogger_def svc_WithDecisionLogger_def)

context svc_invariant
begin

lemma reachable_keeps:
  assumes "svc_reachable ok s" and "\<And>c. ok c \<Longrightarrow> call_ok free off mint c" and "\<And>s. svc_init s \<Longrightarrow> I s"
  shows "I s"
  using assms(1) by (induction rule: svc_reachable.induct) (auto intro: svc_step_keeps assms(2,3))

end

interpretation rows: repo_invariant store_ok "\<lambda>_. True"
  by unfold_locales ((rule store_ok_writes, assumption) | simp)+

lemma reachable_store_ok: "svc_reachable ok s \<Longrightarrow> store_ok (s_repo s)"
proof (erule rows.reachable_keeps)
  show "call_ok (\<lambda>_. True) True (\<lambda>_. True) c" for c by (cases c) simp_all
qed (simp add: svc_init_def)

end
