(* ===== verification/Memory_Props.thy ===== *)
theory Memory_Props
  imports Memory_Laws
begin

section \<open>Properties of the in-memory driver\<close>

text \<open>
  The properties of \<^verbatim>\<open>internal/repo/memory\<close>: keys, the refinement of the tuple shards, the row
  invariant of every reachable store, the consistency sequence and the seat cap.
\<close>

lemma seatUsage_simps:
  "seatUsageLocked s sk sku =
     (int (length (submap (submap (m_seatAssigns s) sk) sku)),
      (case map_of (submap (m_seatLimits s) sk) sku of None \<Rightarrow> 0 | Some l \<Rightarrow> l),
      map_of (submap (m_seatLimits s) sk) sku \<noteq> None)"
  by (simp add: seatUsageLocked_def Let_def split: option.split)

lemma seats_writeTuplesLocked [simp]:
  "m_seatAssigns (writeTuplesLocked p t ins del s) = m_seatAssigns s"
  "m_seatLimits (writeTuplesLocked p t ins del s) = m_seatLimits s"
  by (simp_all add: writeTuplesLocked_def bump_seq_def Let_def)

lemma length_update_new: "map_of m k = None \<Longrightarrow> length (AList.update k v m) = Suc (length m)"
  by (induction m) (auto split: if_splits)

definition user_tuple :: "string \<Rightarrow> string \<Rightarrow> string \<Rightarrow> string \<Rightarrow> tuple" where
  "user_tuple ns obj rel u =
     \<lparr>t_Namespace = ns, t_ObjectID = obj, t_Relation = rel,
      t_Subject = \<lparr>UserID = u, s_Set = None, Wildcard = False, s_Condition = None\<rparr>, t_ExpiresAt = None\<rparr>"

text \<open>C11. Two tuples have the same storage key exactly when they agree on namespace, object, relation
  and subject (the wildcard, the same userset, or the same user): no choice of contents makes
  different grants collide, and re-writing a grant with another condition or expiry replaces it.\<close>

theorem tupleKey_exact:
  "tupleKey t = tupleKey t' \<longleftrightarrow>
     t_Namespace t = t_Namespace t' \<and> t_ObjectID t = t_ObjectID t' \<and> t_Relation t = t_Relation t' \<and>
     ident_of_subject (t_Subject t) = ident_of_subject (t_Subject t')"
  by (simp add: tupleKey_inject ident_of_def)

text \<open>C12. \<^verbatim>\<open>WriteTuples\<close> implements the specification of a write on the shard it names: the last insert of
  an identity wins over every delete, an identity that is only deleted is gone, and everything else
  in the shard and every other shard is as before, when project ids carry no NUL.\<close>

theorem WriteTuples_refines:
  assumes "NUL \<notin> set p" and "NUL \<notin> set p'"
  shows "stored (snd (mem_WriteTuples p t ins del s)) p' t' i =
     (if p' = p \<and> t' = t then spec_write (stored s p t) ins del i else stored s p' t' i)"
  using assms by (simp add: mem_WriteTuples_def stored_writeTuplesLocked scope_inject)

theorem WriteTuples_refines_witness:
  "stored (snd (mem_WriteTuples ''p'' ''t'' [user_tuple ''doc'' ''d'' ''viewer'' ''u''] [] mem_New)) ''p'' ''t''
     (ident_of (user_tuple ''doc'' ''d'' ''viewer'' ''u'')) = Some (user_tuple ''doc'' ''d'' ''viewer'' ''u'') \<and>
   stored (snd (mem_WriteTuples ''p'' ''t'' [user_tuple ''doc'' ''d'' ''viewer'' ''u''] [] mem_New)) ''p'' ''x''
     (ident_of (user_tuple ''doc'' ''d'' ''viewer'' ''u'')) = None"
proof -
  have "NUL \<notin> set ''p''" by code_simp
  from WriteTuples_refines [OF this this] show ?thesis
    by (simp add: spec_write_def stored_def mem_New_def)
qed

text \<open>C13. In every store the driver can reach from an empty one, every row of every table is filed under
  its own identifiers and shard, no key occurs twice, and the sequences are not negative.\<close>

theorem mem_reachable_ok: "mem_step\<^sup>*\<^sup>* mem_New s \<Longrightarrow> store_ok s"
  by (induction rule: rtranclp_induct) (simp_all add: mem_step_store_ok)

theorem mem_reachable_ok_witness:
  "mem_step\<^sup>*\<^sup>* mem_New (snd (mem_WriteTuples ''p'' ''t'' [user_tuple ''doc'' ''d'' ''viewer'' ''u''] [] mem_New)) \<and>
   store_ok (snd (mem_WriteTuples ''p'' ''t'' [user_tuple ''doc'' ''d'' ''viewer'' ''u''] [] mem_New))"
  (is "mem_step\<^sup>*\<^sup>* mem_New ?s \<and> _")
proof -
  have "mem_step\<^sup>*\<^sup>* mem_New ?s" by (rule r_into_rtranclp) (rule mem_step.WriteTuples)
  with mem_reachable_ok [OF this] show ?thesis by simp
qed

text \<open>C14. The consistency sequence of a shard never goes back, and it grows with every write that changes
  the shard's tuples; the one exception is the project-wide removal of a user's tuples.\<close>

theorem consistency_sequence:
  assumes "mem_step s s'" and "mem_ConsistencyToken p t s = Inr n" and "mem_ConsistencyToken p t s' = Inr n'"
  shows "n \<le> n' \<and> (stored s' p t \<noteq> stored s p t \<longrightarrow>
           n < n' \<or> (\<exists>q u. s' = snd (mem_DeleteAllSubjectTuplesInProject q u s)))"
proof -
  have n: "n = seq_at s (scope p t)" "n' = seq_at s' (scope p t)"
    using assms(2,3) by (simp_all add: mem_ConsistencyToken_seq)
  have "seq_at (snd (mem_DeleteAllSubjectTuplesInProject q u s)) sk = seq_at s sk" for q u sk
    by (simp add: mem_DeleteAllSubjectTuplesInProject_def seq_at_def Let_def)
  with n mem_step_advances [OF assms(1), of "scope p t"] show ?thesis
    by (auto simp: advances_def stored_def fun_eq_iff)
qed

theorem consistency_sequence_witness:
  "mem_step mem_New (snd (mem_WriteTuples ''p'' ''t'' [user_tuple ''doc'' ''d'' ''viewer'' ''u''] [] mem_New)) \<and>
   mem_ConsistencyToken ''p'' ''t'' mem_New = Inr 0 \<and>
   mem_ConsistencyToken ''p'' ''t'' (snd (mem_WriteTuples ''p'' ''t'' [user_tuple ''doc'' ''d'' ''viewer'' ''u''] [] mem_New)) = Inr 1 \<and>
   (0::int) \<le> 1"
  (is "mem_step mem_New ?s \<and> _")
proof -
  have step: "mem_step mem_New ?s" by (rule mem_step.WriteTuples)
  have before: "mem_ConsistencyToken ''p'' ''t'' mem_New = Inr 0" by code_simp
  have after: "mem_ConsistencyToken ''p'' ''t'' ?s = Inr 1" by code_simp
  from consistency_sequence [OF step before after] step before after show ?thesis by simp
qed

text \<open>C15. Assigning a seat never takes a sku over its cap. A refusal happens only at or above the cap and
  changes neither the usage nor any tuple; a user who already holds a seat consumes none; otherwise
  the usage grows by one and stays within the cap. In both successful cases the seat tuple is stored.\<close>

theorem AssignSeat_cap:
  assumes "mem_AssignSeatAndTuple a tu s = (r, s')"
    and "mem_GetSeatUsage (sa_ProjectID a) (sa_TenantID a) (sa_SKU a) s = Inr b"
    and "mem_GetSeatUsage (sa_ProjectID a) (sa_TenantID a) (sa_SKU a) s' = Inr b'"
  shows "su_Limit b' = su_Limit b \<and> su_Limited b' = su_Limited b \<and>
    (case r of
       Inl e \<Rightarrow> e = ErrResourceExhausted \<and> su_Limited b \<and> su_Limit b \<le> su_Used b \<and> b' = b \<and> stored s' = stored s
     | Inr held \<Rightarrow> su_Used b' = su_Used b + (if held then 0 else 1) \<and>
         (\<not> held \<and> su_Limited b \<longrightarrow> su_Used b' \<le> su_Limit b) \<and>
         stored s' (sa_ProjectID a) (sa_TenantID a) (ident_of tu) = Some tu)"
  using assms
  by (auto simp: mem_AssignSeatAndTuple_def mem_GetSeatUsage_def seatUsage_simps Let_def length_update_new
      put2_def stored_writeTuplesLocked spec_write_def stored_def fun_eq_iff split: if_splits option.splits)

definition demo_seat :: seatAssignment where
  "demo_seat = \<lparr>sa_ProjectID = ''p'', sa_TenantID = ''t'', sa_SKU = ''pro'', sa_UserID = ''u'', sa_AssignedAt = 7\<rparr>"

definition demo_seats :: store where
  "demo_seats = snd (mem_SetSeatLimit ''p'' ''t'' ''pro'' (Some 1) mem_New)"

theorem AssignSeat_cap_witness:
  "\<exists>s'. mem_AssignSeatAndTuple demo_seat (user_tuple ''seat'' ''pro'' ''holder'' ''u'') demo_seats = (Inr False, s') \<and>
     mem_GetSeatUsage ''p'' ''t'' ''pro'' s' = Inr \<lparr>su_SKU = ''pro'', su_Used = 1, su_Limit = 1, su_Limited = True\<rparr> \<and>
     stored s' ''p'' ''t'' (''seat'', ''pro'', ''holder'', UserId ''u'') = Some (user_tuple ''seat'' ''pro'' ''holder'' ''u'')"
proof -
  let ?tu = "user_tuple ''seat'' ''pro'' ''holder'' ''u''"
  let ?s = "snd (mem_AssignSeatAndTuple demo_seat ?tu demo_seats)"
  let ?b = "\<lparr>su_SKU = ''pro'', su_Used = 0, su_Limit = 1, su_Limited = True\<rparr> :: seatUsage"
  let ?b' = "\<lparr>su_SKU = ''pro'', su_Used = 1, su_Limit = 1, su_Limited = True\<rparr> :: seatUsage"
  have res: "fst (mem_AssignSeatAndTuple demo_seat ?tu demo_seats) = Inr False" by code_simp
  then have run: "mem_AssignSeatAndTuple demo_seat ?tu demo_seats = (Inr False, ?s)" by (metis prod.collapse)
  have fields: "sa_ProjectID demo_seat = ''p''" "sa_TenantID demo_seat = ''t''" "sa_SKU demo_seat = ''pro''"
    by (simp_all add: demo_seat_def)
  have before: "mem_GetSeatUsage ''p'' ''t'' ''pro'' demo_seats = Inr ?b" by code_simp
  have after: "mem_GetSeatUsage ''p'' ''t'' ''pro'' ?s = Inr ?b'" by code_simp
  have "ident_of ?tu = (''seat'', ''pro'', ''holder'', UserId ''u'')"
    by (simp add: ident_of_def ident_of_subject_def user_tuple_def)
  with AssignSeat_cap [OF run, unfolded fields, OF before after] run after show ?thesis by auto
qed

text \<open>
  The exception of the consistency sequence is real: removing a user's tuples from a project
  changes the shard and leaves its sequence where it was, although the sequence is documented to
  advance for any tuple mutation.
\<close>

lemma deprovision_keeps_sequence:
  "let s = snd (mem_WriteTuples ''p'' ''t'' [user_tuple ''doc'' ''d'' ''viewer'' ''u''] [] mem_New);
       s' = snd (mem_DeleteAllSubjectTuplesInProject ''p'' ''u'' s) in
   mem_ListSubjects 0 s ''p'' ''t'' ''doc'' ''d'' ''viewer'' \<noteq> Inr [] \<and>
   mem_ListSubjects 0 s' ''p'' ''t'' ''doc'' ''d'' ''viewer'' = Inr [] \<and>
   mem_ConsistencyToken ''p'' ''t'' s' = mem_ConsistencyToken ''p'' ''t'' s"
  by code_simp

end
