(* ===== verification/Service_Seats.thy ===== *)
theory Service_Seats
  imports Service_Laws Memory_Props
begin

section \<open>Seats: the ledger and the tuples agree\<close>

text \<open>
  A seat is a row of the ledger and a tuple of the reserved namespace \<^verbatim>\<open>seat\<close>. The general tuple write
  refuses that namespace, so along every run of the service the rows and the tuples are in
  bijection (\<open>seats_coherent\<close>); this is the second interpretation of \<^verbatim>\<open>repo_invariant\<close>.
\<close>

abbreviation not_seat :: "tuple list \<Rightarrow> bool" where
  "not_seat \<equiv> list_all (\<lambda>t. t_Namespace t \<noteq> seatNamespace)"

definition has_seat :: "store \<Rightarrow> string \<Rightarrow> string \<Rightarrow> string \<Rightarrow> bool" where
  "has_seat s sk sku u \<longleftrightarrow> map_of (submap (submap (m_seatAssigns s) sk) sku) u \<noteq> None"

definition tuple_at :: "store \<Rightarrow> string \<Rightarrow> string \<Rightarrow> tuple option" where
  "tuple_at s sk k = map_of (submap (m_tuples s) sk) k"

definition seats_coherent :: "store \<Rightarrow> bool" where
  "seats_coherent s \<longleftrightarrow>
     (\<forall>sk sku u. has_seat s sk sku u \<longrightarrow>
        tuple_at s sk (tupleKey (seatTuple sku u)) = Some (seatTuple sku u)) \<and>
     (\<forall>sk k t. tuple_at s sk k = Some t \<longrightarrow> t_Namespace t = seatNamespace \<longrightarrow>
        (\<exists>sku u. t = seatTuple sku u \<and> has_seat s sk sku u))"

lemma tuple_at_bump_seq [simp]: "tuple_at (bump_seq sk s) = tuple_at s"
  by (simp add: tuple_at_def bump_seq_def fun_eq_iff)

lemma has_seat_bump_seq [simp]: "has_seat (bump_seq sk s) = has_seat s"
  by (simp add: has_seat_def bump_seq_def fun_eq_iff)

lemma has_seat_writeTuplesLocked [simp]: "has_seat (writeTuplesLocked p t ins del s) = has_seat s"
  by (simp add: has_seat_def fun_eq_iff)

lemma tuple_at_writeTuplesLocked:
  "tuple_at (writeTuplesLocked p t ins del s) sk k =
     (if sk = scope p t
      then (case find (\<lambda>t. tupleKey t = k) (rev ins) of
              Some t \<Rightarrow> Some t | None \<Rightarrow> if k \<in> tupleKey ` set del then None else tuple_at s sk k)
      else tuple_at s sk k)"
  by (simp add: tuple_at_def writeTuplesLocked_def Let_def bump_seq_def map_of_foldl_update map_of_foldl_delete
      split: option.split)

lemma tuple_at_key: "store_ok s \<Longrightarrow> tuple_at s sk k = Some t \<Longrightarrow> k = tupleKey t"
  using all_mapD [OF shard_keys] by (fastforce simp: tuple_at_def)

lemma tupleKey_namespace: "tupleKey t = tupleKey t' \<Longrightarrow> t_Namespace t = t_Namespace t'"
  by (simp add: tupleKey_inject ident_of_def)

lemma tupleKey_seatTuple [simp]:
  "tupleKey (seatTuple sku u) = tupleKey (seatTuple sku' u') \<longleftrightarrow> sku = sku' \<and> u = u'"
  by (simp add: tupleKey_inject ident_of_def ident_of_subject_def seatTuple_def userTuple_def)

text \<open>The tuples of the seat namespace are the same in both stores.\<close>

definition same_seats :: "store \<Rightarrow> store \<Rightarrow> bool" where
  "same_seats s s' \<longleftrightarrow> has_seat s' = has_seat s \<and>
     (\<forall>sk k t. t_Namespace t = seatNamespace \<longrightarrow> (tuple_at s' sk k = Some t \<longleftrightarrow> tuple_at s sk k = Some t))"

lemma same_seats_coherent: "same_seats s s' \<Longrightarrow> seats_coherent s \<Longrightarrow> seats_coherent s'"
  unfolding seats_coherent_def same_seats_def by (metis seatTuple_namespace)

lemma same_seats_fields:
  "m_seatAssigns s' = m_seatAssigns s \<Longrightarrow> m_tuples s' = m_tuples s \<Longrightarrow> same_seats s s'"
  by (simp add: same_seats_def has_seat_def tuple_at_def fun_eq_iff)

lemma same_seats_refl: "same_seats s s"
  by (simp add: same_seats_def)

lemma find_SomeD: "find P xs = Some x \<Longrightarrow> x \<in> set xs \<and> P x"
  by (induction xs) (auto split: if_splits)

lemma same_seats_write:
  assumes ok: "store_ok s" and free: "not_seat ins" "not_seat del"
    and fields: "m_seatAssigns s0 = m_seatAssigns s" "m_tuples s0 = m_tuples s"
  shows "same_seats s (writeTuplesLocked p t ins del s0)"
proof -
  have rows: "has_seat s0 = has_seat s" and tuples: "tuple_at s0 = tuple_at s"
    by (simp_all add: has_seat_def tuple_at_def fields fun_eq_iff)
  have gone: "k \<notin> tupleKey ` set del \<and> find (\<lambda>t. tupleKey t = k) (rev ins) = None"
    if "tuple_at s sk k = Some tu" "t_Namespace tu = seatNamespace" for sk k tu
  proof -
    have "k = tupleKey tu" using tuple_at_key [OF ok that(1)] .
    with that(2) free show ?thesis
      by (auto simp: find_None_iff list_all_iff) (metis tupleKey_namespace)+
  qed
  have new: "find (\<lambda>t. tupleKey t = k) (rev ins) \<noteq> Some tu" if "t_Namespace tu = seatNamespace" for k tu
    using free(1) that by (auto simp: list_all_iff dest: find_SomeD)
  show ?thesis
    unfolding same_seats_def
    by (auto simp: rows tuples tuple_at_writeTuplesLocked new gone dest: gone split: option.split)
qed

lemma same_seats_filter:
  assumes ok: "store_ok s" and seat: "\<And>k t. t_Namespace t = seatNamespace \<Longrightarrow> P (k, t)"
    and fields: "m_seatAssigns s' = m_seatAssigns s" "m_tuples s' = AList.map_entry sk (filter P) (m_tuples s)"
  shows "same_seats s s'"
proof -
  have wf: "wf_map (submap (m_tuples s) a)" for a using shard_keys [OF ok] by (rule all_map_wf)
  have "tuple_at s' a k = (if a = sk then map_of (filter P (submap (m_tuples s) sk)) k else tuple_at s a k)" for a k
    by (simp add: tuple_at_def fields submap_map_entry_Nil del: submap_map_entry)
  then show ?thesis
    by (auto simp: same_seats_def has_seat_def fields fun_eq_iff map_of_filter_wf [OF wf] tuple_at_def seat
        split: option.splits if_splits)
qed

lemma submap_map_kv:
  "(\<And>a. f a [] = []) \<Longrightarrow> submap (map (\<lambda>(k, v). (k, f k v)) m) a = f a (submap m a)"
  by (simp add: submap_def split: option.split)

lemma is_user_tuple_seat [simp]: "is_user_tuple u (seatTuple sku u') \<longleftrightarrow> u' = u"
  by (auto simp: is_user_tuple_def seatTuple_def userTuple_def)

lemma seats_DeleteAll:
  assumes ok: "store_ok s" and coh: "seats_coherent s"
  shows "seats_coherent (snd (mem_DeleteAllSubjectTuplesInProject p u s))" (is "seats_coherent ?s")
proof -
  let ?in = "\<lambda>sk. starts_with sk (p @ [NUL])"
  have wf: "wf_map (submap (m_tuples s) a)" for a using shard_keys [OF ok] by (rule all_map_wf)
  have row: "has_seat ?s sk sku v \<longleftrightarrow> \<not> (?in sk \<and> v = u) \<and> has_seat s sk sku v" for sk sku v
    by (simp add: mem_DeleteAllSubjectTuplesInProject_def has_seat_def Let_def submap_map_kv)
  have tup: "tuple_at ?s sk k = (case tuple_at s sk k of None \<Rightarrow> None
      | Some t \<Rightarrow> if ?in sk \<and> is_user_tuple u t then None else Some t)" for sk k
    by (simp add: mem_DeleteAllSubjectTuplesInProject_def tuple_at_def Let_def submap_map_kv
        map_of_filter_wf [OF wf] split: option.split)
  show ?thesis unfolding seats_coherent_def
  proof (intro conjI allI impI)
    fix sk sku v
    assume "has_seat ?s sk sku v"
    then show "tuple_at ?s sk (tupleKey (seatTuple sku v)) = Some (seatTuple sku v)"
      using coh by (auto simp: row tup seats_coherent_def split: if_splits)
  next
    fix sk k t
    assume t: "tuple_at ?s sk k = Some t" "t_Namespace t = seatNamespace"
    then have "tuple_at s sk k = Some t" by (auto simp: tup split: option.splits if_splits)
    with t(2) coh obtain sku v where "t = seatTuple sku v" "has_seat s sk sku v"
      unfolding seats_coherent_def by metis
    with t(1) have "t = seatTuple sku v \<and> has_seat ?s sk sku v"
      by (auto simp: row tup split: option.splits if_splits)
    then show "\<exists>sku v. t = seatTuple sku v \<and> has_seat ?s sk sku v" by blast
  qed
qed

lemma seats_put:
  assumes coh: "seats_coherent s"
    and row: "\<And>sk' sku' u'. has_seat s0 sk' sku' u' \<longleftrightarrow>
      has_seat s sk' sku' u' \<or> sk' = scope p t \<and> sku' = sku \<and> u' = u"
    and tuples: "m_tuples s0 = m_tuples s"
  shows "seats_coherent (writeTuplesLocked p t [seatTuple sku u] [] s0)" (is "seats_coherent ?s")
proof -
  have tup: "tuple_at s0 = tuple_at s" by (simp add: tuple_at_def tuples fun_eq_iff)
  show ?thesis unfolding seats_coherent_def
  proof (intro conjI allI impI)
    fix sk sku' u'
    assume "has_seat ?s sk sku' u'"
    then show "tuple_at ?s sk (tupleKey (seatTuple sku' u')) = Some (seatTuple sku' u')"
      using coh by (auto simp: row tup tuple_at_writeTuplesLocked seats_coherent_def)
  next
    fix sk k tu
    assume "tuple_at ?s sk k = Some tu" "t_Namespace tu = seatNamespace"
    then show "\<exists>sku' u'. tu = seatTuple sku' u' \<and> has_seat ?s sk sku' u'"
      using coh by (auto simp: row tup tuple_at_writeTuplesLocked seats_coherent_def split: if_splits) blast+
  qed
qed

lemma seats_drop:
  assumes ok: "store_ok s" and coh: "seats_coherent s"
    and row: "\<And>sk' sku' u'. has_seat s0 sk' sku' u' \<longleftrightarrow>
      \<not> (sk' = scope p t \<and> sku' = sku \<and> u' = u) \<and> has_seat s sk' sku' u'"
    and tuples: "m_tuples s0 = m_tuples s"
  shows "seats_coherent (writeTuplesLocked p t [] [seatTuple sku u] s0)"
proof -
  have tup: "tuple_at s0 = tuple_at s" by (simp add: tuple_at_def tuples fun_eq_iff)
  show ?thesis unfolding seats_coherent_def
  proof (intro conjI allI impI)
    fix sk sku' u'
    assume "has_seat (writeTuplesLocked p t [] [seatTuple sku u] s0) sk sku' u'"
    then show "tuple_at (writeTuplesLocked p t [] [seatTuple sku u] s0) sk (tupleKey (seatTuple sku' u')) = Some (seatTuple sku' u')"
      using coh by (auto simp: row tup tuple_at_writeTuplesLocked seats_coherent_def split: if_splits)
  next
    fix sk k tu
    assume a: "tuple_at (writeTuplesLocked p t [] [seatTuple sku u] s0) sk k = Some tu" "t_Namespace tu = seatNamespace"
    then have old: "tuple_at s sk k = Some tu" and keep: "sk = scope p t \<longrightarrow> k \<noteq> tupleKey (seatTuple sku u)"
      by (auto simp: tup tuple_at_writeTuplesLocked split: if_splits)
    from old a(2) coh obtain sku' u' where s: "tu = seatTuple sku' u'" "has_seat s sk sku' u'"
      unfolding seats_coherent_def by metis
    with tuple_at_key [OF ok old] keep
    have "tu = seatTuple sku' u' \<and> has_seat (writeTuplesLocked p t [] [seatTuple sku u] s0) sk sku' u'"
      by (auto simp: row)
    then show "\<exists>sku' u'. tu = seatTuple sku' u' \<and> has_seat (writeTuplesLocked p t [] [seatTuple sku u] s0) sk sku' u'"
      by blast
  qed
qed

lemma seats_AssignSeat:
  assumes "store_ok s" and "seats_coherent s"
  shows "seats_coherent (snd (mem_AssignSeatAndTuple a (seatTuple (sa_SKU a) (sa_UserID a)) s))"
proof -
  let ?sk = "scope (sa_ProjectID a) (sa_TenantID a)"
  let ?s0 = "s\<lparr>m_seatAssigns := AList.update ?sk (AList.update (sa_SKU a)
      (submap (submap (m_seatAssigns s) ?sk) (sa_SKU a)) (submap (m_seatAssigns s) ?sk)) (m_seatAssigns s)\<rparr>"
  have row0: "has_seat ?s0 = has_seat s" by (simp add: has_seat_def fun_eq_iff)
  have same: "seats_coherent ?s0"
    by (rule same_seats_coherent [OF _ assms(2)]) (simp add: same_seats_def row0 tuple_at_def)
  have held: "seats_coherent (writeTuplesLocked (sa_ProjectID a) (sa_TenantID a) [seatTuple (sa_SKU a) (sa_UserID a)] [] ?s0)"
    if "map_of (submap (submap (m_seatAssigns s) ?sk) (sa_SKU a)) (sa_UserID a) \<noteq> None"
    using that by (intro seats_put [OF assms(2)]) (auto simp: row0 has_seat_def)
  have new: "seats_coherent (writeTuplesLocked (sa_ProjectID a) (sa_TenantID a) [seatTuple (sa_SKU a) (sa_UserID a)] []
      (?s0\<lparr>m_seatAssigns := put3 ?sk (sa_SKU a) (sa_UserID a) a (m_seatAssigns ?s0)\<rparr>))"
    by (intro seats_put [OF assms(2)]) (auto simp: has_seat_def)
  show ?thesis
    using held new same unfolding mem_AssignSeatAndTuple_def Let_def by (auto split: prod.split)
qed

lemma seats_RevokeSeat:
  assumes "store_ok s" and "seats_coherent s"
  shows "seats_coherent (snd (mem_RevokeSeatAndTuple p t sku u (seatTuple sku u) s))"
  unfolding mem_RevokeSeatAndTuple_def snd_conv
  by (intro seats_drop [OF assms])
    (simp_all add: has_seat_def submap_map_entry_Nil del: submap_map_entry)

text \<open>Every other write leaves the seats alone.\<close>

lemma same_seats_rows:
  "same_seats s (snd (mem_CreateProject pr s))" "same_seats s (snd (mem_UpdateProject pr s))"
  "same_seats s (snd (mem_CreateWorkspace w s))" "same_seats s (snd (mem_UpdateWorkspace w s))"
  "same_seats s (snd (mem_CreateInvitation iv s))" "same_seats s (snd (mem_UpdateInvitation iv s))"
  "same_seats s (snd (mem_CreateGroup g s))" "same_seats s (snd (mem_SetSeatLimit p t sku l s))"
  by (simp_all add: store_write_defs Let_def same_seats_fields split: option.split)

lemma same_seats_writes:
  assumes "store_ok s" and "not_seat ins" and "not_seat del"
  shows "same_seats s (snd (mem_WriteTuples p t ins del s))"
    and "same_seats s (snd (mem_PutMembershipAndTuples m ins del s))"
    and "same_seats s (snd (mem_SetEnrollmentAndTuples e ins del s))"
    and "same_seats s (snd (mem_DeleteMembershipAndTuples p t i u del s))"
  using assms
  by (auto simp: store_write_defs deleteMembershipLocked_def putMembershipLocked_def Let_def
      intro: same_seats_write intro!: same_seats_refl)

lemma same_seats_deletes:
  assumes "store_ok s"
  shows "same_seats s (snd (mem_DeleteWorkspace p t i s))" and "same_seats s (snd (mem_DeleteGroup p t i s))"
proof -
  show "same_seats s (snd (mem_DeleteWorkspace p t i s))"
  proof (cases "map_of (submap (m_workspaces s) (scope p t)) i = None")
    case True
    then show ?thesis by (simp add: mem_DeleteWorkspace_def Let_def same_seats_fields)
  next
    case False
    then show ?thesis
      by (intro same_seats_filter [OF assms, where sk = "scope p t" and P = "\<lambda>(k, t). \<not> (t_Namespace t = ''workspace'' \<and> t_ObjectID t = i)"])
        (auto simp: mem_DeleteWorkspace_def Let_def bump_seq_def seatNamespace_def)
  qed
  show "same_seats s (snd (mem_DeleteGroup p t i s))"
  proof (cases "map_of (submap (m_groups s) (scope p t)) i = None")
    case True
    then show ?thesis by (simp add: mem_DeleteGroup_def Let_def same_seats_fields)
  next
    case False
    then show ?thesis
      by (intro same_seats_filter [OF assms, where sk = "scope p t" and P = "\<lambda>(k, t). \<not> (t_Namespace t = ''group'' \<and> t_ObjectID t = i)"])
        (auto simp: mem_DeleteGroup_def Let_def bump_seq_def seatNamespace_def)
  qed
qed

lemmas same_seats_all = same_seats_rows same_seats_writes same_seats_deletes

interpretation seats: repo_invariant "\<lambda>s. store_ok s \<and> seats_coherent s" "\<lambda>t. t_Namespace t \<noteq> seatNamespace"
proof unfold_locales
  fix tu :: tuple
  show "t_Namespace tu = ''group'' \<or> t_Namespace tu = ''workspace'' \<Longrightarrow> t_Namespace tu \<noteq> seatNamespace"
    by (auto simp: seatNamespace_def)
qed (simp_all add: store_ok_writes same_seats_coherent [OF same_seats_rows(1)] same_seats_coherent [OF same_seats_rows(2)]
  same_seats_coherent [OF same_seats_rows(3)] same_seats_coherent [OF same_seats_rows(4)]
  same_seats_coherent [OF same_seats_rows(5)] same_seats_coherent [OF same_seats_rows(6)]
  same_seats_coherent [OF same_seats_rows(7)] same_seats_coherent [OF same_seats_rows(8)]
  same_seats_coherent [OF same_seats_writes(1)] same_seats_coherent [OF same_seats_writes(2)]
  same_seats_coherent [OF same_seats_writes(3)] same_seats_coherent [OF same_seats_writes(4) [where ins = "[]"]]
  same_seats_coherent [OF same_seats_deletes(1)] same_seats_coherent [OF same_seats_deletes(2)]
  seats_DeleteAll seats_AssignSeat seats_RevokeSeat)

lemma reachable_seats: "svc_reachable ok s \<Longrightarrow> seats_coherent (s_repo s)"
proof -
  assume r: "svc_reachable ok s"
  have "call_ok (\<lambda>t. t_Namespace t \<noteq> seatNamespace) True (\<lambda>_. True) c" for c
    by (cases c) (auto simp: validateTuple_seat)
  moreover have "seats_coherent mem_New"
    by (simp add: seats_coherent_def has_seat_def tuple_at_def mem_New_def)
  ultimately have "store_ok (s_repo s) \<and> seats_coherent (s_repo s)"
    by (intro seats.reachable_keeps [OF r]) (auto simp: svc_init_def)
  then show ?thesis by simp
qed

end
