(* ===== verification/Service_Resolver.thy ===== *)
theory Service_Resolver
  imports Service_Laws
begin

section \<open>The project resolver: current, fresh and bounded\<close>

text \<open>
  Every project write of the service drops the project's cache entry, so along every run each entry
  is what a load would return now (\<open>cache_current\<close>), the cache stays within its cap, and an
  entry served is never older than the time to live. The first is the third interpretation of
  \<^verbatim>\<open>svc_invariant\<close>.
\<close>

definition cache_current :: "service \<Rightarrow> bool" where
  "cache_current s \<longleftrightarrow> store_ok (s_repo s) \<and> mr_ttl (s_resolver s) \<ge> 0 \<and> mr_max (s_resolver s) > 0 \<and>
     int (length (mr_cache (s_resolver s))) \<le> mr_max (s_resolver s) \<and>
     all_map (\<lambda>p e. resolver_load (rs_at e) p (s_repo s) = Inr e) (mr_cache (s_resolver s))"

lemma resolver_load_projects:
  "m_projects r = m_projects r' \<Longrightarrow> resolver_load now p r = resolver_load now p r'"
  by (simp add: resolver_load_def mem_GetProject_def)

lemma resolver_load_at: "resolver_load now p r = Inr e \<Longrightarrow> rs_at e = now"
  by (auto simp: resolver_load_def split: sum.splits if_splits)

lemma length_delete_le: "length (AList.delete k m) \<le> length m"
  by (simp add: AList.delete_eq)

lemma length_update_le: "length (AList.update k v m) \<le> Suc (length m)"
  by (induction m) auto

lemma evict_loop_suffix: "\<exists>xs. m = xs @ evict_loop mx m"
proof (induction m)
  case (Cons e m)
  then obtain xs where "m = xs @ evict_loop mx m" by blast
  then have "e # m = (e # xs) @ evict_loop mx m" by simp
  then show ?case by (metis append_Nil evict_loop.simps(2))
qed simp

lemma evict_loop_length: "0 < mx \<Longrightarrow> int (length (evict_loop mx m)) < mx"
  by (induction m) auto

lemma all_map_suffix: "all_map P (xs @ ys) \<Longrightarrow> all_map P ys"
  by (simp add: all_map_def wf_map_def)

lemma all_map_evict_loop: "all_map P m \<Longrightarrow> all_map P (evict_loop mx m)"
  by (metis all_map_suffix evict_loop_suffix)

lemma resolver_store_cache:
  assumes "0 < mr_max r" and "int (length (mr_cache r)) \<le> mr_max r" and "all_map P (mr_cache r)" and "P p e"
  shows "mr_max (resolver_store now p e r) = mr_max r" and "mr_ttl (resolver_store now p e r) = mr_ttl r"
    and "int (length (mr_cache (resolver_store now p e r))) \<le> mr_max r"
    and "all_map P (mr_cache (resolver_store now p e r))"
proof -
  let ?r = "if int (length (mr_cache r)) \<ge> mr_max r then evictLocked now r else r"
  have store: "resolver_store now p e r = ?r\<lparr>mr_cache := AList.update p e (mr_cache ?r)\<rparr>"
    by (simp add: resolver_store_def Let_def)
  have len: "int (length (mr_cache ?r)) < mr_max r"
  proof -
    have "int (length (mr_cache (evictLocked now r))) < mr_max r"
      by (simp add: evictLocked_def evict_loop_length assms(1))
    with assms(2) show ?thesis by auto
  qed
  have all: "all_map P (mr_cache ?r)"
    using assms(3) by (auto simp: evictLocked_def intro!: all_map_evict_loop all_map_filter)
  show "mr_max (resolver_store now p e r) = mr_max r" "mr_ttl (resolver_store now p e r) = mr_ttl r"
    by (simp_all add: store evictLocked_def)
  show "int (length (mr_cache (resolver_store now p e r))) \<le> mr_max r"
    using len length_update_le [of p e "mr_cache ?r"] by (simp add: store)
  show "all_map P (mr_cache (resolver_store now p e r))"
    using all assms(4) by (simp add: store all_map_update)
qed

text \<open>What one lookup does: serve a live entry, or drop a stale one and load.\<close>

lemma resolve_cases:
  obtains (Hit) e where "map_of (mr_cache (s_resolver s)) p = Some e" "now - rs_at e \<le> mr_ttl (s_resolver s)"
      "resolve now p s = (Inr e, s)"
  | (Load) r e where "r = s_resolver s \<or> r = (s_resolver s)\<lparr>mr_cache := AList.delete p (mr_cache (s_resolver s))\<rparr>"
      "resolver_load now p (s_repo s) = Inr e" "resolve now p s = (Inr e, s\<lparr>s_resolver := resolver_store now p e r\<rparr>)"
  | (Error) r err where "r = s_resolver s \<or> r = (s_resolver s)\<lparr>mr_cache := AList.delete p (mr_cache (s_resolver s))\<rparr>"
      "resolver_load now p (s_repo s) = Inl err" "resolve now p s = (Inl err, s\<lparr>s_resolver := r\<rparr>)"
proof (cases "map_of (mr_cache (s_resolver s)) p")
  case None
  then show ?thesis
    using that(2) [of "s_resolver s"] that(3) [of "s_resolver s"]
    by (cases "resolver_load now p (s_repo s)") (auto simp: resolve_def resolver_lookup_def)
next
  case (Some e)
  let ?r = "(s_resolver s)\<lparr>mr_cache := AList.delete p (mr_cache (s_resolver s))\<rparr>"
  show ?thesis
  proof (cases "now - rs_at e > mr_ttl (s_resolver s)")
    case True
    with Some show ?thesis
      using that(2) [of ?r] that(3) [of ?r]
      by (cases "resolver_load now p (s_repo s)") (auto simp: resolve_def resolver_lookup_def)
  next
    case False
    with Some show ?thesis using that(1) [of e] by (auto simp: resolve_def resolver_lookup_def)
  qed
qed

lemma cache_current_delete:
  "cache_current s \<Longrightarrow> cache_current (s\<lparr>s_resolver := (s_resolver s)\<lparr>mr_cache := AList.delete p (mr_cache (s_resolver s))\<rparr>\<rparr>)"
  using length_delete_le [of p "mr_cache (s_resolver s)"]
  by (auto simp: cache_current_def intro!: all_map_delete)

lemma cache_current_resolve: "preserves cache_current (resolve now p)"
  unfolding preserves_def
proof (intro allI impI)
  fix s
  assume cur: "cache_current s"
  show "cache_current (snd (resolve now p s))"
  proof (cases rule: resolve_cases [of s p now])
    case (Load r e)
    let ?P = "\<lambda>p e. resolver_load (rs_at e) p (s_repo s) = Inr e"
    from Load(1) cur have r: "mr_max r = mr_max (s_resolver s)" "mr_ttl r = mr_ttl (s_resolver s)"
      "int (length (mr_cache r)) \<le> mr_max r" "all_map ?P (mr_cache r)"
      using cache_current_delete [OF cur, of p] by (auto simp: cache_current_def)
    have "?P p e" using Load(2) resolver_load_at by metis
    with resolver_store_cache [of r ?P p e now] r cur Load(3) show ?thesis
      by (simp add: cache_current_def)
  qed (use cur cache_current_delete in auto)
qed

lemma preserves_bindR_read:
  assumes "\<And>s x. I s \<Longrightarrow> g (s_repo s) = Inr x \<Longrightarrow> Q x" and "\<And>x. Q x \<Longrightarrow> preserves I (f x)"
  shows "preserves I (bindR (repo_read g) f)"
  using assms unfolding preserves_def bindR_def repo_read_def by (auto split: sum.split)

lemma cache_current_write:
  assumes "\<And>r. m_projects (snd (f r)) = m_projects r" and "\<And>r. store_ok r \<Longrightarrow> store_ok (snd (f r))"
  shows "preserves cache_current (repo_write f)"
  unfolding preserves_def
proof (intro allI impI)
  fix s
  assume cur: "cache_current s"
  have "resolver_load now p (snd (f (s_repo s))) = resolver_load now p (s_repo s)" for now p
    by (rule resolver_load_projects) (rule assms(1))
  with cur assms(2) [of "s_repo s"] show "cache_current (snd (repo_write f s))"
    by (auto simp: cache_current_def repo_write_def split: prod.split)
qed

lemma all_map_mono: "all_map P m \<Longrightarrow> (\<And>k v. (k, v) \<in> set m \<Longrightarrow> P k v \<Longrightarrow> Q k v) \<Longrightarrow> all_map Q m"
  by (auto simp: all_map_def list_all_iff)

text \<open>A project write followed by the invalidation of the same project.\<close>

lemma cache_current_project:
  assumes eff: "f r = (Inr (), r\<lparr>m_projects := AList.update i pr (m_projects r)\<rparr>) \<or> (\<exists>e. f r = (Inl e, r))"
    and ok: "store_ok r \<Longrightarrow> store_ok (snd (f r))" and r: "s_repo s = r" and cur: "cache_current s"
    and k: "preserves cache_current (k ())"
  shows "cache_current (snd (bindR (repo_write f) (\<lambda>_. bindR (invalidate i) k) s))"
  using eff
proof
  assume "\<exists>e. f r = (Inl e, r)"
  with cur r show ?thesis by (auto simp: bindR_def repo_write_def)
next
  assume f: "f r = (Inr (), r\<lparr>m_projects := AList.update i pr (m_projects r)\<rparr>)"
  let ?r = "r\<lparr>m_projects := AList.update i pr (m_projects r)\<rparr>"
  let ?s = "s\<lparr>s_repo := ?r, s_resolver := (s_resolver s)\<lparr>mr_cache := AList.delete i (mr_cache (s_resolver s))\<rparr>\<rparr>"
  have load: "resolver_load now q ?r = resolver_load now q r" if "q \<noteq> i" for now q
    using that by (simp add: resolver_load_def mem_GetProject_def)
  from cache_current_delete [OF cur, of i]
  have "all_map (\<lambda>p e. resolver_load (rs_at e) p r = Inr e) (AList.delete i (mr_cache (s_resolver s)))"
    by (simp add: cache_current_def r)
  then have "all_map (\<lambda>p e. resolver_load (rs_at e) p ?r = Inr e) (AList.delete i (mr_cache (s_resolver s)))"
    by (rule all_map_mono) (auto simp: load AList.delete_eq)
  with cache_current_delete [OF cur, of i] ok f have "cache_current ?s"
    by (simp add: cache_current_def r)
  with k f r show ?thesis
    by (simp add: bindR_def repo_write_def invalidate_def preserves_def)
qed

lemma cache_current_LogAdmin: "preserves cache_current (bindR (LogAdminMutation rec) (\<lambda>_. ret x))"
  by (simp add: preserves_def bindR_def LogAdminMutation_def cache_current_def)

lemma cache_current_CreateProject: "preserves cache_current (svc_CreateProject now i name model region mx)"
proof -
  have "preserves cache_current (bindR (repo_write (mem_CreateProject p)) (\<lambda>_. bindR (invalidate (pr_ID p))
      (\<lambda>_. bindR (LogAdminMutation rec) (\<lambda>_. ret x))))" for p rec and x :: project
    unfolding preserves_def
    by (intro allI impI cache_current_project [OF _ store_ok_projects(1) HOL.refl])
      (auto simp: mem_CreateProject_def cache_current_LogAdmin)
  from this [of "\<lparr>pr_ID = i, pr_Name = name, pr_Status = ProjectActive, pr_Model = model, pr_DataRegion = region,
               pr_MaxCheckReads = mx, pr_CreatedAt = now, pr_UpdatedAt = now\<rparr>"]
  show ?thesis unfolding svc_CreateProject_def Let_def
    by (intro preserves_if preserves_fail preserves_bindR_lift) simp
qed

lemma cache_current_UpdateProject:
  "preserves cache_current (svc_UpdateProject now i name status model region clearRegion mx clearBudget)"
proof -
  have wrote: "preserves cache_current (bindR (repo_write (mem_UpdateProject p)) (\<lambda>_. bindR (invalidate i)
      (\<lambda>_. bindR (LogAdminMutation rec) (\<lambda>_. ret x))))" if "pr_ID p = i" for p rec and x :: project
    unfolding preserves_def that [symmetric]
    by (intro allI impI cache_current_project [OF _ store_ok_projects(2) HOL.refl])
      (auto simp: mem_UpdateProject_def cache_current_LogAdmin)
  have read: "pr_ID p = i" if "cache_current s" "mem_GetProject i (s_repo s) = Inr p" for s p
    using that by (auto simp: cache_current_def store_ok_def mem_GetProject_def dest: all_mapD split: option.splits)
  show ?thesis unfolding svc_UpdateProject_def Let_def
    by (intro preserves_if preserves_fail preserves_bindR_lift preserves_bindR_read [where Q = "\<lambda>p. pr_ID p = i"] wrote)
      (auto dest: read)
qed

lemma m_projects_writeTuplesLocked [simp]: "m_projects (writeTuplesLocked p t ins del s) = m_projects s"
  by (simp add: writeTuplesLocked_def bump_seq_def Let_def)

lemma m_projects_bump_seq [simp]: "m_projects (bump_seq sk s) = m_projects s"
  by (simp add: bump_seq_def)

lemma project_frames:
  "m_projects (snd (mem_WriteTuples p t ins del r)) = m_projects r"
  "m_projects (snd (mem_DeleteAllSubjectTuplesInProject p u r)) = m_projects r"
  "m_projects (snd (mem_CreateWorkspace w r)) = m_projects r"
  "m_projects (snd (mem_UpdateWorkspace w r)) = m_projects r"
  "m_projects (snd (mem_DeleteWorkspace p t i r)) = m_projects r"
  "m_projects (snd (mem_PutMembershipAndTuples m ins del r)) = m_projects r"
  "m_projects (snd (mem_DeleteMembershipAndTuples p t i u del r)) = m_projects r"
  "m_projects (snd (mem_CreateInvitation iv r)) = m_projects r"
  "m_projects (snd (mem_UpdateInvitation iv r)) = m_projects r"
  "m_projects (snd (mem_CreateGroup g r)) = m_projects r"
  "m_projects (snd (mem_DeleteGroup p t i r)) = m_projects r"
  "m_projects (snd (mem_SetEnrollmentAndTuples e ins del r)) = m_projects r"
  "m_projects (snd (mem_SetSeatLimit p t sku l r)) = m_projects r"
  "m_projects (snd (mem_AssignSeatAndTuple a tu r)) = m_projects r"
  "m_projects (snd (mem_RevokeSeatAndTuple p t sku u tu r)) = m_projects r"
  by (simp_all add: store_write_defs deleteMembershipLocked_def putMembershipLocked_def Let_def
      split: option.split prod.split)

interpretation cache: write_invariant cache_current "\<lambda>_. True"
  by unfold_locales
    (rule cache_current_CreateProject cache_current_UpdateProject cache_current_resolve |
     (rule cache_current_write; simp only: project_frames store_ok_writes) |
     simp add: cache_current_def)+

lemma reachable_cache: "svc_reachable ok s \<Longrightarrow> cache_current s"
proof (erule cache.reachable_keeps)
  show "call_ok (\<lambda>_. True) True (\<lambda>_. True) c" for c by (cases c) simp_all
  show "svc_init s \<Longrightarrow> cache_current s" for s
    by (simp add: svc_init_def cache_current_def newModelResolver_def resolverTTL_def resolverMaxEntries_def)
qed

end
