(* ===== verification/Service_Members.thy ===== *)
theory Service_Members
  imports Service_Seats Service_Resolver Authz_Flat
begin

section \<open>Members: the membership table and the role tuples agree\<close>

text \<open>
  A membership is a row of the membership table and, while it is active, one role tuple on the
  workspace. As long as nobody writes workspace tuples past the typed operations
  (\<^verbatim>\<open>WriteTuples\<close> on that namespace, or offboarding), every service keeps the two in step, keeps
  exactly one owner per workspace, the one the workspace names, and invites only into existing
  workspaces and never as owner (\<open>members_ok\<close>).
\<close>

subsection \<open>Views of the repository\<close>

definition member_row :: "store \<Rightarrow> string \<Rightarrow> string \<Rightarrow> string \<Rightarrow> membership option" where
  "member_row s sk w u = map_of (submap (submap (m_memberships s) sk) w) u"

definition ws_row :: "store \<Rightarrow> string \<Rightarrow> string \<Rightarrow> workspace option" where
  "ws_row s sk w = map_of (submap (m_workspaces s) sk) w"

definition inv_row :: "store \<Rightarrow> string \<Rightarrow> string \<Rightarrow> invitation option" where
  "inv_row s sk i = map_of (submap (m_invitations s) sk) i"

abbreviation role_tuple :: "string \<Rightarrow> string \<Rightarrow> string \<Rightarrow> tuple" where
  "role_tuple w u r \<equiv> userTuple ''workspace'' w r u"

definition holds :: "store \<Rightarrow> string \<Rightarrow> string \<Rightarrow> string \<Rightarrow> string \<Rightarrow> bool" where
  "holds s sk w u r \<longleftrightarrow> tuple_at s sk (tupleKey (role_tuple w u r)) = Some (role_tuple w u r)"

definition active_role :: "store \<Rightarrow> string \<Rightarrow> string \<Rightarrow> string \<Rightarrow> string \<Rightarrow> bool" where
  "active_role s sk w u r \<longleftrightarrow> (\<exists>m. member_row s sk w u = Some m \<and> mb_Status m = StatusActive \<and> mb_Role m = r)"

subsection \<open>The invariant\<close>

definition tuples_clean :: "store \<Rightarrow> bool" where
  "tuples_clean s \<longleftrightarrow> (\<forall>sk k t. tuple_at s sk k = Some t \<longrightarrow> t_Namespace t = ''workspace'' \<longrightarrow>
     (\<exists>w u r. t = role_tuple w u r))"

definition roles_agree :: "store \<Rightarrow> bool" where
  "roles_agree s \<longleftrightarrow> (\<forall>sk w u r. holds s sk w u r \<longleftrightarrow> active_role s sk w u r)"

definition member_ok :: "string option \<Rightarrow> string \<Rightarrow> membership \<Rightarrow> bool" where
  "member_ok owner u m \<longleftrightarrow> owner \<noteq> None \<and> Role_Valid (mb_Role m) \<and>
     (mb_Role m = RoleOwner \<longleftrightarrow> owner = Some u) \<and>
     (mb_Status m = StatusActive \<or> mb_Status m = StatusSuspended \<and> mb_Role m \<noteq> RoleOwner)"

definition owner_of :: "store \<Rightarrow> string \<Rightarrow> string \<Rightarrow> string option" where
  "owner_of s sk w = map_option ws_OwnerUserID (ws_row s sk w)"

definition rows_valid :: "store \<Rightarrow> bool" where
  "rows_valid s \<longleftrightarrow> (\<forall>sk w u m. member_row s sk w u = Some m \<longrightarrow> member_ok (owner_of s sk w) u m)"

definition owners_present :: "store \<Rightarrow> bool" where
  "owners_present s \<longleftrightarrow> (\<forall>sk w u. owner_of s sk w = Some u \<longrightarrow> member_row s sk w u \<noteq> None)"

definition invites_valid :: "store \<Rightarrow> bool" where
  "invites_valid s \<longleftrightarrow> (\<forall>sk i iv. inv_row s sk i = Some iv \<longrightarrow>
     ws_row s sk (iv_WorkspaceID iv) \<noteq> None \<and> Role_Valid (iv_Role iv) \<and> iv_Role iv \<noteq> RoleOwner)"

definition members_ok :: "store \<Rightarrow> bool" where
  "members_ok s \<longleftrightarrow> store_ok s \<and> tuples_clean s \<and> roles_agree s \<and> rows_valid s \<and> owners_present s \<and> invites_valid s"

lemma members_okD:
  "members_ok s \<Longrightarrow> member_row s sk w u = Some m \<Longrightarrow> member_ok (owner_of s sk w) u m"
  "members_ok s \<Longrightarrow> owner_of s sk w = Some u \<Longrightarrow> member_row s sk w u \<noteq> None"
  "members_ok s \<Longrightarrow> inv_row s sk i = Some iv \<Longrightarrow>
     ws_row s sk (iv_WorkspaceID iv) \<noteq> None \<and> Role_Valid (iv_Role iv) \<and> iv_Role iv \<noteq> RoleOwner"
  "members_ok s \<Longrightarrow> holds s sk w u r \<longleftrightarrow> active_role s sk w u r"
  "members_ok s \<Longrightarrow> store_ok s"
  unfolding members_ok_def rows_valid_def owners_present_def invites_valid_def roles_agree_def by metis+

subsection \<open>How writes show in the views\<close>

lemma views_bump_seq [simp]:
  "member_row (bump_seq sk s) = member_row s" "ws_row (bump_seq sk s) = ws_row s" "inv_row (bump_seq sk s) = inv_row s"
  by (simp_all add: member_row_def ws_row_def inv_row_def bump_seq_def fun_eq_iff)

lemma views_writeTuplesLocked [simp]:
  "member_row (writeTuplesLocked p t ins del s) = member_row s"
  "ws_row (writeTuplesLocked p t ins del s) = ws_row s" "inv_row (writeTuplesLocked p t ins del s) = inv_row s"
  by (simp_all add: member_row_def ws_row_def inv_row_def writeTuplesLocked_def bump_seq_def Let_def fun_eq_iff)

lemma tupleKey_role_tuple [simp]:
  "tupleKey (role_tuple w u r) = tupleKey (role_tuple w' u' r') \<longleftrightarrow> w = w' \<and> u = u' \<and> r = r'"
  by (auto simp: tupleKey_inject ident_of_def ident_of_subject_def userTuple_def)

lemma find_map_role:
  "find (\<lambda>t. tupleKey t = tupleKey (role_tuple w u r)) (rev (map (\<lambda>(w, u, r). role_tuple w u r) xs)) =
     (if (w, u, r) \<in> set xs then Some (role_tuple w u r) else None)"
  by (induction xs rule: rev_induct) (auto split: prod.splits)

lemma key_image_role:
  "tupleKey (role_tuple w u r) \<in> tupleKey ` (\<lambda>(w, u, r). role_tuple w u r) ` set xs \<longleftrightarrow> (w, u, r) \<in> set xs"
proof -
  have "tupleKey (role_tuple w u r) \<in> (\<lambda>x. tupleKey (case x of (w, u, r) \<Rightarrow> role_tuple w u r)) ` set xs \<longleftrightarrow> (w, u, r) \<in> set xs"
    by (force simp: image_iff)
  then show ?thesis by (simp add: image_image)
qed

lemma holds_write:
  "holds (writeTuplesLocked p t (map (\<lambda>(w, u, r). role_tuple w u r) ins) (map (\<lambda>(w, u, r). role_tuple w u r) del) s) sk w u r \<longleftrightarrow>
     (if sk = scope p t then (w, u, r) \<in> set ins \<or> (w, u, r) \<notin> set del \<and> holds s sk w u r else holds s sk w u r)"
  by (simp add: holds_def tuple_at_writeTuplesLocked find_map_role key_image_role)

lemma clean_write:
  assumes "tuples_clean s0" and "\<And>t. t \<in> set ins \<Longrightarrow> t_Namespace t = ''workspace'' \<Longrightarrow> \<exists>w u r. t = role_tuple w u r"
  shows "tuples_clean (writeTuplesLocked p t ins del s0)"
  using assms
  by (auto simp: tuples_clean_def tuple_at_writeTuplesLocked split: if_splits option.splits dest!: find_SomeD)

lemma tuples_eq:
  "m_tuples s' = m_tuples s \<Longrightarrow> tuple_at s' = tuple_at s"
  "m_tuples s' = m_tuples s \<Longrightarrow> holds s' = holds s" "m_tuples s' = m_tuples s \<Longrightarrow> tuples_clean s' = tuples_clean s"
  by (simp_all add: tuple_at_def holds_def tuples_clean_def fun_eq_iff)

subsection \<open>Replacing one membership\<close>

text \<open>The part of the invariant that does not mention owners, which a transfer suspends.\<close>

definition roles_ok :: "store \<Rightarrow> bool" where
  "roles_ok s \<longleftrightarrow> store_ok s \<and> tuples_clean s \<and> roles_agree s \<and> invites_valid s"

lemma members_ok_roles: "members_ok s \<longleftrightarrow> roles_ok s \<and> rows_valid s \<and> owners_present s"
  by (auto simp: members_ok_def roles_ok_def)

text \<open>
  The common shape of adding, re-rolling, suspending, reinstating, promoting and demoting: the row
  of one user is replaced, and the role tuples of that user move with it.
\<close>

lemma put_member:
  assumes ok: "roles_ok s"
    and ids: "scope (mb_ProjectID m) (mb_TenantID m) = sk" "mb_WorkspaceID m = w" "mb_UserID m = u"
    and move: "\<And>r. r \<in> set ins \<or> r \<notin> set del \<and> active_role s sk w u r \<longleftrightarrow>
      mb_Status m = StatusActive \<and> mb_Role m = r"
    and s': "s' = snd (mem_PutMembershipAndTuples m (map (role_tuple w u) ins) (map (role_tuple w u) del) s)"
  shows "roles_ok s'" and "member_row s' = (member_row s)(sk := (member_row s sk)(w := (member_row s sk w)(u \<mapsto> m)))"
    and "ws_row s' = ws_row s" and "owner_of s' = owner_of s"
proof -
  let ?base = "putMembershipLocked m s"
  have s: "s' = writeTuplesLocked (mb_ProjectID m) (mb_TenantID m)
      (map (\<lambda>(w, u, r). role_tuple w u r) (map (\<lambda>r. (w, u, r)) ins))
      (map (\<lambda>(w, u, r). role_tuple w u r) (map (\<lambda>r. (w, u, r)) del)) ?base"
    by (simp add: s' mem_PutMembershipAndTuples_def comp_def)
  show row: "member_row s' = (member_row s)(sk := (member_row s sk)(w := (member_row s sk w)(u \<mapsto> m)))"
    by (simp add: s member_row_def putMembershipLocked_def ids fun_eq_iff)
  show others: "ws_row s' = ws_row s"
    by (simp add: s ws_row_def putMembershipLocked_def fun_eq_iff)
  then show "owner_of s' = owner_of s" by (simp add: owner_of_def fun_eq_iff)
  have inv: "inv_row s' = inv_row s"
    by (simp add: s inv_row_def putMembershipLocked_def fun_eq_iff)
  have tup: "m_tuples ?base = m_tuples s" by (simp add: putMembershipLocked_def)
  have "tuples_clean s'" unfolding s
    using ok by (intro clean_write) (auto simp: tuples_eq(3) [OF tup] roles_ok_def)
  moreover have hold: "holds s' sk' w' u' r \<longleftrightarrow> (if sk' = sk \<and> w' = w \<and> u' = u
      then r \<in> set ins \<or> r \<notin> set del \<and> holds s sk w u r else holds s sk' w' u' r)" for sk' w' u' r
    unfolding s holds_write tuples_eq(2) [OF tup] ids(1) by auto
  have act: "active_role s' sk' w' u' r \<longleftrightarrow> (if sk' = sk \<and> w' = w \<and> u' = u
      then mb_Status m = StatusActive \<and> mb_Role m = r else active_role s sk' w' u' r)" for sk' w' u' r
    by (auto simp: active_role_def row)
  from ok move have "roles_agree s'" by (simp add: roles_agree_def hold act roles_ok_def)
  moreover have "invites_valid s'" using ok by (simp add: roles_ok_def invites_valid_def others inv)
  moreover have "store_ok s'" using ok by (auto simp: roles_ok_def s' intro: store_ok_writes)
  ultimately show "roles_ok s'" by (simp add: roles_ok_def)
qed

lemma members_put:
  assumes ok: "members_ok s" and ws: "owner_of s sk w = Some ow" and new: "member_ok (Some ow) u m"
    and ids: "scope (mb_ProjectID m) (mb_TenantID m) = sk" "mb_WorkspaceID m = w" "mb_UserID m = u"
    and move: "\<And>r. r \<in> set ins \<or> r \<notin> set del \<and> active_role s sk w u r \<longleftrightarrow>
      mb_Status m = StatusActive \<and> mb_Role m = r"
  shows "members_ok (snd (mem_PutMembershipAndTuples m (map (role_tuple w u) ins) (map (role_tuple w u) del) s))"
proof -
  from ok have "roles_ok s" by (simp add: members_ok_roles)
  note put = put_member [OF this ids move HOL.refl]
  have rows: "member_ok (owner_of s sk' w') u' m'"
    if "((member_row s)(sk := (member_row s sk)(w := (member_row s sk w)(u \<mapsto> m)))) sk' w' u' = Some m'" for sk' w' u' m'
    using that ws new members_okD(1) [OF ok, of sk' w' u' m'] by (auto split: if_splits)
  have owners: "((member_row s)(sk := (member_row s sk)(w := (member_row s sk w)(u \<mapsto> m)))) sk' w' u' \<noteq> None"
    if "owner_of s sk' w' = Some u'" for sk' w' u' using members_okD(2) [OF ok that] by auto
  from put(1) rows owners show ?thesis
    unfolding members_ok_roles rows_valid_def owners_present_def put(2) put(4) by blast
qed

subsection \<open>Rows read before a write\<close>

lemma GetMembership_row:
  "mem_GetMembership p t w u s = (case member_row s (scope p t) w u of Some m \<Rightarrow> Inr m | None \<Rightarrow> Inl ErrNotFound)"
  by (simp add: mem_GetMembership_def member_row_def)

lemma GetWorkspace_row:
  "mem_GetWorkspace p t w s = (case ws_row s (scope p t) w of Some wk \<Rightarrow> Inr wk | None \<Rightarrow> Inl ErrNotFound)"
  by (simp add: mem_GetWorkspace_def ws_row_def)

lemma member_row_ids:
  assumes "store_ok s" and "member_row s sk w u = Some m"
  shows "mb_WorkspaceID m = w" "mb_UserID m = u" "scope (mb_ProjectID m) (mb_TenantID m) = sk"
proof -
  let ?P = "\<lambda>sk w. all_map (\<lambda>u m. mb_UserID m = u \<and> mb_WorkspaceID m = w \<and> scope (mb_ProjectID m) (mb_TenantID m) = sk)"
  have "all_map (?P sk) (submap (m_memberships s) sk)"
    using assms(1) by (intro all_map_submap [where P = ?P]) (simp add: store_ok_def)
  from all_mapD [OF all_map_submap [OF this, of w]] assms(2)
  show "mb_WorkspaceID m = w" "mb_UserID m = u" "scope (mb_ProjectID m) (mb_TenantID m) = sk"
    by (auto simp: member_row_def)
qed

lemma member_row_valid:
  assumes "members_ok s" and "member_row s sk w u = Some m"
  obtains ow where "owner_of s sk w = Some ow" and "member_ok (Some ow) u m"
  using members_okD(1) [OF assms] by (cases "owner_of s sk w") (auto simp: member_ok_def)

lemma active_role_row:
  "member_row s sk w u = Some m \<Longrightarrow> active_role s sk w u r \<longleftrightarrow> mb_Status m = StatusActive \<and> mb_Role m = r"
  "member_row s sk w u = None \<Longrightarrow> \<not> active_role s sk w u r"
  by (auto simp: active_role_def)

lemma status_neq [simp]: "StatusSuspended \<noteq> StatusActive" "StatusActive \<noteq> StatusSuspended"
  by (simp_all add: status_defs)

lemma role_neq [simp]: "RoleAdmin \<noteq> RoleOwner" "RoleOwner \<noteq> RoleAdmin" "Role_Valid RoleAdmin" "Role_Valid RoleOwner"
  by (simp_all add: role_defs Role_Valid_def)

lemma NotFound_simps [simp]: "isNotFound ErrNotFound" "\<not> isAlreadyExists ErrNotFound" "isAlreadyExists ErrAlreadyExists"
  "\<not> isNotFound ErrAlreadyExists"
  by (simp_all add: isNotFound_def isAlreadyExists_def errors_Is_def)

subsection \<open>The member operations\<close>

lemma members_add:
  assumes ok: "members_ok s" and ws: "ws_row s (scope p t) w = Some wk" and new: "member_row s (scope p t) w u = None"
    and role: "Role_Valid role" "role \<noteq> RoleOwner"
  shows "members_ok (snd (mem_PutMembershipAndTuples
      \<lparr>mb_ProjectID = p, mb_TenantID = t, mb_WorkspaceID = w, mb_UserID = u, mb_Role = role, mb_Status = StatusActive,
       mb_CreatedAt = c, mb_UpdatedAt = d\<rparr> [role_tuple w u role] [] s))"
proof -
  have "ws_OwnerUserID wk \<noteq> u" using members_okD(2) [OF ok, of "scope p t" w u] ws new by (auto simp: owner_of_def)
  moreover have "owner_of s (scope p t) w = Some (ws_OwnerUserID wk)" using ws by (simp add: owner_of_def)
  ultimately show ?thesis
    using members_put [OF ok, where sk = "scope p t" and w = w and u = u and ow = "ws_OwnerUserID wk" and ins = "[role]"
        and del = "[]" and m = "\<lparr>mb_ProjectID = p, mb_TenantID = t, mb_WorkspaceID = w, mb_UserID = u, mb_Role = role,
          mb_Status = StatusActive, mb_CreatedAt = c, mb_UpdatedAt = d\<rparr>"] role
    by (auto simp: member_ok_def active_role_row(2) [OF new])
qed

lemma members_putMember:
  assumes "members_ok r" and "ws_row r (scope (p_ProjectID p) (p_TenantID p)) w = Some wk"
    and "member_row r (scope (p_ProjectID p) (p_TenantID p)) w u = None" and "Role_Valid role" "role \<noteq> RoleOwner"
  shows "writes r members_ok (putMember now p w u role)"
  unfolding putMember_def Let_def by (intro writes_intros members_add [OF assms])

lemma members_AddMember: "preserves (\<lambda>s. members_ok (s_repo s)) (svc_AddMember now p w u role)"
  unfolding svc_AddMember_def
  by (intro preserves_writes writes_intros)
    (auto simp: GetWorkspace_row GetMembership_row split: option.splits intro!: members_putMember)

lemma members_change:
  assumes ok: "members_ok s" and row: "member_row s (scope p t) w u = Some m" and old: "mb_Role m \<noteq> RoleOwner"
    and valid: "Role_Valid role" "role \<noteq> RoleOwner" "st = StatusActive \<or> st = StatusSuspended"
    and move: "\<And>r. r \<in> set ins \<or> r \<notin> set del \<and> mb_Status m = StatusActive \<and> mb_Role m = r \<longleftrightarrow> st = StatusActive \<and> role = r"
  shows "members_ok (snd (mem_PutMembershipAndTuples (m\<lparr>mb_Role := role, mb_Status := st, mb_UpdatedAt := d\<rparr>)
      (map (role_tuple w u) ins) (map (role_tuple w u) del) s))"
proof -
  obtain ow where ow: "owner_of s (scope p t) w = Some ow" "member_ok (Some ow) u m"
    using member_row_valid [OF ok row] .
  have ids: "mb_WorkspaceID m = w" "mb_UserID m = u" "scope (mb_ProjectID m) (mb_TenantID m) = scope p t"
    using member_row_ids [OF _ row] ok by (simp_all add: members_ok_def)
  have new: "member_ok (Some ow) u (m\<lparr>mb_Role := role, mb_Status := st, mb_UpdatedAt := d\<rparr>)"
    using ow(2) old valid by (auto simp: member_ok_def)
  show ?thesis
    by (rule members_put [OF ok ow(1) new]) (simp_all add: ids active_role_row(1) [OF row] move)
qed

lemma members_UpdateMemberRole: "preserves (\<lambda>s. members_ok (s_repo s)) (svc_UpdateMemberRole now p w u role)"
  unfolding svc_UpdateMemberRole_def Let_def
proof (intro preserves_writes writes_intros)
  fix r wk m
  assume ok: "members_ok r" and m: "mem_GetMembership (p_ProjectID p) (p_TenantID p) w u r = Inr m"
    and g: "\<not> (\<not> Role_Valid role \<or> role = RoleOwner)" "mb_Role m \<noteq> RoleOwner" "mb_Status m \<noteq> StatusSuspended"
      "mb_Role m \<noteq> role"
  from m have row: "member_row r (scope (p_ProjectID p) (p_TenantID p)) w u = Some m"
    by (simp add: GetMembership_row split: option.splits)
  with ok have act: "mb_Status m = StatusActive" using members_okD(1) g(3) by (fastforce simp: member_ok_def)
  then have eq: "m\<lparr>mb_Role := role, mb_UpdatedAt := now\<rparr> = m\<lparr>mb_Role := role, mb_Status := StatusActive, mb_UpdatedAt := now\<rparr>"
    by (cases m) simp
  show "members_ok (snd (mem_PutMembershipAndTuples (m\<lparr>mb_Role := role, mb_UpdatedAt := now\<rparr>) [role_tuple w u role]
      [role_tuple w u (mb_Role m)] r))"
    unfolding eq using members_change [OF ok row g(2), of role StatusActive "[role]" "[mb_Role m]" now] g(1,4) act by auto
qed

lemma members_SuspendMember: "preserves (\<lambda>s. members_ok (s_repo s)) (svc_SuspendMember now p w u)"
  unfolding svc_SuspendMember_def Let_def
proof (intro preserves_writes writes_intros)
  fix r wk m
  assume ok: "members_ok r" and m: "mem_GetMembership (p_ProjectID p) (p_TenantID p) w u r = Inr m"
    and g: "mb_Role m \<noteq> RoleOwner"
  from m have row: "member_row r (scope (p_ProjectID p) (p_TenantID p)) w u = Some m"
    by (simp add: GetMembership_row split: option.splits)
  have "Role_Valid (mb_Role m)" using members_okD(1) [OF ok row] by (simp add: member_ok_def)
  with members_change [OF ok row g, of "mb_Role m" StatusSuspended "[]" "[mb_Role m]" now] g
  show "members_ok (snd (mem_PutMembershipAndTuples (m\<lparr>mb_Status := StatusSuspended, mb_UpdatedAt := now\<rparr>) []
      [role_tuple w u (mb_Role (m\<lparr>mb_Status := StatusSuspended, mb_UpdatedAt := now\<rparr>))] r))"
    by auto
qed

lemma members_ReinstateMember: "preserves (\<lambda>s. members_ok (s_repo s)) (svc_ReinstateMember now p w u)"
  unfolding svc_ReinstateMember_def Let_def
proof (intro preserves_writes writes_intros)
  fix r wk m
  assume ok: "members_ok r" and m: "mem_GetMembership (p_ProjectID p) (p_TenantID p) w u r = Inr m"
    and g: "\<not> mb_Status m \<noteq> StatusSuspended"
  from m have row: "member_row r (scope (p_ProjectID p) (p_TenantID p)) w u = Some m"
    by (simp add: GetMembership_row split: option.splits)
  have valid: "Role_Valid (mb_Role m)" "mb_Role m \<noteq> RoleOwner"
    using members_okD(1) [OF ok row] g by (auto simp: member_ok_def)
  with members_change [OF ok row valid(2), of "mb_Role m" StatusActive "[mb_Role m]" "[]" now] g
  show "members_ok (snd (mem_PutMembershipAndTuples (m\<lparr>mb_Status := StatusActive, mb_UpdatedAt := now\<rparr>)
      [role_tuple w u (mb_Role (m\<lparr>mb_Status := StatusActive, mb_UpdatedAt := now\<rparr>))] [] r))"
    by auto
qed

subsection \<open>Removing a member\<close>

lemma members_RemoveMember: "preserves (\<lambda>s. members_ok (s_repo s)) (svc_RemoveMember now p w u)"
  unfolding svc_RemoveMember_def
proof (intro preserves_writes writes_intros)
  fix r wk m
  let ?sk = "scope (p_ProjectID p) (p_TenantID p)"
  assume ok: "members_ok r" and m: "mem_GetMembership (p_ProjectID p) (p_TenantID p) w u r = Inr m" and g: "mb_Role m \<noteq> RoleOwner"
  from m have row: "member_row r ?sk w u = Some m" by (simp add: GetMembership_row split: option.splits)
  define r' where "r' = snd (mem_DeleteMembershipAndTuples (p_ProjectID p) (p_TenantID p) w u [role_tuple w u (mb_Role m)] r)"
  let ?base = "r\<lparr>m_memberships := AList.map_entry ?sk (AList.map_entry w (AList.delete u)) (m_memberships r)\<rparr>"
  have r': "r' = writeTuplesLocked (p_ProjectID p) (p_TenantID p) (map (\<lambda>(w, u, r). role_tuple w u r) [])
      (map (\<lambda>(w, u, r). role_tuple w u r) [(w, u, mb_Role m)]) ?base"
    using row by (simp add: r'_def mem_DeleteMembershipAndTuples_def deleteMembershipLocked_def Let_def member_row_def)
  have rows: "member_row r' sk' w' u' = (if sk' = ?sk \<and> w' = w \<and> u' = u then None else member_row r sk' w' u')" for sk' w' u'
    by (simp add: r' member_row_def submap_map_entry_Nil del: submap_map_entry)
  have same: "ws_row r' = ws_row r" "inv_row r' = inv_row r" "owner_of r' = owner_of r"
    by (simp_all add: r' ws_row_def inv_row_def owner_of_def fun_eq_iff)
  have tup: "m_tuples ?base = m_tuples r" by simp
  have "tuples_clean r'" unfolding r'
    using ok by (intro clean_write) (auto simp: tuples_eq(3) [OF tup] members_ok_def)
  moreover have hold: "holds r' sk' w' u' x \<longleftrightarrow> (if sk' = ?sk \<and> w' = w \<and> u' = u then x \<noteq> mb_Role m \<and> holds r ?sk w u x
      else holds r sk' w' u' x)" for sk' w' u' x
    unfolding r' holds_write tuples_eq(2) [OF tup] by auto
  have act: "active_role r' sk' w' u' x \<longleftrightarrow> \<not> (sk' = ?sk \<and> w' = w \<and> u' = u) \<and> active_role r sk' w' u' x" for sk' w' u' x
    by (auto simp: active_role_def rows)
  have "roles_agree r'" using members_okD(4) [OF ok]
    by (simp add: roles_agree_def hold act active_role_row(1) [OF row]) (use row in \<open>auto simp: active_role_def\<close>)
  moreover have "rows_valid r'" using members_okD(1) [OF ok] by (simp add: rows_valid_def rows same)
  moreover have "owners_present r'"
    using members_okD(2) [OF ok] members_okD(1) [OF ok row] g by (auto simp: owners_present_def rows same member_ok_def)
  moreover have "invites_valid r'" using members_okD(3) [OF ok] by (simp add: invites_valid_def same)
  moreover have "store_ok r'" using members_okD(5) [OF ok] by (simp add: r'_def store_ok_writes)
  ultimately show "members_ok (snd (mem_DeleteMembershipAndTuples (p_ProjectID p) (p_TenantID p) w u [role_tuple w u (mb_Role m)] r))"
    by (simp add: members_ok_def r'_def)
qed

subsection \<open>Workspaces\<close>

lemma members_createWorkspaceWithOwner: "preserves (\<lambda>s. members_ok (s_repo s)) (createWorkspaceWithOwner wk)"
proof -
  have "members_ok (s_repo (snd (createWorkspaceWithOwner wk s)))" if ok: "members_ok (s_repo s)" for s
  proof (cases "fst (mem_CreateWorkspace wk (s_repo s))")
    case (Inl e)
    then have "snd (mem_CreateWorkspace wk (s_repo s)) = s_repo s"
      by (auto simp: mem_CreateWorkspace_def Let_def split: if_splits)
    with ok Inl show ?thesis
      by (auto simp: createWorkspaceWithOwner_def bindR_def repo_write_def split: prod.split)
  next
    case (Inr x)
    let ?sk = "scope (ws_ProjectID wk) (ws_TenantID wk)" and ?u = "ws_OwnerUserID wk"
    let ?m = "\<lparr>mb_ProjectID = ws_ProjectID wk, mb_TenantID = ws_TenantID wk, mb_WorkspaceID = ws_ID wk, mb_UserID = ?u,
        mb_Role = RoleOwner, mb_Status = StatusActive, mb_CreatedAt = ws_CreatedAt wk, mb_UpdatedAt = ws_UpdatedAt wk\<rparr>"
    define r where "r = snd (mem_CreateWorkspace wk (s_repo s))"
    have new: "ws_row (s_repo s) ?sk (ws_ID wk) = None"
      and r: "r = (s_repo s)\<lparr>m_workspaces := put2 ?sk (ws_ID wk) wk (m_workspaces (s_repo s))\<rparr>"
      using Inr by (auto simp: r_def mem_CreateWorkspace_def ws_row_def Let_def split: if_splits)
    have none: "member_row (s_repo s) ?sk (ws_ID wk) u = None" for u
      using members_okD(1) [OF ok, of ?sk "ws_ID wk" u] new
      by (cases "member_row (s_repo s) ?sk (ws_ID wk) u") (auto simp: member_ok_def owner_of_def)
    have row: "member_row r = member_row (s_repo s)" "inv_row r = inv_row (s_repo s)"
      by (simp_all add: r member_row_def inv_row_def fun_eq_iff)
    have ws: "ws_row r sk' w' = (if sk' = ?sk \<and> w' = ws_ID wk then Some wk else ws_row (s_repo s) sk' w')" for sk' w'
      by (simp add: r ws_row_def)
    have tup: "m_tuples r = m_tuples (s_repo s)" by (simp add: r)
    have "store_ok r" using members_okD(5) [OF ok] by (simp add: r_def store_ok_writes)
    moreover have "roles_agree r" using members_okD(4) [OF ok] by (simp add: roles_agree_def tuples_eq(2) [OF tup] active_role_def row)
    moreover have "invites_valid r" using members_okD(3) [OF ok] by (auto simp: invites_valid_def ws row)
    ultimately have roles: "roles_ok r" using ok by (simp add: roles_ok_def tuples_eq(3) [OF tup] members_ok_def)
    have "\<not> active_role r ?sk (ws_ID wk) ?u x" for x using none by (simp add: active_role_def row)
    then have move: "x \<in> set [RoleOwner] \<or> x \<notin> set [] \<and> active_role r ?sk (ws_ID wk) ?u x \<longleftrightarrow>
        mb_Status ?m = StatusActive \<and> mb_Role ?m = x" for x by auto
    define r' where "r' = snd (mem_PutMembershipAndTuples ?m (map (role_tuple (ws_ID wk) ?u) [RoleOwner]) (map (role_tuple (ws_ID wk) ?u) []) r)"
    have put: "roles_ok r'" "member_row r' = (member_row r)(?sk := (member_row r ?sk)(ws_ID wk := (member_row r ?sk (ws_ID wk))(?u \<mapsto> ?m)))"
      "owner_of r' = owner_of r"
      using put_member [OF roles _ _ _ move, where s' = r'] by (simp_all add: r'_def)
    have own: "owner_of r' sk' w' = (if sk' = ?sk \<and> w' = ws_ID wk then Some ?u else owner_of (s_repo s) sk' w')" for sk' w'
      unfolding put by (simp add: owner_of_def ws)
    have rows: "member_row r' sk' w' u' = (if sk' = ?sk \<and> w' = ws_ID wk then (if u' = ?u then Some ?m else None)
        else member_row (s_repo s) sk' w' u')" for sk' w' u' by (auto simp: put row none)
    have "rows_valid r'" unfolding rows_valid_def rows own
      using members_okD(1) [OF ok] by (auto simp: member_ok_def split: if_splits)
    moreover have "owners_present r'" unfolding owners_present_def rows own
      using members_okD(2) [OF ok] by (auto split: if_splits)
    ultimately have "members_ok r'" using put(1) by (simp add: members_ok_roles)
    with Inr show ?thesis
      by (auto simp: createWorkspaceWithOwner_def bindR_def repo_write_def r'_def r_def split: prod.split sum.split)
  qed
  then show ?thesis by (simp add: preserves_def)
qed

text \<open>Writes that change none of the views.\<close>

lemma members_same:
  assumes "members_ok s" and "store_ok s'" and "member_row s' = member_row s" and "owner_of s' = owner_of s"
    and "invites_valid s'" and "holds s' = holds s" and "tuples_clean s'"
  shows "members_ok s'"
  using assms by (simp add: members_ok_def roles_agree_def rows_valid_def owners_present_def active_role_def)

lemma ws_row_ids:
  assumes "store_ok s" and "ws_row s sk w = Some wk"
  shows "ws_ID wk = w" "scope (ws_ProjectID wk) (ws_TenantID wk) = sk"
proof -
  let ?P = "\<lambda>sk i w. ws_ID w = i \<and> scope (ws_ProjectID w) (ws_TenantID w) = sk"
  have "all_map (?P sk) (submap (m_workspaces s) sk)"
    using assms(1) by (intro all_map_submap [where P = ?P]) (simp add: store_ok_def)
  from all_mapD [OF this] assms(2) show "ws_ID wk = w" "scope (ws_ProjectID wk) (ws_TenantID wk) = sk"
    by (auto simp: ws_row_def)
qed

lemma update_workspace_views:
  assumes "store_ok s" and "ws_row s sk w = Some wk" and "ws_ID wk' = ws_ID wk" "ws_ProjectID wk' = ws_ProjectID wk"
    "ws_TenantID wk' = ws_TenantID wk" and "s' = snd (mem_UpdateWorkspace wk' s)"
  shows "ws_row s' = (ws_row s)(sk := (ws_row s sk)(w \<mapsto> wk'))" and "member_row s' = member_row s"
    and "inv_row s' = inv_row s" and "m_tuples s' = m_tuples s" and "store_ok s'" and "fst (mem_UpdateWorkspace wk' s) = Inr ()"
proof -
  note ids = ws_row_ids [OF assms(1,2)]
  have run: "mem_UpdateWorkspace wk' s = (Inr (), s\<lparr>m_workspaces := put2 sk w wk' (m_workspaces s)\<rparr>)"
    using assms(2) by (simp add: mem_UpdateWorkspace_def assms(3-5) ids ws_row_def Let_def)
  show "store_ok s'" using assms(1,6) by (simp add: store_ok_writes)
  show "ws_row s' = (ws_row s)(sk := (ws_row s sk)(w \<mapsto> wk'))" "member_row s' = member_row s" "inv_row s' = inv_row s"
    "m_tuples s' = m_tuples s" "fst (mem_UpdateWorkspace wk' s) = Inr ()"
    by (simp_all add: assms(6) run ws_row_def member_row_def inv_row_def fun_eq_iff)
qed

lemma members_UpdateWorkspace: "preserves (\<lambda>s. members_ok (s_repo s)) (svc_UpdateWorkspace now p i name)"
  unfolding svc_UpdateWorkspace_def Let_def
proof (intro preserves_writes writes_intros)
  fix r wk
  let ?sk = "scope (p_ProjectID p) (p_TenantID p)"
    and ?r = "snd (mem_UpdateWorkspace (wk\<lparr>ws_DisplayName := trimName name, ws_UpdatedAt := now\<rparr>) r)"
  assume ok: "members_ok r" and "mem_GetWorkspace (p_ProjectID p) (p_TenantID p) i r = Inr wk"
  then have ws: "ws_row r ?sk i = Some wk" by (simp add: GetWorkspace_row split: option.splits)
  note v = update_workspace_views [OF members_okD(5) [OF ok] ws, of "wk\<lparr>ws_DisplayName := trimName name, ws_UpdatedAt := now\<rparr>" ?r, simplified]
  show "members_ok ?r"
  proof (rule members_same [OF ok v(5)])
    show "owner_of ?r = owner_of r" using ws by (auto simp: owner_of_def v fun_eq_iff)
    show "invites_valid ?r" using members_okD(3) [OF ok] by (auto simp: invites_valid_def v)
  qed (use ok in \<open>simp_all add: v tuples_eq [OF v(4)] members_ok_def\<close>)
qed

lemma members_DeleteWorkspace: "preserves (\<lambda>s. members_ok (s_repo s)) (svc_DeleteWorkspace now p i)"
  unfolding svc_DeleteWorkspace_def
proof (intro preserves_writes writes_intros)
  fix r wk
  let ?sk = "scope (p_ProjectID p) (p_TenantID p)"
  let ?r = "snd (mem_DeleteWorkspace (p_ProjectID p) (p_TenantID p) i r)"
  assume ok: "members_ok r" and "mem_GetWorkspace (p_ProjectID p) (p_TenantID p) i r = Inr wk"
  then have ws: "map_of (submap (m_workspaces r) ?sk) i = Some wk" by (simp add: GetWorkspace_row ws_row_def split: option.splits)
  have store: "store_ok r" using members_okD(5) [OF ok] .
  have wft: "wf_map (submap (m_tuples r) sk)" for sk using shard_keys [OF store] by (rule all_map_wf)
  have wfi: "wf_map (submap (m_invitations r) sk)" for sk
    using store by (auto simp: store_ok_def intro: all_map_wf all_map_submap
      [where P = "\<lambda>sk i iv. iv_ID iv = i \<and> scope (iv_ProjectID iv) (iv_TenantID iv) = sk"])
  have rows: "member_row ?r sk w u = (if sk = ?sk \<and> w = i then None else member_row r sk w u)" for sk w u
    using ws by (simp add: mem_DeleteWorkspace_def Let_def member_row_def bump_seq_def submap_map_entry_Nil del: submap_map_entry)
      (simp add: submap_def)
  have wsr: "ws_row ?r sk w = (if sk = ?sk \<and> w = i then None else ws_row r sk w)" for sk w
    using ws by (simp add: mem_DeleteWorkspace_def Let_def ws_row_def bump_seq_def submap_map_entry_Nil del: submap_map_entry)
  have inv: "inv_row ?r sk j = Some iv \<longleftrightarrow> inv_row r sk j = Some iv \<and> \<not> (sk = ?sk \<and> iv_WorkspaceID iv = i)" for sk j iv
    using ws by (auto simp: mem_DeleteWorkspace_def Let_def inv_row_def bump_seq_def submap_map_entry_Nil
        map_of_filter_wf [OF wfi] simp del: submap_map_entry split: option.splits if_splits)
  have tup: "tuple_at ?r sk k = Some t \<longleftrightarrow> tuple_at r sk k = Some t \<and>
      \<not> (sk = ?sk \<and> t_Namespace t = ''workspace'' \<and> t_ObjectID t = i)" for sk k t
    using ws by (auto simp: mem_DeleteWorkspace_def Let_def tuple_at_def bump_seq_def submap_map_entry_Nil
        map_of_filter_wf [OF wft] simp del: submap_map_entry split: option.splits if_splits)
  have hold: "holds ?r sk w u x \<longleftrightarrow> holds r sk w u x \<and> \<not> (sk = ?sk \<and> w = i)" for sk w u x
    by (simp add: holds_def tup) (simp add: userTuple_def)
  have own: "owner_of ?r sk w = (if sk = ?sk \<and> w = i then None else owner_of r sk w)" for sk w
    by (simp add: owner_of_def wsr)
  have "tuples_clean ?r" using ok by (auto simp: tuples_clean_def tup members_ok_def)
  moreover have "roles_agree ?r" using members_okD(4) [OF ok] by (auto simp: roles_agree_def hold active_role_def rows)
  moreover have "rows_valid ?r" using members_okD(1) [OF ok] by (simp add: rows_valid_def rows own)
  moreover have "owners_present ?r" using members_okD(2) [OF ok] by (auto simp: owners_present_def rows own split: if_splits)
  moreover have "invites_valid ?r" using members_okD(3) [OF ok] by (auto simp: invites_valid_def inv wsr)
  moreover have "store_ok ?r" using store by (simp add: store_ok_writes)
  ultimately show "members_ok ?r" by (simp add: members_ok_def)
qed

subsection \<open>Transfer of ownership\<close>

abbreviation promoted :: "principal \<Rightarrow> string \<Rightarrow> string \<Rightarrow> time \<Rightarrow> time \<Rightarrow> membership" where
  "promoted p w u c now \<equiv> \<lparr>mb_ProjectID = p_ProjectID p, mb_TenantID = p_TenantID p, mb_WorkspaceID = w, mb_UserID = u,
     mb_Role = RoleOwner, mb_Status = StatusActive, mb_CreatedAt = c, mb_UpdatedAt = now\<rparr>"

lemma promoteOwner_run:
  fixes p now w u
  defines "sk \<equiv> scope (p_ProjectID p) (p_TenantID p)"
  assumes ok: "roles_ok (s_repo s)" and nonowner: "\<And>m. member_row (s_repo s) sk w u = Some m \<Longrightarrow> mb_Role m \<noteq> RoleOwner"
  obtains r' c where "promoteOwner now p w u s = (Inr (), s\<lparr>s_repo := r'\<rparr>)" and "roles_ok r'"
    and "member_row r' = (member_row (s_repo s))(sk := (member_row (s_repo s) sk)(w := (member_row (s_repo s) sk w)(u \<mapsto> promoted p w u c now)))"
    and "ws_row r' = ws_row (s_repo s)"
proof (cases "member_row (s_repo s) sk w u")
  case None
  let ?r = "snd (mem_PutMembershipAndTuples (promoted p w u now now) (map (role_tuple w u) [RoleOwner]) (map (role_tuple w u) []) (s_repo s))"
  have run: "promoteOwner now p w u s = (Inr (), s\<lparr>s_repo := ?r\<rparr>)"
    using None by (simp add: promoteOwner_def tryR_def repo_read_def repo_write_def GetMembership_row sk_def mem_PutMembershipAndTuples_def)
  have "x \<in> set [RoleOwner] \<or> x \<notin> set [] \<and> active_role (s_repo s) sk w u x \<longleftrightarrow> StatusActive = StatusActive \<and> RoleOwner = x" for x
    using active_role_row(2) [OF None] by auto
  with put_member [OF ok, of "promoted p w u now now" sk w u "[RoleOwner]" "[]" ?r] run that [of ?r now]
  show ?thesis by (simp add: sk_def)
next
  case (Some m)
  let ?r = "snd (mem_PutMembershipAndTuples (promoted p w u (mb_CreatedAt m) now) (map (role_tuple w u) [RoleOwner])
      (map (role_tuple w u) [mb_Role m]) (s_repo s))"
  have run: "promoteOwner now p w u s = (Inr (), s\<lparr>s_repo := ?r\<rparr>)"
    using Some nonowner by (simp add: promoteOwner_def tryR_def repo_read_def repo_write_def GetMembership_row sk_def mem_PutMembershipAndTuples_def)
  have "x \<in> set [RoleOwner] \<or> x \<notin> set [mb_Role m] \<and> active_role (s_repo s) sk w u x \<longleftrightarrow> StatusActive = StatusActive \<and> RoleOwner = x" for x
    using active_role_row(1) [OF Some] by auto
  with put_member [OF ok, of "promoted p w u (mb_CreatedAt m) now" sk w u "[RoleOwner]" "[mb_Role m]" ?r] run that [of ?r "mb_CreatedAt m"]
  show ?thesis by (simp add: sk_def)
qed

lemma demoteOwner_run:
  fixes p now w u
  defines "sk \<equiv> scope (p_ProjectID p) (p_TenantID p)"
  assumes ok: "roles_ok (s_repo s)" and row: "member_row (s_repo s) sk w u = Some m"
    and m: "mb_Role m = RoleOwner" "mb_Status m = StatusActive"
  obtains r' where "demoteOwner now p w u s = (Inr (), s\<lparr>s_repo := r'\<rparr>)" and "roles_ok r'"
    and "member_row r' = (member_row (s_repo s))(sk := (member_row (s_repo s) sk)(w := (member_row (s_repo s) sk w)
           (u \<mapsto> m\<lparr>mb_Role := RoleAdmin, mb_UpdatedAt := now\<rparr>)))"
    and "ws_row r' = ws_row (s_repo s)"
proof -
  let ?m = "m\<lparr>mb_Role := RoleAdmin, mb_UpdatedAt := now\<rparr>"
  let ?r = "snd (mem_PutMembershipAndTuples ?m (map (role_tuple w u) [RoleAdmin]) (map (role_tuple w u) [RoleOwner]) (s_repo s))"
  have run: "demoteOwner now p w u s = (Inr (), s\<lparr>s_repo := ?r\<rparr>)"
    using row by (simp add: demoteOwner_def tryR_def repo_read_def repo_write_def GetMembership_row sk_def mem_PutMembershipAndTuples_def Let_def)
  have ids: "mb_WorkspaceID m = w" "mb_UserID m = u" "scope (mb_ProjectID m) (mb_TenantID m) = sk"
    using member_row_ids [OF _ row] ok by (simp_all add: roles_ok_def)
  have "x \<in> set [RoleAdmin] \<or> x \<notin> set [RoleOwner] \<and> active_role (s_repo s) sk w u x \<longleftrightarrow> mb_Status ?m = StatusActive \<and> mb_Role ?m = x" for x
    using active_role_row(1) [OF row] m by auto
  with put_member [OF ok, of ?m sk w u "[RoleAdmin]" "[RoleOwner]" ?r] run that [of ?r] ids
  show ?thesis by simp
qed

lemma transfer_steps:
  fixes p now w u and s :: service
  defines "sk \<equiv> scope (p_ProjectID p) (p_TenantID p)"
  assumes ok: "members_ok (s_repo s)" and ws: "ws_row (s_repo s) sk w = Some wk" and other: "u \<noteq> ws_OwnerUserID wk"
  obtains r1 r2 r3 c m where
    "promoteOwner now p w u s = (Inr (), s\<lparr>s_repo := r1\<rparr>)"
    and "mem_UpdateWorkspace (wk\<lparr>ws_OwnerUserID := u, ws_UpdatedAt := now\<rparr>) r1 = (Inr (), r2)"
    and "demoteOwner now p w (ws_OwnerUserID wk) (s\<lparr>s_repo := r2\<rparr>) = (Inr (), s\<lparr>s_repo := r3\<rparr>)"
    and "roles_ok r1" "roles_ok r2" "roles_ok r3"
    and "member_row (s_repo s) sk w (ws_OwnerUserID wk) = Some m"
    and "ws_row r3 = (ws_row (s_repo s))(sk := (ws_row (s_repo s) sk)(w \<mapsto> wk\<lparr>ws_OwnerUserID := u, ws_UpdatedAt := now\<rparr>))"
    and "member_row r1 = (member_row (s_repo s))(sk := (member_row (s_repo s) sk)(w := (member_row (s_repo s) sk w)(u \<mapsto> promoted p w u c now)))"
    and "member_row r2 = member_row r1"
    and "member_row r3 = (member_row (s_repo s))(sk := (member_row (s_repo s) sk)(w := (member_row (s_repo s) sk w)
           (u \<mapsto> promoted p w u c now, ws_OwnerUserID wk \<mapsto> m\<lparr>mb_Role := RoleAdmin, mb_UpdatedAt := now\<rparr>)))"
proof -
  let ?w = "wk\<lparr>ws_OwnerUserID := u, ws_UpdatedAt := now\<rparr>"
  have own: "owner_of (s_repo s) sk w = Some (ws_OwnerUserID wk)" using ws by (simp add: owner_of_def)
  obtain m where m: "member_row (s_repo s) sk w (ws_OwnerUserID wk) = Some m" using members_okD(2) [OF ok own] by auto
  have mo: "mb_Role m = RoleOwner" "mb_Status m = StatusActive" using members_okD(1) [OF ok m] own by (auto simp: member_ok_def)
  have "mb_Role m' \<noteq> RoleOwner" if "member_row (s_repo s) sk w u = Some m'" for m'
    using members_okD(1) [OF ok that] own other by (auto simp: member_ok_def)
  then obtain r1 c where r1: "promoteOwner now p w u s = (Inr (), s\<lparr>s_repo := r1\<rparr>)" "roles_ok r1"
    "member_row r1 = (member_row (s_repo s))(sk := (member_row (s_repo s) sk)(w := (member_row (s_repo s) sk w)(u \<mapsto> promoted p w u c now)))"
    "ws_row r1 = ws_row (s_repo s)"
    using promoteOwner_run [of s p w u now] ok unfolding sk_def members_ok_roles by metis
  define r2 where "r2 = snd (mem_UpdateWorkspace ?w r1)"
  have st1: "store_ok r1" using r1(2) by (simp add: roles_ok_def)
  have "ws_row r1 sk w = Some wk" using ws r1(4) by simp
  note v = update_workspace_views [OF st1 this _ _ _ r2_def, simplified]
  have "invites_valid r2" using r1(2) by (auto simp: roles_ok_def invites_valid_def v r1(4))
  then have roles2: "roles_ok r2" using r1(2) v(5)
    by (simp add: roles_ok_def roles_agree_def active_role_def v tuples_eq [OF v(4)])
  have row2: "member_row r2 sk w (ws_OwnerUserID wk) = Some m" using m other by (simp add: v r1(3))
  obtain r3 where r3: "demoteOwner now p w (ws_OwnerUserID wk) (s\<lparr>s_repo := r2\<rparr>) = (Inr (), s\<lparr>s_repo := r3\<rparr>)" "roles_ok r3"
    "member_row r3 = (member_row r2)(sk := (member_row r2 sk)(w := (member_row r2 sk w)
        (ws_OwnerUserID wk \<mapsto> m\<lparr>mb_Role := RoleAdmin, mb_UpdatedAt := now\<rparr>)))" "ws_row r3 = ws_row r2"
    using demoteOwner_run [of "s\<lparr>s_repo := r2\<rparr>" p w "ws_OwnerUserID wk" m now] roles2 row2 mo unfolding sk_def by auto
  have "mem_UpdateWorkspace ?w r1 = (Inr (), r2)" using v(6) by (cases "mem_UpdateWorkspace ?w r1") (simp add: r2_def)
  moreover have "member_row r2 = member_row r1" by (simp add: v)
  moreover have "member_row r3 = (member_row (s_repo s))(sk := (member_row (s_repo s) sk)(w := (member_row (s_repo s) sk w)
           (u \<mapsto> promoted p w u c now, ws_OwnerUserID wk \<mapsto> m\<lparr>mb_Role := RoleAdmin, mb_UpdatedAt := now\<rparr>)))"
    by (simp add: r3(3) v r1(3))
  moreover have "ws_row r3 = (ws_row (s_repo s))(sk := (ws_row (s_repo s) sk)(w \<mapsto> ?w))" using r3(4) v r1(4) by simp
  ultimately show thesis using that r1(1-3) r3(1,2) roles2 m by blast
qed

lemma transfer_run:
  fixes p now w u and s :: service
  defines "sk \<equiv> scope (p_ProjectID p) (p_TenantID p)"
  assumes ok: "members_ok (s_repo s)" and ws: "ws_row (s_repo s) sk w = Some wk" and other: "u \<noteq> ws_OwnerUserID wk"
  obtains r' c m where
    "bindR (promoteOwner now p w u) (\<lambda>_.
       let w' = wk\<lparr>ws_OwnerUserID := u, ws_UpdatedAt := now\<rparr> in
       bindR (repo_write (mem_UpdateWorkspace w')) (\<lambda>_.
       bindR (demoteOwner now p w (ws_OwnerUserID wk)) (\<lambda>_. ret w'))) s =
     (Inr (wk\<lparr>ws_OwnerUserID := u, ws_UpdatedAt := now\<rparr>), s\<lparr>s_repo := r'\<rparr>)"
    and "roles_ok r'" and "ws_row r' = (ws_row (s_repo s))(sk := (ws_row (s_repo s) sk)(w \<mapsto> wk\<lparr>ws_OwnerUserID := u, ws_UpdatedAt := now\<rparr>))"
    and "member_row (s_repo s) sk w (ws_OwnerUserID wk) = Some m"
    and "member_row r' = (member_row (s_repo s))(sk := (member_row (s_repo s) sk)(w := (member_row (s_repo s) sk w)
           (u \<mapsto> promoted p w u c now, ws_OwnerUserID wk \<mapsto> m\<lparr>mb_Role := RoleAdmin, mb_UpdatedAt := now\<rparr>)))"
proof (rule transfer_steps [OF ok ws [unfolded sk_def] other, of now], goal_cases)
  case (1 r1 r2 r3 c m)
  then show thesis by (intro that [of r3 m c]) (simp_all add: sk_def bindR_def repo_write_def Let_def)
qed

lemma transfer_members_ok:
  assumes ok: "members_ok r" and ws: "ws_row r sk w = Some wk" and other: "u \<noteq> ws_OwnerUserID wk"
    and roles: "roles_ok r'" and ws': "ws_row r' = (ws_row r)(sk := (ws_row r sk)(w \<mapsto> wk\<lparr>ws_OwnerUserID := u, ws_UpdatedAt := now\<rparr>))"
    and m: "member_row r sk w (ws_OwnerUserID wk) = Some m"
    and row': "member_row r' = (member_row r)(sk := (member_row r sk)(w := (member_row r sk w)
           (u \<mapsto> promoted p w u c now, ws_OwnerUserID wk \<mapsto> m\<lparr>mb_Role := RoleAdmin, mb_UpdatedAt := now\<rparr>)))"
  shows "members_ok r'"
proof -
  have own: "owner_of r' sk' w' = (if sk' = sk \<and> w' = w then Some u else owner_of r sk' w')" for sk' w'
    by (auto simp: owner_of_def ws')
  have own0: "owner_of r sk w = Some (ws_OwnerUserID wk)" using ws by (simp add: owner_of_def)
  have "member_ok (owner_of r' sk' w') u' m'" if "member_row r' sk' w' u' = Some m'" for sk' w' u' m'
    using that members_okD(1) [OF ok, of sk' w' u' m'] members_okD(1) [OF ok m] own0 other
    by (auto simp: row' own member_ok_def split: if_splits)
  moreover have "member_row r' sk' w' u' \<noteq> None" if "owner_of r' sk' w' = Some u'" for sk' w' u'
    using that members_okD(2) [OF ok, of sk' w' u'] other by (auto simp: row' own split: if_splits)
  ultimately show ?thesis using roles by (simp add: members_ok_roles rows_valid_def owners_present_def)
qed

lemma members_TransferOwnership: "preserves (\<lambda>s. members_ok (s_repo s)) (svc_TransferOwnership now p w u)"
  unfolding svc_TransferOwnership_def
proof (intro preserves_writes writes_if writes_ret writes_requireWorkspace writes_guards)
  fix r wk
  assume ok: "members_ok r" and "mem_GetWorkspace (p_ProjectID p) (p_TenantID p) w r = Inr wk" and other: "u \<noteq> ws_OwnerUserID wk"
  then have ws: "ws_row r (scope (p_ProjectID p) (p_TenantID p)) w = Some wk" by (simp add: GetWorkspace_row split: option.splits)
  show "writes r members_ok (bindR (promoteOwner now p w u) (\<lambda>_. let w' = wk\<lparr>ws_OwnerUserID := u, ws_UpdatedAt := now\<rparr> in
       bindR (repo_write (mem_UpdateWorkspace w')) (\<lambda>_. bindR (demoteOwner now p w (ws_OwnerUserID wk)) (\<lambda>_. ret w'))))"
    unfolding writes_def
  proof (intro allI impI disjI2)
    fix s :: service
    assume s: "s_repo s = r"
    show "members_ok (s_repo (snd (bindR (promoteOwner now p w u) (\<lambda>_. let w' = wk\<lparr>ws_OwnerUserID := u, ws_UpdatedAt := now\<rparr> in
       bindR (repo_write (mem_UpdateWorkspace w')) (\<lambda>_. bindR (demoteOwner now p w (ws_OwnerUserID wk)) (\<lambda>_. ret w'))) s)))"
    proof (rule transfer_run [of s p w wk u now])
      fix r' c m
      assume run: "bindR (promoteOwner now p w u) (\<lambda>_. let w' = wk\<lparr>ws_OwnerUserID := u, ws_UpdatedAt := now\<rparr> in
        bindR (repo_write (mem_UpdateWorkspace w')) (\<lambda>_. bindR (demoteOwner now p w (ws_OwnerUserID wk)) (\<lambda>_. ret w'))) s =
        (Inr (wk\<lparr>ws_OwnerUserID := u, ws_UpdatedAt := now\<rparr>), s\<lparr>s_repo := r'\<rparr>)"
        and eff: "roles_ok r'" "ws_row r' = (ws_row (s_repo s))(scope (p_ProjectID p) (p_TenantID p) :=
            (ws_row (s_repo s) (scope (p_ProjectID p) (p_TenantID p)))(w \<mapsto> wk\<lparr>ws_OwnerUserID := u, ws_UpdatedAt := now\<rparr>))"
          "member_row (s_repo s) (scope (p_ProjectID p) (p_TenantID p)) w (ws_OwnerUserID wk) = Some m"
          "member_row r' = (member_row (s_repo s))(scope (p_ProjectID p) (p_TenantID p) :=
            (member_row (s_repo s) (scope (p_ProjectID p) (p_TenantID p)))(w := (member_row (s_repo s) (scope (p_ProjectID p) (p_TenantID p)) w)
             (u \<mapsto> promoted p w u c now, ws_OwnerUserID wk \<mapsto> m\<lparr>mb_Role := RoleAdmin, mb_UpdatedAt := now\<rparr>)))"
      from transfer_members_ok [OF ok ws other eff [unfolded s]] run show ?thesis by simp
    qed (use s ok ws other in simp_all)
  qed
qed

subsection \<open>Invitations\<close>

lemma inv_row_token:
  assumes "store_ok s" and "mem_GetInvitationByTokenHash p t h s = Inr iv"
  shows "inv_row s (scope p t) (iv_ID iv) = Some iv" and "scope (iv_ProjectID iv) (iv_TenantID iv) = scope p t"
proof -
  let ?P = "\<lambda>sk i iv. iv_ID iv = i \<and> scope (iv_ProjectID iv) (iv_TenantID iv) = sk"
  have all: "all_map (?P (scope p t)) (submap (m_invitations s) (scope p t))"
    using assms(1) by (intro all_map_submap [where P = ?P]) (simp add: store_ok_def)
  obtain k where "(k, iv) \<in> set (submap (m_invitations s) (scope p t))"
    using assms(2) by (auto simp: mem_GetInvitationByTokenHash_def split: option.splits prod.splits dest!: find_SomeD)
  then have "map_of (submap (m_invitations s) (scope p t)) k = Some iv"
    using wf_map_mem_iff [OF all_map_wf [OF all]] by simp
  with all_mapD [OF all this] show "inv_row s (scope p t) (iv_ID iv) = Some iv" "scope (iv_ProjectID iv) (iv_TenantID iv) = scope p t"
    by (auto simp: inv_row_def)
qed

lemma inv_row_ids:
  assumes "store_ok s" and "inv_row s sk i = Some iv"
  shows "iv_ID iv = i" "scope (iv_ProjectID iv) (iv_TenantID iv) = sk"
proof -
  let ?P = "\<lambda>sk i iv. iv_ID iv = i \<and> scope (iv_ProjectID iv) (iv_TenantID iv) = sk"
  have "all_map (?P sk) (submap (m_invitations s) sk)"
    using assms(1) by (intro all_map_submap [where P = ?P]) (simp add: store_ok_def)
  from all_mapD [OF this] assms(2) show "iv_ID iv = i" "scope (iv_ProjectID iv) (iv_TenantID iv) = sk"
    by (auto simp: inv_row_def)
qed

lemma members_invite:
  assumes ok: "members_ok s" and iv: "ws_row s (scope (iv_ProjectID iv) (iv_TenantID iv)) (iv_WorkspaceID iv) \<noteq> None"
      "Role_Valid (iv_Role iv)" "iv_Role iv \<noteq> RoleOwner"
    and s': "s' = snd (mem_CreateInvitation iv s) \<or> s' = snd (mem_UpdateInvitation iv s)"
  shows "members_ok s'"
proof -
  have eff: "s' = s \<or> s' = s\<lparr>m_invitations := put2 (scope (iv_ProjectID iv) (iv_TenantID iv)) (iv_ID iv) iv (m_invitations s)\<rparr>"
    using s' by (auto simp: mem_CreateInvitation_def mem_UpdateInvitation_def Let_def split: if_splits)
  then have same: "member_row s' = member_row s" "ws_row s' = ws_row s" "m_tuples s' = m_tuples s"
    by (auto simp: member_row_def ws_row_def fun_eq_iff)
  show ?thesis
  proof (rule members_same [OF ok])
    show "store_ok s'" using s' members_okD(5) [OF ok] by (auto simp: store_ok_writes)
    show "owner_of s' = owner_of s" by (simp add: owner_of_def same fun_eq_iff)
    show "invites_valid s'" using eff iv members_okD(3) [OF ok]
      by (auto simp: invites_valid_def same(2)) (auto simp: inv_row_def split: if_splits)
  qed (use ok in \<open>simp_all add: same tuples_eq [OF same(3)] members_ok_def\<close>)
qed

lemma members_CreateInvitation: "preserves (\<lambda>s. members_ok (s_repo s)) (svc_CreateInvitation now i token p w email role)"
  unfolding svc_CreateInvitation_def Let_def
proof (intro preserves_writes writes_intros)
  fix r wk
  let ?iv = "\<lparr>iv_ID = i, iv_ProjectID = p_ProjectID p, iv_TenantID = p_TenantID p, iv_WorkspaceID = w,
      iv_Email = trimName email, iv_Role = role, iv_Status = InvitePending, iv_InvitedBy = p_UserID p,
      iv_TokenHash = hashToken token, iv_CreatedAt = now, iv_ExpiresAt = now + InvitationTTL\<rparr>"
  assume "members_ok r" "mem_GetWorkspace (p_ProjectID p) (p_TenantID p) w r = Inr wk" "\<not> (\<not> Role_Valid role \<or> role = RoleOwner)"
  then show "members_ok (snd (mem_CreateInvitation ?iv r))"
    using members_invite [of r ?iv] by (simp add: GetWorkspace_row split: option.splits)
qed

lemma members_RevokeInvitation: "preserves (\<lambda>s. members_ok (s_repo s)) (svc_RevokeInvitation now p i)"
  unfolding svc_RevokeInvitation_def
proof (intro preserves_writes writes_intros)
  fix r iv wk
  assume ok: "members_ok r" and iv: "mem_GetInvitation (p_ProjectID p) (p_TenantID p) i r = Inr iv"
  then have row: "inv_row r (scope (p_ProjectID p) (p_TenantID p)) i = Some iv"
    by (simp add: mem_GetInvitation_def inv_row_def split: option.splits)
  from members_okD(3) [OF ok row] inv_row_ids [OF members_okD(5) [OF ok] row]
  show "members_ok (snd (mem_UpdateInvitation (iv\<lparr>iv_Status := InviteRevoked\<rparr>) r))"
    by (intro members_invite [OF ok, where iv = "iv\<lparr>iv_Status := InviteRevoked\<rparr>"]) auto
qed

lemma writes_try_write: "E (snd (f r)) \<Longrightarrow> writes r E (tryR (repo_write f) (\<lambda>_. fail e))"
  by (auto simp: writes_def tryR_def repo_write_def split: prod.split)

lemma writes_seq:
  assumes "writes r F m" and "\<And>x. writes r E (f x)" and "\<And>x r'. F r' \<Longrightarrow> E r' \<and> writes r' E (f x)"
  shows "writes r E (bindR m f)"
  unfolding writes_def
proof (intro allI impI)
  fix s :: service
  assume s: "s_repo s = r"
  obtain y s1 where m: "m s = (y, s1)" by force
  with assms(1) s have s1: "s_repo s1 = r \<or> F (s_repo s1)" by (auto simp: writes_def)
  show "s_repo (snd (bindR m f s)) = r \<or> E (s_repo (snd (bindR m f s)))"
  proof (cases y)
    case (Inl e)
    with m s1 assms(3) show ?thesis by (auto simp: bindR_def)
  next
    case (Inr x)
    from s1 show ?thesis
    proof
      assume "s_repo s1 = r"
      with m Inr assms(2) [of x] show ?thesis by (simp add: bindR_def writes_def)
    next
      assume "F (s_repo s1)"
      with assms(3) [of "s_repo s1" x] m Inr show ?thesis by (auto simp: bindR_def writes_def)
    qed
  qed
qed

lemma members_AcceptInvitation: "preserves (\<lambda>s. members_ok (s_repo s)) (svc_AcceptInvitation now p token)"
  unfolding svc_AcceptInvitation_def
proof (intro preserves_writes writes_if writes_ret writes_read writes_try_read writes_try_write writes_sum writes_repo_write_ret)
  fix r iv
  let ?sk = "scope (p_ProjectID p) (p_TenantID p)"
  assume ok: "members_ok r" and read: "mem_GetInvitationByTokenHash (p_ProjectID p) (p_TenantID p) (hashToken token) r = Inr iv"
  note row = inv_row_token [OF members_okD(5) [OF ok] read]
  note iv = members_okD(3) [OF ok row(1)]
  have upd: "members_ok (snd (mem_UpdateInvitation (iv\<lparr>iv_Status := st\<rparr>) r'))" if "members_ok r'" "ws_row r' = ws_row r" for st r'
    using members_invite [OF that(1), where iv = "iv\<lparr>iv_Status := st\<rparr>"] iv row(2) that(2) by auto
  show "members_ok (snd (mem_UpdateInvitation (iv\<lparr>iv_Status := InviteExpired\<rparr>) r))"
    "members_ok (snd (mem_UpdateInvitation (iv\<lparr>iv_Status := InviteAccepted\<rparr>) r))"
    using upd [OF ok] by simp_all
  fix err
  assume none: "mem_GetMembership (p_ProjectID p) (p_TenantID p) (iv_WorkspaceID iv) (p_UserID p) r = Inl err"
  obtain wk where ws: "ws_row r ?sk (iv_WorkspaceID iv) = Some wk" using iv by auto
  have "writes r (\<lambda>r'. members_ok r' \<and> ws_row r' = ws_row r) (putMember now p (iv_WorkspaceID iv) (p_UserID p) (iv_Role iv))"
    unfolding putMember_def Let_def using none iv
    by (intro writes_intros conjI members_add [OF ok ws])
      (auto simp: GetMembership_row mem_PutMembershipAndTuples_def putMembershipLocked_def ws_row_def fun_eq_iff split: option.splits)
  then show "writes r members_ok (bindR (putMember now p (iv_WorkspaceID iv) (p_UserID p) (iv_Role iv)) (\<lambda>m.
      bindR (repo_write (mem_UpdateInvitation (iv\<lparr>iv_Status := InviteAccepted\<rparr>))) (\<lambda>_. ret m)))"
    by (rule writes_seq) (auto intro!: writes_repo_write_ret upd ok)
qed

subsection \<open>Everything else leaves the members alone\<close>

lemma members_fields:
  assumes ok: "members_ok s" and store: "store_ok s'" and "m_memberships s' = m_memberships s" "m_workspaces s' = m_workspaces s"
    "m_invitations s' = m_invitations s" "holds s' = holds s" "tuples_clean s'"
  shows "members_ok s'"
proof (rule members_same [OF ok store])
  have ws: "ws_row s' = ws_row s" using assms(4) by (simp add: ws_row_def fun_eq_iff)
  then show "owner_of s' = owner_of s" by (simp add: owner_of_def fun_eq_iff)
  show "invites_valid s'" using members_okD(3) [OF ok] assms(5) ws by (simp add: invites_valid_def inv_row_def)
qed (use assms in \<open>simp_all add: member_row_def fun_eq_iff\<close>)

lemma fields_writeTuplesLocked [simp]:
  "m_memberships (writeTuplesLocked p t ins del s) = m_memberships s"
  "m_workspaces (writeTuplesLocked p t ins del s) = m_workspaces s"
  "m_invitations (writeTuplesLocked p t ins del s) = m_invitations s"
  by (simp_all add: writeTuplesLocked_def bump_seq_def Let_def)

lemma holds_write_other:
  assumes "list_all (\<lambda>t. t_Namespace t \<noteq> ''workspace'') (ins @ del)" and "m_tuples s0 = m_tuples s"
  shows "holds (writeTuplesLocked p t ins del s0) = holds s"
proof -
  have "find (\<lambda>t. tupleKey t = tupleKey (role_tuple w u r)) (rev ins) = None" for w u r
    using assms(1) by (auto simp: find_None_iff list_all_iff dest: tupleKey_namespace)
  moreover have "tupleKey (role_tuple w u r) \<notin> tupleKey ` set del" for w u r
    using assms(1) by (auto simp: list_all_iff dest!: tupleKey_namespace)
  ultimately show ?thesis
    by (simp add: holds_def tuple_at_writeTuplesLocked tuples_eq(1) [OF assms(2)] fun_eq_iff)
qed

lemma members_write:
  assumes "members_ok s" and "list_all (\<lambda>t. t_Namespace t \<noteq> ''workspace'') (ins @ del)"
    and "m_tuples s0 = m_tuples s" "m_memberships s0 = m_memberships s" "m_workspaces s0 = m_workspaces s"
      "m_invitations s0 = m_invitations s" "store_ok (writeTuplesLocked p t ins del s0)"
  shows "members_ok (writeTuplesLocked p t ins del s0)"
  using assms
  by (intro members_fields [OF assms(1,7)] clean_write)
    (auto simp: holds_write_other tuples_eq(3) [OF assms(3)] members_ok_def list_all_iff)

lemma members_unchanged:
  assumes "members_ok s" and "store_ok s'" "m_tuples s' = m_tuples s" "m_memberships s' = m_memberships s"
    "m_workspaces s' = m_workspaces s" "m_invitations s' = m_invitations s"
  shows "members_ok s'"
  using assms by (intro members_fields [OF assms(1,2)]) (simp_all add: tuples_eq [OF assms(3)] members_ok_def)

lemma members_rows:
  assumes "members_ok s"
  shows "members_ok (snd (mem_CreateProject pr s))" "members_ok (snd (mem_UpdateProject pr s))"
    "members_ok (snd (mem_CreateGroup g s))" "members_ok (snd (mem_SetSeatLimit p t sku l s))"
proof -
  note st = members_okD(5) [OF assms]
  show "members_ok (snd (mem_CreateProject pr s))"
    by (rule members_unchanged [OF assms]) (simp_all add: store_ok_writes st, simp_all add: mem_CreateProject_def)
  show "members_ok (snd (mem_UpdateProject pr s))"
    by (rule members_unchanged [OF assms]) (simp_all add: store_ok_writes st, simp_all add: mem_UpdateProject_def)
  show "members_ok (snd (mem_CreateGroup g s))"
    by (rule members_unchanged [OF assms]) (simp_all add: store_ok_writes st, simp_all add: mem_CreateGroup_def Let_def)
  show "members_ok (snd (mem_SetSeatLimit p t sku l s))"
    by (rule members_unchanged [OF assms]) (simp_all add: store_ok_writes st, simp_all add: mem_SetSeatLimit_def Let_def split: option.split)
qed

lemma members_DeleteGroup:
  assumes ok: "members_ok s"
  shows "members_ok (snd (mem_DeleteGroup p t i s))"
proof (cases "map_of (submap (m_groups s) (scope p t)) i")
  case None
  with ok show ?thesis by (simp add: mem_DeleteGroup_def Let_def)
next
  case (Some g)
  let ?s = "snd (mem_DeleteGroup p t i s)"
  have store: "store_ok s" using members_okD(5) [OF ok] .
  have wf: "wf_map (submap (m_tuples s) sk)" for sk using shard_keys [OF store] by (rule all_map_wf)
  have tup: "tuple_at ?s sk k = Some tu \<longleftrightarrow> tuple_at s sk k = Some tu \<and>
      \<not> (sk = scope p t \<and> t_Namespace tu = ''group'' \<and> t_ObjectID tu = i)" for sk k tu
    using Some by (auto simp: mem_DeleteGroup_def Let_def tuple_at_def bump_seq_def submap_map_entry_Nil
        map_of_filter_wf [OF wf] simp del: submap_map_entry split: option.splits if_splits)
  show ?thesis
  proof (rule members_fields [OF ok])
    show "holds ?s = holds s" by (simp add: holds_def tup fun_eq_iff)
    show "tuples_clean ?s" using ok by (auto simp: tuples_clean_def tup members_ok_def)
  qed (use Some store in \<open>simp_all add: store_ok_writes, simp_all add: mem_DeleteGroup_def Let_def bump_seq_def\<close>)
qed

lemma AssignSeat_shape:
  "\<exists>x. snd (mem_AssignSeatAndTuple a tu s) = s\<lparr>m_seatAssigns := x\<rparr> \<or>
     snd (mem_AssignSeatAndTuple a tu s) = writeTuplesLocked (sa_ProjectID a) (sa_TenantID a) [tu] [] (s\<lparr>m_seatAssigns := x\<rparr>)"
  unfolding mem_AssignSeatAndTuple_def Let_def by (auto split: prod.split)

lemma members_tuple_writes:
  assumes ok: "members_ok s"
  shows "list_all (\<lambda>t. t_Namespace t \<noteq> ''workspace'') (ins @ del) \<Longrightarrow> members_ok (snd (mem_WriteTuples p t ins del s))"
    and "list_all (\<lambda>t. t_Namespace t \<noteq> ''workspace'') (ins @ del) \<Longrightarrow> members_ok (snd (mem_SetEnrollmentAndTuples e ins del s))"
    and "members_ok (snd (mem_AssignSeatAndTuple a (seatTuple (sa_SKU a) (sa_UserID a)) s))"
    and "members_ok (snd (mem_RevokeSeatAndTuple p t sku u (seatTuple sku u) s))"
proof -
  note st = members_okD(5) [OF ok]
  show "members_ok (snd (mem_WriteTuples p t ins del s))" if "list_all (\<lambda>t. t_Namespace t \<noteq> ''workspace'') (ins @ del)"
    unfolding mem_WriteTuples_def snd_conv by (rule members_write [OF ok that]) (simp_all add: store_ok_writeTuplesLocked st)
  show "members_ok (snd (mem_SetEnrollmentAndTuples e ins del s))" if "list_all (\<lambda>t. t_Namespace t \<noteq> ''workspace'') (ins @ del)"
    using store_ok_enrollments [OF st, of e ins del] unfolding mem_SetEnrollmentAndTuples_def snd_conv
    by (intro members_write [OF ok that]) simp_all
  show "members_ok (snd (mem_RevokeSeatAndTuple p t sku u (seatTuple sku u) s))"
    using store_ok_seats(3) [OF st, of p t sku u "seatTuple sku u"] unfolding mem_RevokeSeatAndTuple_def snd_conv
    by (intro members_write [OF ok]) simp_all
  show "members_ok (snd (mem_AssignSeatAndTuple a (seatTuple (sa_SKU a) (sa_UserID a)) s))"
    using store_ok_seats(2) [OF st, of a "seatTuple (sa_SKU a) (sa_UserID a)"] AssignSeat_shape [of a "seatTuple (sa_SKU a) (sa_UserID a)" s]
    by (elim exE disjE; simp) (rule members_unchanged [OF ok] members_write [OF ok]; simp)+
qed

subsection \<open>Every typed operation keeps the members in order\<close>

lemma members_projects:
  "preserves (\<lambda>s. members_ok (s_repo s)) (svc_CreateProject now i name model region mx)"
  "preserves (\<lambda>s. members_ok (s_repo s)) (svc_UpdateProject now i name status model region clearRegion mx clearBudget)"
  unfolding svc_CreateProject_def svc_UpdateProject_def Let_def
  by (intro preserve preserves_bindR_lift preserves_repo_write members_rows keeps_preserves [OF keeps_invalidate]
      keeps_preserves [OF keeps_LogAdminMutation]; assumption)+

interpretation members: svc_invariant "\<lambda>s. members_ok (s_repo s)" "\<lambda>t. t_Namespace t \<noteq> ''workspace''" False "\<lambda>_. True"
  by unfold_locales
    (rule members_projects keeps_preserves [OF keeps_resolve] members_createWorkspaceWithOwner members_UpdateWorkspace
      members_DeleteWorkspace members_AddMember members_UpdateMemberRole members_RemoveMember members_SuspendMember
      members_ReinstateMember members_TransferOwnership members_CreateInvitation members_AcceptInvitation
      members_RevokeInvitation |
     (rule preserves_repo_write; auto intro!: members_rows members_tuple_writes members_DeleteGroup simp: list_all_iff) |
     simp)+

lemma members_ok_New: "members_ok mem_New"
  by (simp add: members_ok_def tuples_clean_def roles_agree_def rows_valid_def owners_present_def invites_valid_def
      active_role_def holds_def member_row_def owner_of_def ws_row_def inv_row_def tuple_at_def) (simp add: mem_New_def)

text \<open>The calls that stay clear of the workspace namespace.\<close>

abbreviation typed_only :: "call \<Rightarrow> bool" where
  "typed_only \<equiv> call_ok (\<lambda>t. t_Namespace t \<noteq> ''workspace'') False (\<lambda>_. True)"

lemma reachable_members: "svc_reachable typed_only s \<Longrightarrow> members_ok (s_repo s)"
  by (erule members.reachable_keeps) (simp_all add: svc_init_def members_ok_New)

end
