(* ===== verification/Service_Access.thy ===== *)
theory Service_Access
  imports Service_Members
begin

section \<open>Access to a workspace is what the membership table says\<close>

text \<open>
  The product surface asks the engine (\<^const>\<open>allowed\<close>); the engine reads tuples. With the invariant of
  the members, the answer is a lookup in the membership table, for every project that does not
  redefine the workspace namespace: an active membership of at least the asked role.
\<close>

definition role_order :: "string list" where
  "role_order = [RoleGuest, RoleMember, RoleAdmin, RoleOwner]"

definition roles_from :: "string \<Rightarrow> string list" where
  "roles_from rel = dropWhile (\<lambda>r. r \<noteq> rel) role_order"

lemmas roles_from_defs = roles_from_def role_order_def role_defs

lemma default_roles:
  "rewrite_of DefaultModel ''workspace'' RoleOwner = this_rw"
  "rewrite_of DefaultModel ''workspace'' RoleAdmin = union_rw [this_rw, computed_rw RoleOwner]"
  "rewrite_of DefaultModel ''workspace'' RoleMember = union_rw [this_rw, computed_rw RoleAdmin]"
  "rewrite_of DefaultModel ''workspace'' RoleGuest = union_rw [this_rw, computed_rw RoleMember]"
  by (simp_all add: rewrite_of_def DefaultModel_def role_defs)

lemma roles_from_simps:
  "roles_from RoleOwner = [RoleOwner]" "roles_from RoleAdmin = [RoleAdmin, RoleOwner]"
  "roles_from RoleMember = [RoleMember, RoleAdmin, RoleOwner]"
  "roles_from RoleGuest = [RoleGuest, RoleMember, RoleAdmin, RoleOwner]"
  by (simp_all add: roles_from_defs)

lemma role_names: "RoleOwner \<noteq> []" "RoleAdmin \<noteq> []" "RoleMember \<noteq> []"
  by (simp_all add: role_defs)

lemma role_chain_default:
  assumes "map_of m ''workspace'' = map_of DefaultModel ''workspace''" and "Role_Valid rel"
  shows "role_chain m ''workspace'' (roles_from rel)" and "hd (roles_from rel) = rel" and "distinct (roles_from rel)"
    and "length (roles_from rel) \<le> 4"
proof -
  have eq: "rewrite_of m ''workspace'' r = rewrite_of DefaultModel ''workspace'' r" for r
    unfolding rewrite_of_def assms(1) ..
  from assms(2) show "role_chain m ''workspace'' (roles_from rel)"
    by (auto simp: Role_Valid_def roles_from_simps eq default_roles role_names)
  from assms(2) show "hd (roles_from rel) = rel" "distinct (roles_from rel)" "length (roles_from rel) \<le> 4"
    by (auto simp: Role_Valid_def roles_from_defs)
qed

lemma stored_tuple_at: "stored s p t (ident_of tu) = tuple_at s (scope p t) (tupleKey tu)"
  by (simp add: stored_def tuple_at_def tupleKey_ident)

lemma role_subjects:
  assumes ok: "members_ok r"
  obtains ss where "mem_ListSubjects now r p t ''workspace'' w rel = Inr ss" and "\<forall>s\<in>set ss. plain_user s"
    and "UserID ` set ss = {u. active_role r (scope p t) w u rel}"
proof -
  obtain ss where ss: "mem_ListSubjects now r p t ''workspace'' w rel = Inr ss"
    "set ss = {t_Subject tu | tu. tuple_at r (scope p t) (tupleKey tu) = Some tu \<and> t_Namespace tu = ''workspace'' \<and>
                  t_ObjectID tu = w \<and> t_Relation tu = rel \<and> ActiveAt tu now}"
    using memrepo.subjects_lookup [OF members_okD(5) [OF ok], of now p t "''workspace''" w rel]
    unfolding stored_tuple_at by blast
  have shape: "\<exists>u. tu = role_tuple w u rel \<and> active_role r (scope p t) w u rel"
    if "tuple_at r (scope p t) (tupleKey tu) = Some tu" "t_Namespace tu = ''workspace''" "t_ObjectID tu = w" "t_Relation tu = rel" for tu
  proof -
    from that(1,2) ok obtain w' u r' where "tu = role_tuple w' u r'" unfolding members_ok_def tuples_clean_def by metis
    with that have "tu = role_tuple w u rel" by (auto simp: userTuple_def)
    with that(1) members_okD(4) [OF ok] show ?thesis by (auto simp: holds_def)
  qed
  have elem: "\<exists>u. x = t_Subject (role_tuple w u rel) \<and> active_role r (scope p t) w u rel" if "x \<in> set ss" for x
  proof -
    from that obtain tu where tu: "x = t_Subject tu" "tuple_at r (scope p t) (tupleKey tu) = Some tu"
      "t_Namespace tu = ''workspace''" "t_ObjectID tu = w" "t_Relation tu = rel" unfolding ss(2) by auto
    from shape [OF tu(2-5)] tu(1) show ?thesis by auto
  qed
  have plain: "\<forall>s\<in>set ss. plain_user s"
    using elem by (force simp: plain_user_def userTuple_def)
  have "u \<in> UserID ` set ss \<longleftrightarrow> active_role r (scope p t) w u rel" for u
  proof
    assume "u \<in> UserID ` set ss"
    then obtain x where x: "x \<in> set ss" "u = UserID x" by auto
    with elem [OF x(1)] show "active_role r (scope p t) w u rel" by (auto simp: userTuple_def)
  next
    assume "active_role r (scope p t) w u rel"
    then have "tuple_at r (scope p t) (tupleKey (role_tuple w u rel)) = Some (role_tuple w u rel)"
      using members_okD(4) [OF ok] by (simp add: holds_def)
    then have "t_Subject (role_tuple w u rel) \<in> set ss"
      unfolding ss(2) by (intro CollectI exI [of _ "role_tuple w u rel"]) (simp add: userTuple_def ActiveAt_def)
    then show "u \<in> UserID ` set ss" by (force simp: userTuple_def)
  qed
  with that [OF ss(1) plain] show thesis by blast
qed

text \<open>The model a project without its own workspace namespace resolves to.\<close>

definition workspace_default :: "store \<Rightarrow> string \<Rightarrow> bool" where
  "workspace_default r i \<longleftrightarrow>
     (case map_of (m_projects r) i of None \<Rightarrow> True | Some pr \<Rightarrow> ''workspace'' \<notin> fst ` set (pr_Model pr))"

lemma map_of_foldl_pairs:
  "k \<notin> fst ` set xs \<Longrightarrow> map_of (foldl (\<lambda>m (ns, rels). AList.update ns rels m) m xs) k = map_of m k"
  by (induction xs arbitrary: m) (auto simp: image_iff)

lemma resolve_settings:
  assumes "cache_current s"
  shows "\<exists>e tm. fst (resolve now i s) = Inr e \<and> resolver_load tm i (s_repo s) = Inr e \<and> now - rs_at e \<le> mr_ttl (s_resolver s)"
proof -
  have load: "\<exists>e. resolver_load tm i (s_repo s) = Inr e" for tm
    by (auto simp: resolver_load_def mem_GetProject_def errors_Is_def split: option.split)
  show ?thesis
  proof (cases rule: resolve_cases [of s i now])
    case (Hit e)
    with assms have "resolver_load (rs_at e) i (s_repo s) = Inr e"
      by (auto simp: cache_current_def dest: all_mapD)
    with Hit show ?thesis by auto
  next
    case (Load r e)
    with assms resolver_load_at [OF Load(2)] show ?thesis by (auto simp: cache_current_def)
  next
    case (Error r err)
    with load [of now] show ?thesis by simp
  qed
qed

lemma ModelFor_default:
  assumes "cache_current s" and "workspace_default (s_repo s) i"
  obtains m where "fst (ModelFor now i s) = Inr m" and "map_of m ''workspace'' = map_of DefaultModel ''workspace''"
proof -
  obtain e t where e: "fst (resolve now i s) = Inr e" "resolver_load t i (s_repo s) = Inr e"
    using resolve_settings [OF assms(1)] by blast
  have "fst (ModelFor now i s) = Inr (modelOrDefault e)"
    using e(1) by (cases "resolve now i s") (simp add: ModelFor_def bindR_def)
  moreover have "map_of (modelOrDefault e) ''workspace'' = map_of DefaultModel ''workspace''"
    using e(2) assms(2)
    by (auto simp: resolver_load_def mem_GetProject_def modelOrDefault_def workspace_default_def map_of_foldl_pairs
        split: option.splits if_splits)
  ultimately show thesis using that by blast
qed

lemma allowed_membership:
  assumes ok: "members_ok (s_repo s)" and cache: "cache_current s" and default: "workspace_default (s_repo s) (p_ProjectID p)"
    and budget: "s_maxCheckReads s \<le> 0 \<or> 4 \<le> s_maxCheckReads s" and rel: "Role_Valid rel" and user: "p_UserID p \<noteq> []"
  shows "fst (allowed now p w rel s) =
    Inr (\<exists>r\<in>set (roles_from rel). active_role (s_repo s) (scope (p_ProjectID p) (p_TenantID p)) w (p_UserID p) r)"
proof -
  let ?e = "svc_engine now s" and ?q = "\<lparr>q_user = p_UserID p, q_set = None\<rparr>"
  obtain m where m: "fst (ModelFor now (p_ProjectID p) s) = Inr m" "map_of m ''workspace'' = map_of DefaultModel ''workspace''"
    using ModelFor_default [OF cache default] .
  have eng: "reader ?e = mem_ListSubjects now (s_repo s)" "resolver ?e (p_ProjectID p) = Inr m" "maxDepth ?e = 32"
    "e_maxReads ?e = (if s_maxCheckReads s > 0 then s_maxCheckReads s else 0)"
    using m(1) by (simp_all add: svc_engine_def WithMaxListObjects_def WithMaxReads_def NewEngine_def maxRecursionDepth_def)
  have "\<forall>r. \<exists>ss. reader ?e (p_ProjectID p) (p_TenantID p) ''workspace'' w r = Inr ss \<and> (\<forall>s\<in>set ss. plain_user s) \<and>
      UserID ` set ss = {u. active_role (s_repo s) (scope (p_ProjectID p) (p_TenantID p)) w u r}"
    unfolding eng(1) by (intro allI) (metis role_subjects [OF ok])
  then obtain ss where ss: "\<And>r. reader ?e (p_ProjectID p) (p_TenantID p) ''workspace'' w r = Inr (ss r) \<and> (\<forall>s\<in>set (ss r). plain_user s)"
    "\<And>r. UserID ` set (ss r) = {u. active_role (s_repo s) (scope (p_ProjectID p) (p_TenantID p)) w u r}" by metis
  note chain = role_chain_default [OF m(2) rel]
  have "fst (check ?e m (p_ProjectID p) (p_TenantID p) ?q [] 0 ''workspace'' w (hd (roles_from rel)) False
      (newEvalState None (effectiveMaxReads ?e 0))) =
      Inr (q_user ?q \<noteq> [] \<and> (\<exists>r\<in>set (roles_from rel). q_user ?q \<in> UserID ` set (ss r)))"
    using chain(4) budget
    by (intro check_chain [OF chain(1,3) ss(1)]) (auto simp: newEvalState_def effectiveMaxReads_def eng)
  with user have "fst (check ?e m (p_ProjectID p) (p_TenantID p) ?q [] 0 ''workspace'' w rel False
      (newEvalState None (effectiveMaxReads ?e 0))) =
      Inr (\<exists>r\<in>set (roles_from rel). active_role (s_repo s) (scope (p_ProjectID p) (p_TenantID p)) w (p_UserID p) r)"
    by (simp add: chain(2) ss(2))
  then show ?thesis
    by (auto simp: allowed_def Check_def eng CheckWithModel_def mapBudgetErr_def split: prod.split)
qed

end
