(* ===== verification/Service_Props.thy ===== *)
theory Service_Props
  imports Service_Access
begin

section \<open>Properties of workspaces, members and seats\<close>

text \<open>
  The statements are over the methods of the service and the reads of the repository; the invariants
  behind them are proved in \<^verbatim>\<open>Service_Laws\<close>, \<^verbatim>\<open>Service_Seats\<close>, \<^verbatim>\<open>Service_Resolver\<close> and \<^verbatim>\<open>Service_Members\<close>.
\<close>

subsection \<open>Settings never change\<close>

definition settings :: "service \<Rightarrow> int \<times> int \<times> int \<times> string \<times> int \<times> int" where
  "settings s = (s_maxListObjects s, s_maxExpandNodes s, s_maxCheckReads s, s_dataRegion s,
     mr_ttl (s_resolver s), mr_max (s_resolver s))"

lemma settings_resolve: "settings (snd (resolve now i s)) = settings s"
proof (cases rule: resolve_cases [of s i now])
  case (Load r e)
  then show ?thesis by (auto simp: settings_def resolver_store_def evictLocked_def Let_def)
qed (auto simp: settings_def)

lemma settings_write: "preserves (\<lambda>s. settings s = c) (repo_write f)"
  by (simp add: preserves_def repo_write_def settings_def split: prod.split)

lemma settings_admin:
  "preserves (\<lambda>s. settings s = c) (invalidate i)" "preserves (\<lambda>s. settings s = c) (LogAdminMutation rec)"
  by (simp_all add: preserves_def invalidate_def LogAdminMutation_def settings_def)

lemma settings_projects:
  "preserves (\<lambda>s. settings s = c) (svc_CreateProject now i name model region mx)"
  "preserves (\<lambda>s. settings s = c) (svc_UpdateProject now i name status model region clearRegion mx clearBudget)"
  unfolding svc_CreateProject_def svc_UpdateProject_def Let_def
  by (intro preserve preserves_bindR_lift settings_write settings_admin)+

interpretation config: write_invariant "\<lambda>s. settings s = c" "\<lambda>_. True" for c
  by unfold_locales
    (rule settings_write settings_projects | simp add: preserves_def settings_resolve | simp add: settings_def)+

lemma step_settings: "svc_step c s s' \<Longrightarrow> settings s' = settings s"
  by (erule config.svc_step_keeps [of c s s' "settings s"]) (cases c; simp)+

lemma reachable_resolver:
  "svc_reachable ok s \<Longrightarrow> mr_ttl (s_resolver s) = resolverTTL \<and> mr_max (s_resolver s) = resolverMaxEntries"
proof (induction rule: svc_reachable.induct)
  case (init s)
  then show ?case by (simp add: svc_init_def newModelResolver_def)
next
  case (step s c s')
  then show ?case using step_settings [OF step.hyps(3)] by (simp add: settings_def)
qed

subsection \<open>Slugs\<close>

lemma slugify_shape: "slug_shape (slugify s)"
proof -
  let ?s1 = "trimDash (dashRuns False (slugLower (TrimSpace s)))"
  define s2 where "s2 = (if ?s1 = [] then ''ws'' else ?s1)"
  have "slug_bytes ?s1" by (simp add: slug_bytes_trimDash dashRuns_bytes)
  moreover have "slug_bytes ''ws''" by (simp add: slug_bytes_def no_dashes_def slug_char_def)
  ultimately have bytes: "slug_bytes s2" by (simp add: s2_def)
  have ends: "s2 \<noteq> []" "hd s2 \<noteq> CHR ''-''" "last s2 \<noteq> CHR ''-''"
    using trimDash_ends [of "dashRuns False (slugLower (TrimSpace s))"] by (auto simp: s2_def)
  have slug: "slugify s = (if length s2 > 48 then trimDash (take 48 s2) else s2)"
    by (simp add: slugify_def s2_def Let_def)
  show ?thesis
  proof (cases "length s2 > 48")
    case True
    then have hd: "take 48 s2 \<noteq> []" "hd (take 48 s2) \<noteq> CHR ''-''" using ends by auto
    have "slug_bytes (take 48 s2)" using bytes slug_bytes_sub [of "[]" "take 48 s2" "drop 48 s2"] by simp
    with True trimDash_nonempty [OF hd] trimDash_ends [of "take 48 s2"] trimDash_length [of "take 48 s2"]
    show ?thesis by (simp add: slug slug_shape_def slug_bytes_trimDash)
  qed (use bytes ends in \<open>simp add: slug slug_shape_def\<close>)
qed

lemma slugify_id: "slug_shape s \<Longrightarrow> slugify s = s"
  by (simp add: slug_shape_def slug_bytes_def slugify_def TrimSpace_id slugLower_id dashRuns_id trimDash_id Let_def)

subsection \<open>Demonstration services\<close>

definition demo_ann :: principal where
  "demo_ann = \<lparr>p_UserID = ''ann'', p_ProjectID = ''acme'', p_TenantID = ''t1'', p_Caller = ''web''\<rparr>"

definition demo_start :: service where "demo_start = svc_New mem_New []"

definition demo_team :: service where
  "demo_team = snd (svc_CreateWorkspace 1 ''w1'' demo_ann ''team'' ''team'' demo_start)"

definition demo_bob :: service where
  "demo_bob = snd (svc_AddMember 2 demo_ann ''w1'' ''bob'' RoleMember demo_team)"

lemma demo_name: "trimName ''team'' = ''team''" "slugify ''team'' = ''team''"
proof -
  have "list_all (\<lambda>c. slug_char c \<or> c = CHR ''-'') ''team''" by (simp add: slug_char_def)
  then show "trimName ''team'' = ''team''" by (simp add: trimName_def TrimSpace_id)
  have "slug_shape ''team''" by (simp add: slug_shape_def slug_bytes_def no_dashes_def slug_char_def)
  then show "slugify ''team'' = ''team''" by (rule slugify_id)
qed

abbreviation demo_resolved :: resolved where
  "demo_resolved \<equiv> \<lparr>rs_model = None, rs_suspended = False, rs_dataRegion = [], rs_maxCheckReads = 0, rs_at = 1\<rparr>"

abbreviation demo_membership :: "string \<Rightarrow> string \<Rightarrow> time \<Rightarrow> membership" where
  "demo_membership u r tm \<equiv> \<lparr>mb_ProjectID = ''acme'', mb_TenantID = ''t1'', mb_WorkspaceID = ''w1'', mb_UserID = u,
     mb_Role = r, mb_Status = StatusActive, mb_CreatedAt = tm, mb_UpdatedAt = tm\<rparr>"

lemma demo_team_code [code]:
  "demo_team = demo_start\<lparr>
     s_repo := mem_New\<lparr>
       m_workspaces := [(scope ''acme'' ''t1'', [(''w1'', \<lparr>ws_ID = ''w1'', ws_ProjectID = ''acme'', ws_TenantID = ''t1'',
         ws_Slug = ''team'', ws_DisplayName = ''team'', ws_Type = TypeTeam, ws_OwnerUserID = ''ann'', ws_CreatedAt = 1,
         ws_UpdatedAt = 1\<rparr>)])],
       m_memberships := [(scope ''acme'' ''t1'', [(''w1'', [(''ann'', demo_membership ''ann'' RoleOwner 1)])])],
       m_tuples := [(scope ''acme'' ''t1'', [(tupleKey (role_tuple ''w1'' ''ann'' RoleOwner), role_tuple ''w1'' ''ann'' RoleOwner)])],
       m_seqs := [(scope ''acme'' ''t1'', 1)]\<rparr>,
     s_resolver := newModelResolver\<lparr>mr_cache := [(''acme'', demo_resolved)]\<rparr>\<rparr>"
  by (simp add: demo_team_def demo_start_def svc_CreateWorkspace_def svc_New_def demo_name demo_ann_def bindR_def
      ensureProjectActive_def resolve_def resolver_lookup_def newModelResolver_def resolver_load_def mem_GetProject_def
      mem_New_def errors_Is_def resolver_store_def resolverMaxEntries_def regionServable_def createWorkspaceWithOwner_def
      repo_write_def mem_CreateWorkspace_def TypeTeam_def TypePersonal_def put2_def put3_def mem_PutMembershipAndTuples_def
      putMembershipLocked_def writeTuplesLocked_def bump_seq_def Let_def)

lemma demo_reachable: "svc_reachable typed_only demo_team" "svc_reachable typed_only demo_bob"
proof -
  have "svc_reachable typed_only demo_start" by (rule svc_reachable.init) (simp add: demo_start_def)
  then show team: "svc_reachable typed_only demo_team"
    unfolding demo_team_def by (rule svc_reachable.step [where c = Typed]) (simp, rule svc_step.CreateWorkspace)
  then show "svc_reachable typed_only demo_bob"
    unfolding demo_bob_def by (rule svc_reachable.step [where c = Typed]) (simp, rule svc_step.AddMember)
qed

lemma demo_settings: "s_maxCheckReads demo_team = 5000" "s_maxCheckReads demo_bob = 5000"
proof -
  have "s_maxCheckReads demo_start = 5000"
    by (simp add: demo_start_def svc_New_def DefaultMaxCheckReads_def)
  moreover have "settings demo_team = settings demo_start" unfolding demo_team_def by (rule step_settings) (rule svc_step.CreateWorkspace)
  moreover have "settings demo_bob = settings demo_team" unfolding demo_bob_def by (rule step_settings) (rule svc_step.AddMember)
  ultimately show "s_maxCheckReads demo_team = 5000" "s_maxCheckReads demo_bob = 5000" by (simp_all add: settings_def)
qed

subsection \<open>Access\<close>

text \<open>C17. On the product surface, access to a workspace is exactly what the membership table says: in every
  service whose workspace tuples come from the typed operations, and for every project that does
  not redefine the workspace namespace, the guard grants a role to a user exactly when that user
  has an active membership of this role or a higher one. The service has no read budget, or one of at
  least four reads per check. Suspended, removed and never-added users
  are denied, and the guard never fails.\<close>

theorem workspace_access:
  assumes "svc_reachable typed_only s" and "workspace_default (s_repo s) (p_ProjectID p)"
    and "s_maxCheckReads s \<le> 0 \<or> 4 \<le> s_maxCheckReads s" and "Role_Valid rel" and "p_UserID p \<noteq> []"
  shows "fst (allowed now p w rel s) =
    Inr (case mem_GetMembership (p_ProjectID p) (p_TenantID p) w (p_UserID p) (s_repo s) of
           Inl _ \<Rightarrow> False
         | Inr m \<Rightarrow> mb_Status m = StatusActive \<and> mb_Role m \<in> set (roles_from rel))"
proof -
  have "fst (allowed now p w rel s) =
      Inr (\<exists>r\<in>set (roles_from rel). active_role (s_repo s) (scope (p_ProjectID p) (p_TenantID p)) w (p_UserID p) r)"
    using allowed_membership [OF reachable_members [OF assms(1)] reachable_cache [OF assms(1)] assms(2-5)] .
  then show ?thesis by (auto simp: active_role_def GetMembership_row split: option.split)
qed

theorem workspace_access_witness:
  "Role_Valid RoleGuest \<and>
   fst (allowed 3 (demo_ann\<lparr>p_UserID := ''bob''\<rparr>) ''w1'' RoleGuest demo_bob) = Inr True \<and>
   fst (allowed 3 (demo_ann\<lparr>p_UserID := ''bob''\<rparr>) ''w1'' RoleAdmin demo_bob) = Inr False"
proof -
  let ?p = "demo_ann\<lparr>p_UserID := ''bob''\<rparr>"
  have d: "workspace_default (s_repo demo_bob) (p_ProjectID ?p)" by code_simp
  have b: "s_maxCheckReads demo_bob \<le> 0 \<or> 4 \<le> s_maxCheckReads demo_bob" by (simp add: demo_settings)
  have u: "p_UserID ?p \<noteq> []" by simp
  have v: "Role_Valid RoleGuest" "Role_Valid RoleAdmin" by (simp_all add: Role_Valid_def)
  obtain m where m: "mem_GetMembership (p_ProjectID ?p) (p_TenantID ?p) ''w1'' (p_UserID ?p) (s_repo demo_bob) = Inr m"
    "mb_Status m = StatusActive" "mb_Role m = RoleMember"
  proof -
    have "(case mem_GetMembership (p_ProjectID ?p) (p_TenantID ?p) ''w1'' (p_UserID ?p) (s_repo demo_bob) of
        Inr m \<Rightarrow> mb_Status m = StatusActive \<and> mb_Role m = RoleMember | Inl _ \<Rightarrow> False)" by code_simp
    then show thesis using that by (auto split: sum.splits)
  qed
  from workspace_access [OF demo_reachable(2) d b v(1) u, of 3 "''w1''"]
    workspace_access [OF demo_reachable(2) d b v(2) u, of 3 "''w1''"] m v
  show ?thesis by (simp add: roles_from_simps) (simp add: role_defs)
qed

subsection \<open>Effects of member operations\<close>

lemma step_projects:
  assumes "writes (s_repo s) (\<lambda>r. m_projects r = m_projects (s_repo s)) m"
  shows "m_projects (s_repo (snd (m s))) = m_projects (s_repo s)"
  using assms by (auto simp: writes_def)

lemma SuspendMember_projects: "m_projects (s_repo (snd (svc_SuspendMember now p w u s))) = m_projects (s_repo s)"
  unfolding svc_SuspendMember_def Let_def by (intro step_projects writes_intros) (simp add: project_frames)

lemma requireWorkspace_bind:
  assumes "bindR (requireWorkspace now p i rel) f s = (Inr x, s')"
  obtains wk s1 where "mem_GetWorkspace (p_ProjectID p) (p_TenantID p) i (s_repo s) = Inr wk"
    "s_repo s1 = s_repo s" "f wk s1 = (Inr x, s')"
proof -
  obtain y s1 where run: "requireWorkspace now p i rel s = (y, s1)" by force
  with assms obtain wk where wk: "y = Inr wk" "f wk s1 = (Inr x, s')" by (cases y) (auto simp: bindR_def)
  with that run requireWorkspace_row keepsD [OF keeps_requireWorkspace run] show thesis by blast
qed

lemma SuspendMember_row:
  assumes "svc_SuspendMember now p w u s = (Inr m, s')" and "store_ok (s_repo s)"
  shows "member_row (s_repo s') (scope (p_ProjectID p) (p_TenantID p)) w u = Some m" and "mb_Status m = StatusSuspended"
proof -
  let ?sk = "scope (p_ProjectID p) (p_TenantID p)"
  from assms(1) obtain wk s1 where s1: "s_repo s1 = s_repo s"
    and run: "bindR (repo_read (mem_GetMembership (p_ProjectID p) (p_TenantID p) w u)) (\<lambda>m.
       if mb_Role m = RoleOwner then fail ErrFailedPrecondition
       else if mb_Status m = StatusSuspended then ret m
       else (let m' = m\<lparr>mb_Status := StatusSuspended, mb_UpdatedAt := now\<rparr> in
             bindR (repo_write (mem_PutMembershipAndTuples m' [] [role_tuple w u (mb_Role m')])) (\<lambda>_. ret m'))) s1 = (Inr m, s')"
    unfolding svc_SuspendMember_def by (elim requireWorkspace_bind) auto
  then obtain m0 where row: "member_row (s_repo s) ?sk w u = Some m0"
    by (auto simp: bindR_def repo_read_def GetMembership_row split: option.splits)
  note ids = member_row_ids [OF assms(2) row]
  from run row s1 show "member_row (s_repo s') ?sk w u = Some m" "mb_Status m = StatusSuspended"
    by (auto simp: bindR_def repo_read_def repo_write_def GetMembership_row mem_PutMembershipAndTuples_def Let_def
        putMembershipLocked_def ids split: if_splits option.splits)
      (auto simp: member_row_def ids)
qed

text \<open>C18. Suspending a member cuts that user's access at once: in a service whose workspace tuples come from the
  typed operations (no raw tuple write on the workspace namespace, no offboarding), for a project that does not
  redefine that namespace, and with no read budget or one of at least four reads, after a successful
  \<^verbatim>\<open>SuspendMember\<close> the guard denies every role to that user, without waiting for any cache, and the row
  is kept, so that the suspension can be undone.\<close>

theorem suspend_cuts_access:
  assumes "svc_reachable typed_only s" and "workspace_default (s_repo s) (p_ProjectID p)"
    and "s_maxCheckReads s \<le> 0 \<or> 4 \<le> s_maxCheckReads s" and "Role_Valid rel" and "u \<noteq> []"
    and "svc_SuspendMember now p w u s = (Inr m, s')"
  shows "fst (allowed now' (p\<lparr>p_UserID := u\<rparr>) w rel s') = Inr False \<and>
    mem_GetMembership (p_ProjectID p) (p_TenantID p) w u (s_repo s') = Inr m \<and> mb_Status m = StatusSuspended"
proof -
  have s': "s' = snd (svc_SuspendMember now p w u s)" using assms(6) by simp
  then have step: "svc_step Typed s s'" by (auto intro: svc_step.SuspendMember)
  have reach: "svc_reachable typed_only s'" using svc_reachable.step [OF assms(1) _ step] by simp
  have default: "workspace_default (s_repo s') (p_ProjectID p)"
    using assms(2) SuspendMember_projects [of now p w u s] by (simp add: workspace_default_def s')
  have budget: "s_maxCheckReads s' \<le> 0 \<or> 4 \<le> s_maxCheckReads s'"
    using assms(3) step_settings [OF step] by (simp add: settings_def)
  note row = SuspendMember_row [OF assms(6) reachable_store_ok [OF assms(1)]]
  have "fst (allowed now' (p\<lparr>p_UserID := u\<rparr>) w rel s') = Inr (\<exists>r\<in>set (roles_from rel).
      active_role (s_repo s') (scope (p_ProjectID p) (p_TenantID p)) w u r)"
    using allowed_membership [OF reachable_members [OF reach] reachable_cache [OF reach] _ budget assms(4), of "p\<lparr>p_UserID := u\<rparr>"]
      default assms(5) by simp
  with row show ?thesis by (simp add: active_role_row(1) GetMembership_row)
qed

theorem suspend_cuts_access_witness:
  "\<exists>m s'. svc_SuspendMember 3 demo_ann ''w1'' ''bob'' demo_bob = (Inr m, s') \<and>
     fst (allowed 4 (demo_ann\<lparr>p_UserID := ''bob''\<rparr>) ''w1'' RoleGuest s') = Inr False"
proof -
  have d: "workspace_default (s_repo demo_bob) (p_ProjectID demo_ann)" by code_simp
  have b: "s_maxCheckReads demo_bob \<le> 0 \<or> 4 \<le> s_maxCheckReads demo_bob" by (simp add: demo_settings)
  have v: "Role_Valid RoleGuest" by (simp add: Role_Valid_def)
  have "(case fst (svc_SuspendMember 3 demo_ann ''w1'' ''bob'' demo_bob) of Inr _ \<Rightarrow> True | Inl _ \<Rightarrow> False)" by code_simp
  then obtain m where "svc_SuspendMember 3 demo_ann ''w1'' ''bob'' demo_bob = (Inr m, snd (svc_SuspendMember 3 demo_ann ''w1'' ''bob'' demo_bob))"
    by (cases "svc_SuspendMember 3 demo_ann ''w1'' ''bob'' demo_bob") (auto split: sum.splits)
  with suspend_cuts_access [OF demo_reachable(2) d b v _ this, of 4] show ?thesis by auto
qed

end
