(* ===== verification/Service_Gates.thy ===== *)
theory Service_Gates
  imports Service_Props Consistency_Token
begin

section \<open>Properties of the gates: project settings, suspension, region\<close>

text \<open>
  Every data-plane call first resolves the settings of its project. The settings are those of the
  project's row; a suspended project is refused writes and denied access; a project homed in another
  region is refused entirely. \<open>refused I m\<close> says that, from any state satisfying \<open>I\<close>, \<open>m\<close> fails and
  writes nothing; its rules follow the code through the calls made before the gate.
\<close>

named_theorems refuse

definition refused :: "(service \<Rightarrow> bool) \<Rightarrow> 'a svc \<Rightarrow> bool" where
  "refused I m \<longleftrightarrow> (\<forall>s. I s \<longrightarrow> isl (fst (m s)) \<and> s_repo (snd (m s)) = s_repo s)"

lemma refused_fail [refuse]: "refused I (fail e)"
  by (simp add: refused_def fail_def)

lemma refused_if [refuse]: "refused I m \<Longrightarrow> refused I n \<Longrightarrow> refused I (if b then m else n)"
  by simp

lemma refused_bindR:
  assumes "keeps s_repo m" and "preserves I m" and "\<And>x. refused I (f x)"
  shows "refused I (bindR m f)"
  unfolding refused_def
proof (intro allI impI)
  fix s assume I: "I s"
  obtain y s1 where m: "m s = (y, s1)" by force
  then have s1: "I s1" "s_repo s1 = s_repo s" using assms(1,2) I keepsD [OF assms(1) m] by (auto simp: preserves_def)
  then show "isl (fst (bindR m f s)) \<and> s_repo (snd (bindR m f s)) = s_repo s"
    using m assms(3) by (cases y) (auto simp: bindR_def refused_def)
qed

lemma refused_gate:
  assumes "refused I m"
  shows "refused I (bindR m f)"
  unfolding refused_def
proof (intro allI impI)
  fix s assume "I s"
  with assms have "isl (fst (m s)) \<and> s_repo (snd (m s)) = s_repo s" by (simp add: refused_def)
  then show "isl (fst (bindR m f s)) \<and> s_repo (snd (bindR m f s)) = s_repo s"
    by (cases "m s"; cases "fst (m s)") (auto simp: bindR_def)
qed

lemma refused_read [refuse]: "(\<And>x. refused I (f x)) \<Longrightarrow> refused I (bindR (repo_read g) f)"
  by (rule refused_bindR) (auto intro: keep simp: preserves_def repo_read_def)

lemma refused_lift [refuse]: "(\<And>x. refused I (f x)) \<Longrightarrow> refused I (bindR (lift r) f)"
  by (rule refused_bindR) (auto intro: keep simp: preserves_def lift_def)

lemma refused_try [refuse]: "(\<And>x. refused I (f x)) \<Longrightarrow> refused I (tryR (repo_read g) f)"
  by (simp add: refused_def tryR_def repo_read_def)

lemma refused_sum [refuse]:
  "(\<And>x. refused I (f x)) \<Longrightarrow> (\<And>y. refused I (g y)) \<Longrightarrow> refused I (case r of Inl x \<Rightarrow> f x | Inr y \<Rightarrow> g y)"
  by (cases r) simp_all

subsection \<open>Settings\<close>

text \<open>What a project row, or its absence, settles.\<close>

definition row_settings :: "string \<Rightarrow> store \<Rightarrow> bool \<times> string \<times> int" where
  "row_settings i r = (case mem_GetProject i r of
     Inr pr \<Rightarrow> (pr_Status pr = ProjectSuspended, pr_DataRegion pr, pr_MaxCheckReads pr)
   | Inl _ \<Rightarrow> (False, [], 0))"

definition entry_settings :: "resolved \<Rightarrow> bool \<times> string \<times> int" where
  "entry_settings e = (rs_suspended e, rs_dataRegion e, rs_maxCheckReads e)"

lemma load_settings: "resolver_load tm i r = Inr e \<Longrightarrow> entry_settings e = row_settings i r"
  by (auto simp: resolver_load_def row_settings_def entry_settings_def split: sum.splits if_splits)

lemma resolve_row:
  assumes "cache_current s"
  obtains e s' where "resolve now i s = (Inr e, s')" "entry_settings e = row_settings i (s_repo s)"
    "\<And>tm. map_option (\<lambda>e. rs_model e) (case resolver_load tm i (s_repo s) of Inr e \<Rightarrow> Some e | Inl _ \<Rightarrow> None) = Some (rs_model e)"
    "now - rs_at e \<le> mr_ttl (s_resolver s)" "s_repo s' = s_repo s" "cache_current s'"
proof -
  from resolve_settings [OF assms, of now i] obtain e tm where
    e: "fst (resolve now i s) = Inr e" "resolver_load tm i (s_repo s) = Inr e" "now - rs_at e \<le> mr_ttl (s_resolver s)" by blast
  obtain s' where run: "resolve now i s = (Inr e, s')" using e(1) by (cases "resolve now i s") simp
  have "map_option (\<lambda>e. rs_model e) (case resolver_load tm' i (s_repo s) of Inr e \<Rightarrow> Some e | Inl _ \<Rightarrow> None) = Some (rs_model e)" for tm'
    using e(2) by (auto simp: resolver_load_def split: sum.splits if_splits)
  moreover have "cache_current s'" using cache_current_resolve [of now i] assms run by (auto simp: preserves_def)
  ultimately show thesis using that run load_settings [OF e(2)] e(3) keepsD [OF keeps_resolve run] by metis
qed

lemma map_of_merge:
  "wf_map xs \<Longrightarrow> map_of (foldl (\<lambda>m (ns, rels). AList.update ns rels m) m xs) = map_of m ++ map_of xs"
proof (induction xs arbitrary: m)
  case (Cons x xs)
  obtain k v where x: "x = (k, v)" by force
  with Cons.prems have "k \<notin> dom (map_of xs)" by (simp add: wf_map_def dom_map_of_conv_image_fst)
  then have key: "(map_of m)(k \<mapsto> v) ++ map_of xs = map_of m ++ (map_of xs)(k \<mapsto> v)" by (simp add: map_add_upd_left)
  have upd: "map_of (AList.update k v m) = (map_of m)(k \<mapsto> v)" by (rule update_conv')
  have "wf_map xs" using Cons.prems by (simp add: wf_map_def)
  from Cons.IH [OF this, of "AList.update k v m"] show ?case unfolding upd key by (simp only: x foldl.simps prod.case map_of.simps fst_conv snd_conv)
qed simp

text \<open>C23. The settings a call runs under are those stored for its project: in every reachable service,
  resolving a project succeeds and yields the status, the region, the budget and the model of its row,
  however stale the cache entry. The model is the default one with the namespaces of the row laid over it, so
  a namespace the project does not define keeps its default. A project without a row gets the defaults.
  An entry is never served past its time to live, and the cache never exceeds its bound. Calls
  are served one at a time.\<close>

theorem settings_current:
  assumes "svc_reachable ok s"
  shows "\<exists>e s'. resolve now i s = (Inr e, s') \<and> s_repo s' = s_repo s \<and> now - rs_at e \<le> resolverTTL \<and>
    int (length (mr_cache (s_resolver s'))) \<le> resolverMaxEntries \<and>
    (case mem_GetProject i (s_repo s) of
       Inr pr \<Rightarrow> rs_suspended e = (pr_Status pr = ProjectSuspended) \<and> rs_dataRegion e = pr_DataRegion pr \<and>
                 rs_maxCheckReads e = pr_MaxCheckReads pr \<and>
                 (wf_map (pr_Model pr) \<longrightarrow> map_of (modelOrDefault e) = map_of DefaultModel ++ map_of (pr_Model pr))
     | Inl _ \<Rightarrow> \<not> rs_suspended e \<and> rs_dataRegion e = [] \<and> rs_maxCheckReads e = 0 \<and> modelOrDefault e = DefaultModel)"
proof -
  from resolve_row [OF reachable_cache [OF assms], of now i] obtain e s' where
    e: "resolve now i s = (Inr e, s')" "entry_settings e = row_settings i (s_repo s)"
    "map_option (\<lambda>e. rs_model e) (case resolver_load now i (s_repo s) of Inr e \<Rightarrow> Some e | Inl _ \<Rightarrow> None) = Some (rs_model e)"
    "now - rs_at e \<le> mr_ttl (s_resolver s)" "s_repo s' = s_repo s" "cache_current s'" by metis
  have "mr_max (s_resolver s') = resolverMaxEntries"
    using settings_resolve [of now i s] reachable_resolver [OF assms] e(1) by (simp add: settings_def)
  moreover have "modelOrDefault e = DefaultModel" if "mem_GetProject i (s_repo s) = Inl err" for err
    using that e(3) by (auto simp: resolver_load_def mem_GetProject_def errors_Is_def modelOrDefault_def split: option.splits)
  moreover have "map_of (modelOrDefault e) = map_of DefaultModel ++ map_of (pr_Model pr)"
    if "mem_GetProject i (s_repo s) = Inr pr" "wf_map (pr_Model pr)" for pr
    using e(3) map_of_merge [OF that(2), of DefaultModel] that(1)
    by (auto simp: resolver_load_def modelOrDefault_def dest: sym split: if_splits option.splits)
  ultimately show ?thesis
    using e reachable_resolver [OF assms]
    by (auto simp: cache_current_def entry_settings_def row_settings_def split: sum.splits)
qed

text \<open>A project that brings a namespace of its own.\<close>

definition demo_docs :: service where
  "demo_docs = snd (svc_CreateProject 3 ''acme'' ''Acme'' [(''doc'', [(''viewer'', this_rw)])] ''eu'' 640 demo_start)"

theorem settings_current_witness:
  "\<exists>e s'. resolve 9 ''acme'' demo_docs = (Inr e, s') \<and> \<not> rs_suspended e \<and> rs_dataRegion e = ''eu'' \<and> rs_maxCheckReads e = 640 \<and>
     9 - rs_at e \<le> resolverTTL \<and> map_of (modelOrDefault e) ''doc'' = Some [(''viewer'', this_rw)]"
proof -
  have "svc_init demo_start" by (simp add: demo_start_def)
  then have reach: "svc_reachable typed_only demo_docs" unfolding demo_docs_def
    by (intro svc_reachable.step [OF svc_reachable.init, where c = Typed]) (simp_all, rule svc_step.CreateProject)
  have "(case mem_GetProject ''acme'' (s_repo demo_docs) of
      Inr pr \<Rightarrow> pr_Status pr = ProjectActive \<and> pr_DataRegion pr = ''eu'' \<and> pr_MaxCheckReads pr = 640 \<and>
        pr_Model pr = [(''doc'', [(''viewer'', this_rw)])] | Inl _ \<Rightarrow> False)" by code_simp
  then obtain pr where pr: "mem_GetProject ''acme'' (s_repo demo_docs) = Inr pr" "pr_Status pr = ProjectActive"
    "pr_DataRegion pr = ''eu''" "pr_MaxCheckReads pr = 640" "pr_Model pr = [(''doc'', [(''viewer'', this_rw)])]"
    by (auto split: sum.splits)
  from settings_current [OF reach, of 9 "''acme''"] pr show ?thesis
    by (auto simp: wf_map_def ProjectActive_def ProjectSuspended_def)
qed

subsection \<open>Barred projects\<close>

text \<open>The state of a service whose calls for project \<open>i\<close> must not pass: the project is suspended, or it
  is homed in another region than the instance.\<close>

definition foreign :: "string \<Rightarrow> service \<Rightarrow> bool" where
  "foreign i s \<longleftrightarrow> (case row_settings i (s_repo s) of
     (_, region, _) \<Rightarrow> s_dataRegion s \<noteq> [] \<and> region \<noteq> [] \<and> region \<noteq> s_dataRegion s)"

definition barred :: "string \<Rightarrow> service \<Rightarrow> bool" where
  "barred i s \<longleftrightarrow> cache_current s \<and> (fst (row_settings i (s_repo s)) \<or> foreign i s)"

definition unservable :: "string \<Rightarrow> service \<Rightarrow> bool" where
  "unservable i s \<longleftrightarrow> cache_current s \<and> foreign i s"

lemma region_resolve: "s_dataRegion (snd (resolve now i s)) = s_dataRegion s"
  using settings_resolve [of now i s] by (simp add: settings_def)

lemma current_after:
  "cache_current s \<Longrightarrow> cache_current (snd (resolve now i s))"
  "cache_current (s\<lparr>s_auditLog := al\<rparr>) = cache_current s" "cache_current (s\<lparr>s_decisionLog := dl\<rparr>) = cache_current s"
  using cache_current_resolve [of now i] by (simp_all add: preserves_def) (simp_all add: cache_current_def)

interpretation gate: guard_invariant "barred i" for i
  by unfold_locales
    (simp_all add: preserves_def barred_def foreign_def region_resolve keeps_snd [OF keeps_resolve] current_after)

interpretation border: guard_invariant "unservable i" for i
  by unfold_locales
    (simp_all add: preserves_def unservable_def foreign_def region_resolve keeps_snd [OF keeps_resolve] current_after)

lemma refused_ensureProjectActive: "refused (barred (p_ProjectID p)) (ensureProjectActive now p)"
  unfolding refused_def
proof (intro allI impI)
  fix s assume bar: "barred (p_ProjectID p) s"
  then obtain e s' where e: "resolve now (p_ProjectID p) s = (Inr e, s')" "entry_settings e = row_settings (p_ProjectID p) (s_repo s)"
    "s_repo s' = s_repo s" using resolve_row by (metis barred_def)
  have "s_dataRegion s' = s_dataRegion s" using region_resolve [of now "p_ProjectID p" s] e(1) by simp
  with bar e show "isl (fst (ensureProjectActive now p s)) \<and> s_repo (snd (ensureProjectActive now p s)) = s_repo s"
    by (auto simp: ensureProjectActive_def bindR_def regionServable_def barred_def foreign_def entry_settings_def fail_def
        split: prod.splits)
qed

lemma unservable_resolve:
  assumes "unservable i s"
  obtains e s' where "resolve now i s = (Inr e, s')" "s_repo s' = s_repo s" "regionServable e s' = (Inl ErrRegionNotServable, s')"
proof -
  have "cache_current s" using assms by (simp add: unservable_def)
  from resolve_row [OF this, of now i] obtain e s' where
    e: "resolve now i s = (Inr e, s')" "entry_settings e = row_settings i (s_repo s)" "s_repo s' = s_repo s" by metis
  have "s_dataRegion s' = s_dataRegion s" using region_resolve [of now i s] e(1) by simp
  moreover obtain b rg n where row: "row_settings i (s_repo s) = (b, rg, n)" by (cases "row_settings i (s_repo s)")
  ultimately have "regionServable e s' = (Inl ErrRegionNotServable, s')"
    using assms e(2) by (simp add: regionServable_def unservable_def foreign_def entry_settings_def)
  with that e show thesis by blast
qed

lemma refused_region: "refused (unservable i) (bindR (resolve now i) (\<lambda>res. bindR (regionServable res) (\<lambda>_. f res)))"
  unfolding refused_def
proof (intro allI impI)
  fix s assume "unservable i s"
  then obtain e s' where "resolve now i s = (Inr e, s')" "s_repo s' = s_repo s" "regionServable e s' = (Inl ErrRegionNotServable, s')"
    by (rule unservable_resolve)
  then show "isl (fst (bindR (resolve now i) (\<lambda>res. bindR (regionServable res) (\<lambda>_. f res)) s)) \<and>
      s_repo (snd (bindR (resolve now i) (\<lambda>res. bindR (regionServable res) (\<lambda>_. f res)) s)) = s_repo s"
    by (simp add: bindR_def)
qed

lemma refused_ensureRegion: "refused (unservable (p_ProjectID p)) (ensureRegion now p)"
  unfolding refused_def
proof (intro allI impI)
  fix s assume bar: "unservable (p_ProjectID p) s"
  then obtain e s' where "resolve now (p_ProjectID p) s = (Inr e, s')" "s_repo s' = s_repo s"
    "regionServable e s' = (Inl ErrRegionNotServable, s')" by (rule unservable_resolve)
  moreover have "s_dataRegion s \<noteq> []" using bar by (auto simp: unservable_def foreign_def split: prod.splits)
  ultimately show "isl (fst (ensureRegion now p s)) \<and> s_repo (snd (ensureRegion now p s)) = s_repo s"
    by (simp add: ensureRegion_def bindR_def)
qed

lemmas refused_active [refuse] = refused_gate [OF refused_ensureProjectActive]
lemmas refused_border [refuse] = refused_region refused_gate [OF refused_ensureRegion]

lemma refused_workspace [refuse]:
  "(\<And>x. refused (barred i) (f x)) \<Longrightarrow> refused (barred i) (bindR (requireWorkspace now p w rel) f)"
  by (rule refused_bindR [OF keeps_requireWorkspace gate.I_requireWorkspace])

lemma refused_WriteTuples: "refused (barred (p_ProjectID p)) (svc_WriteTuples now p ops)"
  unfolding svc_WriteTuples_def by (intro refuse) (auto simp: case_prod_beta intro: refuse)

lemma refused_members:
  "refused (barred (p_ProjectID p)) (svc_CreateWorkspace now newID p name slug)"
  "refused (barred (p_ProjectID p)) (svc_AddMember now p w u role)"
  "refused (barred (p_ProjectID p)) (svc_TransferOwnership now p w u)"
  "refused (barred (p_ProjectID p)) (svc_CreateInvitation now newID tok p w email role)"
  unfolding svc_CreateWorkspace_def svc_AddMember_def putMember_def svc_TransferOwnership_def svc_CreateInvitation_def
  by (intro refuse)+

lemma refused_groups:
  "refused (barred (p_ProjectID p)) (svc_CreateGroup now newID p name slug w)"
  "refused (barred (p_ProjectID p)) (svc_AddGroupMember now p g gm)"
  "refused (barred (p_ProjectID p)) (svc_SetEnrollmentState now p g gm st)"
  "refused (barred (p_ProjectID p)) (svc_SetSeatLimit now p sku quota)"
  "refused (barred (p_ProjectID p)) (svc_AssignSeat now p sku u)"
  "refused (barred (p_ProjectID p)) (svc_RevokeSeat now p sku u)"
  unfolding svc_CreateGroup_def svc_AddGroupMember_def svc_SetEnrollmentState_def svc_SetSeatLimit_def svc_AssignSeat_def svc_RevokeSeat_def
  by (intro refuse)+

lemma refused_evaluation:
  assumes "\<And>res. rs_suspended res \<Longrightarrow> f res = fail err"
  shows "refused (barred i) (bindR (resolve now i) (\<lambda>res. bindR (regionServable res) (\<lambda>_. f res)))"
  unfolding refused_def
proof (intro allI impI)
  fix s assume bar: "barred i s"
  then obtain e s' where e: "resolve now i s = (Inr e, s')" "entry_settings e = row_settings i (s_repo s)"
    "s_repo s' = s_repo s" using resolve_row by (metis barred_def)
  have "s_dataRegion s' = s_dataRegion s" using region_resolve [of now i s] e(1) by simp
  with bar e assms [of e] show "isl (fst (bindR (resolve now i) (\<lambda>res. bindR (regionServable res) (\<lambda>_. f res)) s)) \<and>
      s_repo (snd (bindR (resolve now i) (\<lambda>res. bindR (regionServable res) (\<lambda>_. f res)) s)) = s_repo s"
    by (auto simp: bindR_def regionServable_def barred_def foreign_def entry_settings_def fail_def split: prod.splits)
qed

lemma refused_expand:
  "refused (barred (p_ProjectID p)) (svc_Expand now p ns obj rel)"
  "refused (barred (p_ProjectID p)) (svc_ListObjects now p ns rel u)"
  unfolding svc_Expand_def svc_ListObjects_def by (intro refuse refused_evaluation; simp)+

lemma barred_decision:
  assumes bar: "barred i s" and f: "\<And>res. rs_suspended res \<Longrightarrow> f res = ret False"
  shows "fst (bindR (resolve now i) (\<lambda>res. bindR (regionServable res) (\<lambda>_. f res)) s) \<noteq> Inr True"
proof -
  obtain e s' where e: "resolve now i s = (Inr e, s')" "entry_settings e = row_settings i (s_repo s)" "s_repo s' = s_repo s"
    using resolve_row bar by (metis barred_def)
  have "s_dataRegion s' = s_dataRegion s" using region_resolve [of now i s] e(1) by simp
  with bar e f [of e] show ?thesis
    by (auto simp: bindR_def regionServable_def barred_def foreign_def entry_settings_def ret_def split: prod.splits)
qed

lemma fst_withDecisionLog: "fst (withDecisionLog now p ns obj rel u sset body s) = fst (body s)"
  by (simp add: withDecisionLog_def split: prod.split)

lemma barred_checks:
  assumes "barred (p_ProjectID p) s"
  shows "fst (svc_Check now p ns obj rel u cc s) \<noteq> Inr True" and "fst (svc_CheckSet rng now p ns obj rel sset cc s) \<noteq> Inr True"
  unfolding svc_Check_def svc_CheckSet_def
  by (simp_all add: fail_def fst_withDecisionLog barred_decision [OF assms])

text \<open>The call fails, and the repository is what it was.\<close>

definition rejects :: "service \<Rightarrow> 'a svc \<Rightarrow> bool" where
  "rejects s m \<longleftrightarrow> isl (fst (m s)) \<and> s_repo (snd (m s)) = s_repo s"

lemma refusedD: "refused I m \<Longrightarrow> I s \<Longrightarrow> rejects s m"
  by (simp add: refused_def rejects_def)

text \<open>C24. A suspended project is closed to new access and new state, as of the call that follows the suspension: no
  check is ever answered with a grant, expansion and listing fail, and every gated write (tuples,
  workspaces, members, ownership, invitations, groups, enrollments, seats) fails with the repository
  untouched.\<close>

theorem suspended_project:
  assumes "svc_reachable ok s" and "mem_GetProject (p_ProjectID p) (s_repo s) = Inr pr" and "pr_Status pr = ProjectSuspended"
  shows "fst (svc_Check now p ns obj rel u cc s) \<noteq> Inr True \<and> fst (svc_CheckSet rng now p ns obj rel sset cc s) \<noteq> Inr True \<and>
    rejects s (svc_Expand now p ns obj rel) \<and> rejects s (svc_ListObjects now p ns rel u) \<and> rejects s (svc_WriteTuples now p ops) \<and>
    rejects s (svc_CreateWorkspace now newID p name slug) \<and> rejects s (svc_AddMember now p w u role) \<and>
    rejects s (svc_TransferOwnership now p w u) \<and> rejects s (svc_CreateInvitation now newID tok p w email role) \<and>
    rejects s (svc_CreateGroup now newID p name slug w) \<and> rejects s (svc_AddGroupMember now p g gm) \<and>
    rejects s (svc_SetEnrollmentState now p g gm st) \<and> rejects s (svc_SetSeatLimit now p sku quota) \<and>
    rejects s (svc_AssignSeat now p sku u) \<and> rejects s (svc_RevokeSeat now p sku u)"
proof -
  have bar: "barred (p_ProjectID p) s"
    using assms reachable_cache [OF assms(1)] by (simp add: barred_def row_settings_def)
  show ?thesis
    by (intro conjI barred_checks bar refusedD [where I = "barred (p_ProjectID p)", OF _ bar] refused_WriteTuples refused_members refused_groups refused_expand)
qed

definition demo_project :: service where
  "demo_project = snd (svc_CreateProject 3 ''acme'' ''Acme'' [] ''eu'' 0 demo_bob)"

definition demo_suspended :: service where
  "demo_suspended = snd (svc_UpdateProject 4 ''acme'' [] ProjectSuspended [] [] False 0 False demo_project)"

lemma demo_project_reachable: "svc_reachable typed_only demo_project" "svc_reachable typed_only demo_suspended"
proof -
  show "svc_reachable typed_only demo_project" unfolding demo_project_def
    by (rule svc_reachable.step [OF demo_reachable(2), where c = Typed]) (simp, rule svc_step.CreateProject)
  then show "svc_reachable typed_only demo_suspended" unfolding demo_suspended_def
    by (rule svc_reachable.step [where c = Typed]) (simp, rule svc_step.UpdateProject)
qed

theorem suspended_project_witness:
  "rejects demo_suspended (svc_AssignSeat 5 demo_ann ''pro'' ''bob'') \<and>
   rejects demo_suspended (svc_WriteTuples 5 demo_ann []) \<and> rejects demo_suspended (svc_AddMember 5 demo_ann ''w1'' ''bob'' RoleGuest) \<and>
   fst (svc_Check 5 demo_ann ''workspace'' ''w1'' RoleGuest ''bob'' [] demo_suspended) \<noteq> Inr True"
proof -
  have "(case mem_GetProject (p_ProjectID demo_ann) (s_repo demo_suspended) of
      Inr pr \<Rightarrow> pr_Status pr = ProjectSuspended | Inl _ \<Rightarrow> False)" by code_simp
  then obtain pr where pr: "mem_GetProject (p_ProjectID demo_ann) (s_repo demo_suspended) = Inr pr" "pr_Status pr = ProjectSuspended"
    by (auto split: sum.splits)
  from suspended_project [OF demo_project_reachable(2) pr, of 5 "''workspace''" "''w1''" RoleGuest "''bob''" "[]"]
  show ?thesis by blast
qed

subsection \<open>Regions\<close>

lemma refused_withDecisionLog [refuse]:
  "refused I body \<Longrightarrow> refused I (withDecisionLog now p ns obj rel u sset body)"
  by (simp add: refused_def withDecisionLog_def logDecision_def split: prod.split) (metis fst_conv snd_conv)

lemma refused_unservable:
  "refused (unservable (p_ProjectID p)) (svc_Check now p ns obj rel u cc)"
  "refused (unservable (p_ProjectID p)) (svc_CheckSet rng now p ns obj rel sset cc)"
  "refused (unservable (p_ProjectID p)) (svc_Expand now p ns obj rel)"
  "refused (unservable (p_ProjectID p)) (svc_ListObjects now p ns rel u)"
  "refused (unservable (p_ProjectID p)) (svc_ReadTuples now p fl)"
  "refused (unservable (p_ProjectID p)) (DeprovisionUser now p u)"
  "refused (unservable (p_ProjectID p)) (ExportSubjectGrants now p u)"
  unfolding svc_Check_def svc_CheckSet_def svc_Expand_def svc_ListObjects_def svc_ReadTuples_def DeprovisionUser_def
    ExportSubjectGrants_def Let_def
  by (intro refuse)+

text \<open>C25. An instance bound to a region refuses the authorization data of a project homed in another one:
  evaluation, tuple reads and writes, offboarding, export and the gate the transport calls before everything else
  fail, and nothing is written. A project without a region, or an instance without one, is not
  concerned. Methods of the service that make no region check of their own rely on that gate.\<close>

theorem region_guard:
  assumes "svc_reachable ok s" and "mem_GetProject (p_ProjectID p) (s_repo s) = Inr pr"
    and "s_dataRegion s \<noteq> []" and "pr_DataRegion pr \<noteq> []" and "pr_DataRegion pr \<noteq> s_dataRegion s"
  shows "rejects s (svc_Check now p ns obj rel u cc) \<and> rejects s (svc_CheckSet rng now p ns obj rel sset cc) \<and>
    rejects s (svc_Expand now p ns obj rel) \<and> rejects s (svc_ListObjects now p ns rel u) \<and> rejects s (svc_ReadTuples now p fl) \<and>
    rejects s (DeprovisionUser now p u) \<and> rejects s (ExportSubjectGrants now p u) \<and> rejects s (svc_WriteTuples now p ops) \<and>
    rejects s (EnsureServable now p)"
proof -
  have bar: "unservable (p_ProjectID p) s" "barred (p_ProjectID p) s"
    using assms reachable_cache [OF assms(1)] by (simp_all add: barred_def unservable_def foreign_def row_settings_def)
  show ?thesis unfolding EnsureServable_def
    by (intro conjI refusedD [where I = "unservable (p_ProjectID p)", OF _ bar(1)] refused_unservable refused_ensureRegion refusedD [OF refused_WriteTuples bar(2)])
qed

definition demo_region :: service where
  "demo_region = snd (svc_CreateProject 3 ''acme'' ''Acme'' [] ''eu'' 0 (svc_WithDataRegion ''us'' demo_start))"

theorem region_guard_witness:
  "rejects demo_region (svc_Check 5 demo_ann ''workspace'' ''w1'' RoleGuest ''bob'' []) \<and>
   rejects demo_region (svc_WriteTuples 5 demo_ann []) \<and> rejects demo_region (EnsureServable 5 demo_ann)"
proof -
  have "svc_init (svc_WithDataRegion ''us'' demo_start)" by (intro svc_init_option) (simp add: demo_start_def)
  then have reach: "svc_reachable typed_only demo_region" unfolding demo_region_def
    by (intro svc_reachable.step [OF svc_reachable.init, where c = Typed]) (simp_all, rule svc_step.CreateProject)
  have "(case mem_GetProject (p_ProjectID demo_ann) (s_repo demo_region) of
      Inr pr \<Rightarrow> pr_DataRegion pr = ''eu'' | Inl _ \<Rightarrow> False) \<and> s_dataRegion demo_region = ''us''" by code_simp
  then obtain pr where pr: "mem_GetProject (p_ProjectID demo_ann) (s_repo demo_region) = Inr pr" "pr_DataRegion pr = ''eu''"
    "s_dataRegion demo_region = ''us''" by (auto split: sum.splits)
  from region_guard [OF reach pr(1), of 5 "''workspace''" "''w1''" RoleGuest "''bob''" "[]"] pr(2,3) show ?thesis by auto
qed

text \<open>The gate is not on every method: in the suspended project of the demonstration, the owner still
  changes the role of a member.\<close>

lemma suspended_role_change:
  "(case svc_UpdateMemberRole 5 demo_ann ''w1'' ''bob'' RoleAdmin demo_suspended of
      (Inr m, s') \<Rightarrow> mb_Role m = RoleAdmin \<and> s_repo s' \<noteq> s_repo demo_suspended | _ \<Rightarrow> False)"
  by code_simp

end
