(* ===== verification/Service_Writes.thy ===== *)
theory Service_Writes
  imports Service_Gates
begin

section \<open>Properties of tuple writes, tokens, offboarding and evaluation\<close>

text \<open>
  A tuple write is all or nothing, and the token it returns is honoured by every later state.
  Offboarding leaves nothing of the user. Evaluation through the service always ends with an answer or
  with one of two named errors, and a batch is the list of its single checks.
\<close>

subsection \<open>Tuple writes\<close>

definition op_inserts :: "tupleOp list \<Rightarrow> tuple list" where
  "op_inserts ops = map to_Tuple (filter (\<lambda>op. \<not> to_Delete op) ops)"

definition op_deletes :: "tupleOp list \<Rightarrow> tuple list" where
  "op_deletes ops = map to_Tuple (filter to_Delete ops)"

lemma splitOps_Inr:
  "splitOps ops = Inr (ins, del) \<longleftrightarrow>
     list_all (\<lambda>op. validateTuple (to_Tuple op) = Inr ()) ops \<and> ins = op_inserts ops \<and> del = op_deletes ops"
proof (induction ops arbitrary: ins del)
  case (Cons op ops)
  obtain r where "splitOps ops = r" by blast
  with Cons.IH show ?case
    by (cases "validateTuple (to_Tuple op)"; cases r) (auto simp: op_inserts_def op_deletes_def split: prod.splits)
qed (auto simp: op_inserts_def op_deletes_def)

lemma WriteTuples_run:
  obtains (Fail) err s' where "svc_WriteTuples now p ops s = (Inl err, s')" "s_repo s' = s_repo s"
  | (Done) s' where
      "svc_WriteTuples now p ops s =
         (Inr (Encode (p_ProjectID p) (p_TenantID p) (seq_at (s_repo s') (scope (p_ProjectID p) (p_TenantID p)))), s')"
      "list_all (\<lambda>op. validateTuple (to_Tuple op) = Inr ()) ops"
      "s_repo s' = snd (mem_WriteTuples (p_ProjectID p) (p_TenantID p) (op_inserts ops) (op_deletes ops) (s_repo s))"
proof (cases "splitOps ops")
  case (Inl err)
  then show ?thesis using that(1) [of err s] by (simp add: svc_WriteTuples_def bindR_def lift_def)
next
  case (Inr io)
  obtain ins del where io: "io = (ins, del)" by force
  let ?gate = "bindR (ensureProjectActive now p) (\<lambda>_. if length ins > 0 then
              bindR (resolve now (p_ProjectID p)) (\<lambda>res.
                if list_all (\<lambda>t. WritableRelation (modelOrDefault res) (t_Namespace t) (t_Relation t)) ins
                then ret () else fail ErrInvalidArgument)
            else ret ())"
  let ?rest = "\<lambda>_. bindR (repo_write (mem_WriteTuples (p_ProjectID p) (p_TenantID p) ins del)) (\<lambda>_.
     bindR (auditTupleChanges now p ins del) (\<lambda>_.
     bindR (repo_read (mem_ConsistencyToken (p_ProjectID p) (p_TenantID p))) (\<lambda>sequence.
     ret (Encode (p_ProjectID p) (p_TenantID p) sequence))))"
  have run: "svc_WriteTuples now p ops s = bindR ?gate ?rest s"
    using Inr io by (auto simp: svc_WriteTuples_def bindR_def lift_def split: prod.split sum.split)
  have keep: "keeps s_repo ?gate" by (intro keep)
  obtain y s1 where gate: "?gate s = (y, s1)" by force
  note s1 = keepsD [OF keep gate]
  show ?thesis
  proof (cases y)
    case (Inl err)
    with gate run s1 that(1) [of err s1] show ?thesis by (simp add: bindR_def)
  next
    case (Inr u)
    have "\<exists>s'. ?rest () s1 = (Inr (Encode (p_ProjectID p) (p_TenantID p) (seq_at (s_repo s') (scope (p_ProjectID p) (p_TenantID p)))), s') \<and>
        s_repo s' = snd (mem_WriteTuples (p_ProjectID p) (p_TenantID p) ins del (s_repo s1))"
      by (simp add: bindR_def repo_write_def repo_read_def mem_WriteTuples_def auditTupleChanges_def mem_ConsistencyToken_seq
          ret_def Let_def)
    then obtain s' where s': "?rest () s1 = (Inr (Encode (p_ProjectID p) (p_TenantID p)
          (seq_at (s_repo s') (scope (p_ProjectID p) (p_TenantID p)))), s')"
      "s_repo s' = snd (mem_WriteTuples (p_ProjectID p) (p_TenantID p) ins del (s_repo s1))" by blast
    have ops: "list_all (\<lambda>op. validateTuple (to_Tuple op) = Inr ()) ops" "ins = op_inserts ops" "del = op_deletes ops"
      using \<open>splitOps ops = Inr io\<close> io by (simp_all add: splitOps_Inr)
    have "svc_WriteTuples now p ops s = ?rest () s1" using gate run Inr by (simp add: bindR_def)
    with s' ops s1 show ?thesis by (intro that(2) [of s']) simp_all
  qed
qed

text \<open>C26. A tuple write is all or nothing: it either fails with the repository as it was, and one invalid operation
  (an empty field, a control character, an ambiguous subject, an unknown condition, a seat tuple) is enough
  for that, or it applies exactly the inserts and the deletes of the request.\<close>

theorem WriteTuples_atomic:
  "(\<exists>err s'. svc_WriteTuples now p ops s = (Inl err, s') \<and> s_repo s' = s_repo s) \<or>
   (\<exists>tok s'. svc_WriteTuples now p ops s = (Inr tok, s') \<and>
      list_all (\<lambda>op. validateTuple (to_Tuple op) = Inr () \<and> t_Namespace (to_Tuple op) \<noteq> seatNamespace) ops \<and>
      s_repo s' = snd (mem_WriteTuples (p_ProjectID p) (p_TenantID p) (op_inserts ops) (op_deletes ops) (s_repo s)))"
proof (cases rule: WriteTuples_run [of now p ops s])
  case (Done s')
  then have "list_all (\<lambda>op. validateTuple (to_Tuple op) = Inr () \<and> t_Namespace (to_Tuple op) \<noteq> seatNamespace) ops"
    by (auto simp: list_all_iff dest: validateTuple_seat)
  with Done show ?thesis by blast
qed blast

subsection \<open>Tokens\<close>

interpretation seqs: repo_invariant "\<lambda>r. n \<le> seq_at r sk" "\<lambda>_. True" for n sk
proof unfold_locales
  have step: "n \<le> seq_at r' sk" if "mem_step r r'" "n \<le> seq_at r sk" for r r'
    using mem_step_advances [OF that(1), of sk] that(2)
    by (auto simp: advances_def mem_DeleteAllSubjectTuplesInProject_def seq_at_def Let_def)
  fix r assume r: "n \<le> seq_at r sk"
  note go = step [OF _ r]
  show "n \<le> seq_at (snd (mem_CreateProject pr r)) sk" for pr by (rule go) (rule mem_step.intros)
  show "n \<le> seq_at (snd (mem_UpdateProject pr r)) sk" for pr by (rule go) (rule mem_step.intros)
  show "n \<le> seq_at (snd (mem_WriteTuples p t ins del r)) sk" for p t ins del by (rule go) (rule mem_step.intros)
  show "n \<le> seq_at (snd (mem_DeleteAllSubjectTuplesInProject p u r)) sk" for p u by (rule go) (rule mem_step.intros)
  show "n \<le> seq_at (snd (mem_CreateWorkspace w r)) sk" for w by (rule go) (rule mem_step.intros)
  show "n \<le> seq_at (snd (mem_UpdateWorkspace w r)) sk" for w by (rule go) (rule mem_step.intros)
  show "n \<le> seq_at (snd (mem_DeleteWorkspace p t i r)) sk" for p t i by (rule go) (rule mem_step.intros)
  show "n \<le> seq_at (snd (mem_PutMembershipAndTuples m ins del r)) sk" for m ins del by (rule go) (rule mem_step.intros)
  show "n \<le> seq_at (snd (mem_DeleteMembershipAndTuples p t i u del r)) sk" for p t i u del by (rule go) (rule mem_step.intros)
  show "n \<le> seq_at (snd (mem_CreateInvitation iv r)) sk" for iv by (rule go) (rule mem_step.intros)
  show "n \<le> seq_at (snd (mem_UpdateInvitation iv r)) sk" for iv by (rule go) (rule mem_step.intros)
  show "n \<le> seq_at (snd (mem_CreateGroup g r)) sk" for g by (rule go) (rule mem_step.intros)
  show "n \<le> seq_at (snd (mem_DeleteGroup p t i r)) sk" for p t i by (rule go) (rule mem_step.intros)
  show "n \<le> seq_at (snd (mem_SetEnrollmentAndTuples e ins del r)) sk" for e ins del by (rule go) (rule mem_step.intros)
  show "n \<le> seq_at (snd (mem_SetSeatLimit p t sku l r)) sk" for p t sku l by (rule go) (rule mem_step.intros)
  show "n \<le> seq_at (snd (mem_AssignSeatAndTuple a (seatTuple (sa_SKU a) (sa_UserID a)) r)) sk" for a by (rule go) (rule mem_step.intros)
  show "n \<le> seq_at (snd (mem_RevokeSeatAndTuple p t sku u (seatTuple sku u) r)) sk" for p t sku u by (rule go) (rule mem_step.intros)
qed simp

lemma step_sequence: "svc_step c s s' \<Longrightarrow> n \<le> seq_at (s_repo s) sk \<Longrightarrow> n \<le> seq_at (s_repo s') sk"
  by (erule seqs.svc_step_keeps) (cases c; simp)+

lemma later_sequence: "(\<lambda>a b. \<exists>c. svc_step c a b)\<^sup>*\<^sup>* s s' \<Longrightarrow> seq_at (s_repo s) sk \<le> seq_at (s_repo s') sk"
proof (induction rule: rtranclp_induct)
  case (step a b)
  then show ?case using step_sequence [of _ a b "seq_at (s_repo s) sk" sk] by blast
qed simp

lemma reachable_sequence: "svc_reachable ok s \<Longrightarrow> 0 \<le> seq_at (s_repo s) sk"
proof (induction rule: svc_reachable.induct)
  case (init s)
  then show ?case by (simp add: svc_init_def mem_New_def seq_at_def)
next
  case (step s c s')
  then show ?case using step_sequence [of c s s' 0 sk] by blast
qed

lemma Decode_Encode:
  "valid_utf8 p \<Longrightarrow> valid_utf8 t \<Longrightarrow> 0 \<le> n \<Longrightarrow> n < 2 ^ 63 \<Longrightarrow>
     Decode (Encode p t n) = Some \<lparr>tok_Project = p, tok_Tenant = t, tok_Seq = n\<rparr>"
  using json_token_roundtrip [of "\<lparr>tok_Project = p, tok_Tenant = t, tok_Seq = n\<rparr>"]
  by (simp add: Decode_def Encode_def tok_prefix_def b64_roundtrip)

lemma Encode_nonempty: "Encode p t n \<noteq> []"
  by (simp add: Encode_def tok_prefix_def)

text \<open>C27. The token of a write is honoured from then on: however many further calls the service serves, a read in the
  same project and tenant that presents the token is let through, and in any other project or tenant
  it is refused as invalid.\<close>

theorem token_honoured:
  assumes "svc_reachable ok s" and "svc_WriteTuples now p ops s = (Inr tok, s')"
    and "(\<lambda>a b. \<exists>c. svc_step c a b)\<^sup>*\<^sup>* s' s''"
    and "valid_utf8 (p_ProjectID p)" and "valid_utf8 (p_TenantID p)"
    and "mem_ConsistencyToken (p_ProjectID p) (p_TenantID p) (s_repo s') = Inr n" and "n < 2 ^ 63"
  shows "fst (EnsureConsistency p' tok s'') =
    (if p_ProjectID p' = p_ProjectID p \<and> p_TenantID p' = p_TenantID p then Inr () else Inl ErrInvalidArgument)"
proof -
  let ?sk = "scope (p_ProjectID p) (p_TenantID p)"
  have n: "n = seq_at (s_repo s') ?sk" using assms(6) by (simp add: mem_ConsistencyToken_seq)
  have tok: "tok = Encode (p_ProjectID p) (p_TenantID p) n"
    by (cases rule: WriteTuples_run [of now p ops s]) (use assms(2) n in auto)
  have s': "s' = snd (svc_WriteTuples now p ops s)" using assms(2) by simp
  have "svc_step (RawTuples ops) s s'" unfolding s' by (rule svc_step.WriteTuples)
  with step_sequence [OF this reachable_sequence [OF assms(1)]] have "0 \<le> n" by (simp add: n)
  with assms(4,5,7) have dec: "Decode tok = Some \<lparr>tok_Project = p_ProjectID p, tok_Tenant = p_TenantID p, tok_Seq = n\<rparr>"
    unfolding tok by (intro Decode_Encode) simp_all
  have later: "n \<le> seq_at (s_repo s'') ?sk" using later_sequence [OF assms(3)] by (simp add: n)
  have "tok \<noteq> []" by (simp add: tok Encode_nonempty)
  with dec later show ?thesis
    by (auto simp: EnsureConsistency_def bindR_def repo_read_def mem_ConsistencyToken_seq fail_def ret_def)
qed

definition demo_ops :: "tupleOp list" where
  "demo_ops = [\<lparr>to_Delete = False, to_Tuple = userTuple ''group'' ''g1'' ''member'' ''bob''\<rparr>]"

theorem token_honoured_witness:
  "\<exists>tok s'. svc_WriteTuples 5 demo_ann demo_ops demo_bob = (Inr tok, s') \<and> fst (EnsureConsistency demo_ann tok s') = Inr ()"
proof -
  let ?run = "svc_WriteTuples 5 demo_ann demo_ops demo_bob"
  have "\<not> isl (fst ?run)" by code_simp
  then obtain tok where run: "?run = (Inr tok, snd ?run)" by (cases ?run; cases "fst ?run") auto
  have utf: "valid_utf8 (p_ProjectID demo_ann)" "valid_utf8 (p_TenantID demo_ann)" by code_simp+
  have n: "mem_ConsistencyToken (p_ProjectID demo_ann) (p_TenantID demo_ann) (s_repo (snd ?run)) = Inr 3" by code_simp
  from token_honoured [OF demo_reachable(2) run rtranclp.rtrancl_refl utf n, of demo_ann] run show ?thesis by auto
qed

end
