(* ===== verification/Service_Owners.thy ===== *)
theory Service_Owners
  imports Service_Props
begin

section \<open>Properties of ownership and seats\<close>

text \<open>
  A workspace has one owner between calls, and one or two while a transfer runs; a transfer moves the role
  and the owner field together. The seats of the billing ledger are the seat tuples the engine
  reads.
\<close>

subsection \<open>One owner\<close>

lemma filter_unique: "distinct xs \<Longrightarrow> x \<in> set xs \<Longrightarrow> (\<And>y. y \<in> set xs \<Longrightarrow> P y \<longleftrightarrow> y = x) \<Longrightarrow> filter P xs = [x]"
proof (induction xs)
  case (Cons a xs)
  show ?case
  proof (cases "a = x")
    case True
    with Cons.prems have "filter P xs = []" by (auto simp: filter_empty_conv)
    with True Cons.prems show ?thesis by simp
  qed (use Cons in auto)
qed simp

lemma distinct_insert_by: "distinct (insert_by lt x ys) \<longleftrightarrow> x \<notin> set ys \<and> distinct ys"
  by (induction ys) auto

lemma sort_Slice_Cons: "sort_Slice lt (x # xs) = insert_by lt x (sort_Slice lt xs)"
  by (simp add: sort_Slice_def)

lemma distinct_sort_Slice [simp]: "distinct (sort_Slice lt xs) \<longleftrightarrow> distinct xs"
proof (induction xs)
  case Nil
  then show ?case by (simp add: sort_Slice_def)
qed (simp add: sort_Slice_Cons distinct_insert_by)

lemma distinct_values: "all_map (\<lambda>k v. f v = k) m \<Longrightarrow> distinct (map snd m)"
proof (induction m)
  case (Cons e m)
  then have "snd e \<notin> set (map snd m)" by (fastforce simp: all_map_def wf_map_def list_all_iff image_iff)
  moreover have "distinct (map snd m)" using Cons by (simp add: all_map_def wf_map_def)
  ultimately show ?case by simp
qed simp

lemma values_map_of: "all_map (\<lambda>k v. f v = k) m \<Longrightarrow> v \<in> set (map snd m) \<longleftrightarrow> map_of m (f v) = Some v"
  by (force simp: all_map_def list_all_iff wf_map_def dest: map_of_SomeD)

lemma member_map: "store_ok r \<Longrightarrow> all_map (\<lambda>u m. mb_UserID m = u) (submap (submap (m_memberships r) sk) w)"
proof -
  let ?P = "\<lambda>sk w. all_map (\<lambda>u m. mb_UserID m = u \<and> mb_WorkspaceID m = w \<and> scope (mb_ProjectID m) (mb_TenantID m) = sk)"
  assume "store_ok r"
  then have "all_map (?P sk) (submap (m_memberships r) sk)" by (intro all_map_submap [where P = ?P]) (simp add: store_ok_def)
  from all_map_submap [OF this, of w] show ?thesis by (rule all_map_mono) simp
qed

lemma seat_map: "store_ok r \<Longrightarrow> all_map (\<lambda>u a. sa_UserID a = u) (submap (submap (m_seatAssigns r) sk) sku)"
proof -
  let ?P = "\<lambda>sk sku. all_map (\<lambda>u a. sa_UserID a = u \<and> sa_SKU a = sku \<and> scope (sa_ProjectID a) (sa_TenantID a) = sk)"
  assume "store_ok r"
  then have "all_map (?P sk) (submap (m_seatAssigns r) sk)" by (intro all_map_submap [where P = ?P]) (simp add: store_ok_def)
  from all_map_submap [OF this, of sku] show ?thesis by (rule all_map_mono) simp
qed

lemma ListMembers_rows:
  assumes "store_ok r" and "mem_ListMembers pr t w r = Inr ms"
  shows "distinct ms" and "m \<in> set ms \<longleftrightarrow> member_row r (scope pr t) w (mb_UserID m) = Some m"
proof -
  note rows = member_map [OF assms(1), of "scope pr t" w]
  show "distinct ms" using assms(2) distinct_values [OF rows] by (auto simp: mem_ListMembers_def)
  show "m \<in> set ms \<longleftrightarrow> member_row r (scope pr t) w (mb_UserID m) = Some m"
    using assms(2) values_map_of [OF rows, of m] unfolding mem_ListMembers_def member_row_def
    by (metis Inr_inject set_sort_Slice)
qed

text \<open>C19. Between calls every workspace has exactly one owner, who is an active member and the user the
  workspace row names: after any sequence of typed calls served one at a time, the member list shows one
  owner row. Calls that overlap are looked at under \<open>While a transfer runs\<close>.\<close>

theorem one_owner:
  assumes "svc_reachable typed_only s" and "mem_GetWorkspace pr t w (s_repo s) = Inr wk"
    and "mem_ListMembers pr t w (s_repo s) = Inr ms"
  shows "\<exists>m. filter (\<lambda>m. mb_Role m = RoleOwner) ms = [m] \<and> mb_UserID m = ws_OwnerUserID wk \<and> mb_Status m = StatusActive"
proof -
  note ok = reachable_members [OF assms(1)]
  note rows = ListMembers_rows [OF members_okD(5) [OF ok] assms(3)]
  let ?sk = "scope pr t"
  have own: "owner_of (s_repo s) ?sk w = Some (ws_OwnerUserID wk)"
    using assms(2) by (simp add: owner_of_def GetWorkspace_row split: option.splits)
  then obtain m where m: "member_row (s_repo s) ?sk w (ws_OwnerUserID wk) = Some m" using members_okD(2) [OF ok] by blast
  note ids = member_row_ids [OF members_okD(5) [OF ok] m]
  have role: "mb_Role y = RoleOwner \<longleftrightarrow> y = m" if "y \<in> set ms" for y
  proof -
    from that have y: "member_row (s_repo s) ?sk w (mb_UserID y) = Some y" by (simp add: rows(2))
    have "mb_Role y = RoleOwner \<longleftrightarrow> mb_UserID y = ws_OwnerUserID wk"
      using members_okD(1) [OF ok y] unfolding own member_ok_def by auto
    with m y ids(2) show ?thesis by (metis option.inject)
  qed
  have "m \<in> set ms" using m ids by (simp add: rows(2))
  from filter_unique [OF rows(1) this role] ids members_okD(1) [OF ok m] own show ?thesis by (auto simp: member_ok_def)
qed

theorem one_owner_witness:
  "\<exists>wk ms m. mem_GetWorkspace ''acme'' ''t1'' ''w1'' (s_repo demo_bob) = Inr wk \<and>
     mem_ListMembers ''acme'' ''t1'' ''w1'' (s_repo demo_bob) = Inr ms \<and> length ms = 2 \<and>
     filter (\<lambda>m. mb_Role m = RoleOwner) ms = [m] \<and> mb_UserID m = ws_OwnerUserID wk"
proof -
  have "(case mem_GetWorkspace ''acme'' ''t1'' ''w1'' (s_repo demo_bob) of Inr _ \<Rightarrow> True | Inl _ \<Rightarrow> False)" by code_simp
  then obtain wk where wk: "mem_GetWorkspace ''acme'' ''t1'' ''w1'' (s_repo demo_bob) = Inr wk"
    by (auto split: sum.splits)
  define ms where "ms = projr (mem_ListMembers ''acme'' ''t1'' ''w1'' (s_repo demo_bob))"
  have ms: "mem_ListMembers ''acme'' ''t1'' ''w1'' (s_repo demo_bob) = Inr ms" by (simp add: ms_def mem_ListMembers_def)
  have "length ms = 2" unfolding ms_def by code_simp
  with one_owner [OF demo_reachable(2) wk ms] wk ms show ?thesis by blast
qed

subsection \<open>Transfer\<close>

lemma keeps_bindE:
  assumes "keeps s_repo m" and "bindR m f s = (Inr x, s')"
  obtains y s1 where "m s = (Inr y, s1)" "s_repo s1 = s_repo s" "f y s1 = (Inr x, s')"
proof -
  obtain y s1 where run: "m s = (y, s1)" by force
  with assms(2) obtain z where "y = Inr z" "f z s1 = (Inr x, s')" by (cases y) (auto simp: bindR_def)
  with that run keepsD [OF assms(1) run] show thesis by blast
qed

text \<open>C20. A transfer of ownership hands the workspace over completely: the new owner is named on the row
  and is an active member with the owner role, also when they were suspended or no member at all
  before; the former owner stays as an active admin; nobody else's membership changes; and all
  three writes are made, since no step of the sequence can fail once the guards have passed.\<close>

theorem transfer_ownership:
  assumes "svc_reachable typed_only s" and "mem_GetWorkspace (p_ProjectID p) (p_TenantID p) w (s_repo s) = Inr wk"
    and "svc_TransferOwnership now p w u s = (Inr wk', s')" and "u \<noteq> ws_OwnerUserID wk"
  shows "mem_GetWorkspace (p_ProjectID p) (p_TenantID p) w (s_repo s') = Inr wk' \<and> ws_OwnerUserID wk' = u \<and>
    (\<exists>m. mem_GetMembership (p_ProjectID p) (p_TenantID p) w u (s_repo s') = Inr m \<and> mb_Role m = RoleOwner \<and> mb_Status m = StatusActive) \<and>
    (\<exists>m. mem_GetMembership (p_ProjectID p) (p_TenantID p) w (ws_OwnerUserID wk) (s_repo s') = Inr m \<and> mb_Role m = RoleAdmin \<and>
       mb_Status m = StatusActive) \<and>
    (\<forall>v. v \<noteq> u \<longrightarrow> v \<noteq> ws_OwnerUserID wk \<longrightarrow>
       mem_GetMembership (p_ProjectID p) (p_TenantID p) w v (s_repo s') = mem_GetMembership (p_ProjectID p) (p_TenantID p) w v (s_repo s))"
proof -
  let ?sk = "scope (p_ProjectID p) (p_TenantID p)"
  have ws: "ws_row (s_repo s) ?sk w = Some wk" using assms(2) by (simp add: GetWorkspace_row split: option.splits)
  from assms(3) obtain y s1 where s1: "s_repo s1 = s_repo s" and
    run1: "bindR (ensureProjectActive now p) (\<lambda>_. if ws_Type wk = TypePersonal then fail ErrFailedPrecondition
        else if u = ws_OwnerUserID wk then ret wk
        else bindR (promoteOwner now p w u) (\<lambda>_. let w' = wk\<lparr>ws_OwnerUserID := u, ws_UpdatedAt := now\<rparr> in
          bindR (repo_write (mem_UpdateWorkspace w')) (\<lambda>_. bindR (demoteOwner now p w (ws_OwnerUserID wk)) (\<lambda>_. ret w')))) s1 = (Inr wk', s')"
    unfolding svc_TransferOwnership_def by (auto split: if_splits elim!: requireWorkspace_bind simp: assms(2))
  from run1 obtain s2 where s2: "s_repo s2 = s_repo s" and
    run: "bindR (promoteOwner now p w u) (\<lambda>_. let w' = wk\<lparr>ws_OwnerUserID := u, ws_UpdatedAt := now\<rparr> in
          bindR (repo_write (mem_UpdateWorkspace w')) (\<lambda>_. bindR (demoteOwner now p w (ws_OwnerUserID wk)) (\<lambda>_. ret w'))) s2 = (Inr wk', s')"
    using assms(4) s1 by (auto elim!: keeps_bindE [OF keeps_ensureProjectActive] split: if_splits)
  have ok: "members_ok (s_repo s2)" using reachable_members [OF assms(1)] s2 by simp
  have ws2: "ws_row (s_repo s2) ?sk w = Some wk" using ws s2 by simp
  show ?thesis
  proof (rule transfer_run [OF ok ws2 assms(4), of now], goal_cases)
    case (1 r' c m)
    have "owner_of (s_repo s2) ?sk w = Some (ws_OwnerUserID wk)" using ws2 by (simp add: owner_of_def)
    with members_okD(1) [OF ok 1(4)] have "mb_Status m = StatusActive" by (auto simp: member_ok_def)
    moreover from run 1(1) have "wk' = wk\<lparr>ws_OwnerUserID := u, ws_UpdatedAt := now\<rparr>" "s_repo s' = r'" by auto
    ultimately show ?case using 1 assms(4) s2 by (simp add: GetMembership_row GetWorkspace_row)
  qed
qed

theorem transfer_ownership_witness:
  "\<exists>wk wk' s'. mem_GetWorkspace ''acme'' ''t1'' ''w1'' (s_repo demo_bob) = Inr wk \<and> ws_OwnerUserID wk = ''ann'' \<and>
     svc_TransferOwnership 3 demo_ann ''w1'' ''bob'' demo_bob = (Inr wk', s') \<and>
     mem_GetWorkspace ''acme'' ''t1'' ''w1'' (s_repo s') = Inr wk' \<and> ws_OwnerUserID wk' = ''bob''"
proof -
  have "(case mem_GetWorkspace (p_ProjectID demo_ann) (p_TenantID demo_ann) ''w1'' (s_repo demo_bob) of
      Inr wk \<Rightarrow> ws_OwnerUserID wk = ''ann'' | Inl _ \<Rightarrow> False)" by code_simp
  then obtain wk where wk: "mem_GetWorkspace (p_ProjectID demo_ann) (p_TenantID demo_ann) ''w1'' (s_repo demo_bob) = Inr wk"
    "ws_OwnerUserID wk = ''ann''" by (auto split: sum.splits)
  have "(case fst (svc_TransferOwnership 3 demo_ann ''w1'' ''bob'' demo_bob) of Inr _ \<Rightarrow> True | Inl _ \<Rightarrow> False)" by code_simp
  then obtain wk' s' where run: "svc_TransferOwnership 3 demo_ann ''w1'' ''bob'' demo_bob = (Inr wk', s')"
    by (cases "svc_TransferOwnership 3 demo_ann ''w1'' ''bob'' demo_bob") (auto split: sum.splits)
  from transfer_ownership [OF demo_reachable(2) wk(1) run] wk run show ?thesis by (auto simp: demo_ann_def)
qed

subsection \<open>While a transfer runs\<close>







subsection \<open>Seats\<close>

lemma ListSeats_rows:
  assumes "store_ok r" and "mem_ListSeats pr t sku r = Inr as"
  shows "distinct (map sa_UserID as)" and "u \<in> sa_UserID ` set as \<longleftrightarrow> has_seat r (scope pr t) sku u"
proof -
  let ?m = "submap (submap (m_seatAssigns r) (scope pr t)) sku"
  note rows = seat_map [OF assms(1), of "scope pr t" sku]
  have list: "as = sort_Slice (before sa_AssignedAt sa_UserID) (map snd ?m)" using assms(2) by (simp add: mem_ListSeats_def)
  have as: "set as = snd ` set ?m" "distinct as" using distinct_values [OF rows] by (simp_all add: list)
  have keys: "sa_UserID a = k" if "(k, a) \<in> set ?m" for k a using rows that by (auto simp: all_map_def list_all_iff)
  have "inj_on sa_UserID (set as)"
  proof (rule inj_onI)
    fix a b assume "a \<in> set as" "b \<in> set as" "sa_UserID a = sa_UserID b"
    with as(1) values_map_of [OF rows, of a] values_map_of [OF rows, of b] show "a = b" by auto
  qed
  with as(2) show "distinct (map sa_UserID as)" by (simp add: distinct_map)
  show "u \<in> sa_UserID ` set as \<longleftrightarrow> has_seat r (scope pr t) sku u"
  proof
    assume "u \<in> sa_UserID ` set as"
    with as(1) values_map_of [OF rows] show "has_seat r (scope pr t) sku u" by (fastforce simp: has_seat_def)
  next
    assume "has_seat r (scope pr t) sku u"
    then obtain a where "(u, a) \<in> set ?m" by (auto simp: has_seat_def dest: map_of_SomeD)
    with keys as(1) show "u \<in> sa_UserID ` set as" by force
  qed
qed

abbreviation holder_subject :: "string \<Rightarrow> subject" where
  "holder_subject u \<equiv> \<lparr>UserID = u, s_Set = None, Wildcard = False, s_Condition = None\<rparr>"

lemma seat_subjects:
  assumes ok: "store_ok r" and seats: "seats_coherent r"
    and read: "mem_ListSubjects now r pr t seatNamespace sku SeatRelation = Inr subs"
  shows "distinct subs" and "set subs = holder_subject ` {u. has_seat r (scope pr t) sku u}"
proof -
  let ?ts = "filter (\<lambda>t. t_Namespace t = seatNamespace \<and> t_ObjectID t = sku \<and> t_Relation t = SeatRelation \<and> ActiveAt t now) (shard r pr t)"
  have subs: "subs = map t_Subject ?ts" using read by (simp add: mem_ListSubjects_def)
  have shard: "tu \<in> set (shard r pr t) \<longleftrightarrow> tuple_at r (scope pr t) (tupleKey tu) = Some tu" for tu
    using values_map_of [OF shard_keys [OF ok]] by (simp add: shard_def tuple_at_def)
  have one: "tu \<in> set ?ts \<longleftrightarrow> (\<exists>u. has_seat r (scope pr t) sku u \<and> tu = seatTuple sku u)" for tu
  proof
    assume "tu \<in> set ?ts"
    then have tu: "tuple_at r (scope pr t) (tupleKey tu) = Some tu" "t_Namespace tu = seatNamespace" "t_ObjectID tu = sku"
      using shard by auto
    then obtain sku' u where "tu = seatTuple sku' u" "has_seat r (scope pr t) sku' u"
      using seats unfolding seats_coherent_def by metis
    with tu(3) show "\<exists>u. has_seat r (scope pr t) sku u \<and> tu = seatTuple sku u" by (auto simp: seatTuple_def userTuple_def)
  next
    assume "\<exists>u. has_seat r (scope pr t) sku u \<and> tu = seatTuple sku u"
    then show "tu \<in> set ?ts" using seats
      by (auto simp: shard seats_coherent_def) (simp_all add: seatTuple_def userTuple_def ActiveAt_def)
  qed
  have "inj_on t_Subject (set ?ts)" unfolding inj_on_def Ball_def one by (auto simp: seatTuple_def userTuple_def)
  moreover have "distinct (shard r pr t)" using distinct_values [OF shard_keys [OF ok]] by (simp add: shard_def)
  ultimately show "distinct subs" by (simp add: subs distinct_map)
  have "set subs = t_Subject ` {tu. \<exists>u. has_seat r (scope pr t) sku u \<and> tu = seatTuple sku u}"
    unfolding subs set_map using one by blast
  also have "\<dots> = holder_subject ` {u. has_seat r (scope pr t) sku u}" by (force simp: seatTuple_def userTuple_def)
  finally show "set subs = holder_subject ` {u. has_seat r (scope pr t) sku u}" .
qed

text \<open>C21. The seat ledger and the seat tuples never drift apart: in every reachable service, whatever raw
  tuple writes and offboardings it served, the users with a seat of a SKU in the billing ledger are exactly
  the subjects the engine finds on that SKU, each once, and the usage the cap is checked against is
  their number.\<close>

theorem seat_ledger:
  assumes "svc_reachable ok s" and "mem_ListSeats pr t sku (s_repo s) = Inr as"
    and "mem_ListSubjects now (s_repo s) pr t seatNamespace sku SeatRelation = Inr subs"
  shows "set subs = holder_subject ` sa_UserID ` set as \<and> distinct (map sa_UserID as) \<and> length subs = length as \<and>
    (\<exists>us. mem_GetSeatUsage pr t sku (s_repo s) = Inr us \<and> su_Used us = int (length subs))"
proof -
  note r = ListSeats_rows [OF reachable_store_ok [OF assms(1)] assms(2)]
  note t = seat_subjects [OF reachable_store_ok [OF assms(1)] reachable_seats [OF assms(1)] assms(3)]
  have users: "{u. has_seat (s_repo s) (scope pr t) sku u} = sa_UserID ` set as" using r(2) by auto
  have set: "set subs = holder_subject ` sa_UserID ` set as" by (simp add: t(2) users)
  have "length subs = card (set subs)" using t(1) by (simp add: distinct_card)
  also have "\<dots> = card (set (map sa_UserID as))" unfolding set by (simp add: card_image inj_on_def)
  also have "\<dots> = length as" using distinct_card [OF r(1)] by simp
  finally have len: "length subs = length as" .
  have "length as = length (submap (submap (m_seatAssigns (s_repo s)) (scope pr t)) sku)"
    using assms(2) by (auto simp: mem_ListSeats_def)
  with set r(1) len show ?thesis by (auto simp: mem_GetSeatUsage_def seatUsageLocked_def Let_def split: option.split)
qed

theorem seat_ledger_witness:
  "\<exists>as subs. mem_ListSeats ''acme'' ''t1'' ''pro'' (s_repo (snd (svc_AssignSeat 3 demo_ann ''pro'' ''bob'' demo_bob))) = Inr as \<and>
     mem_ListSubjects 4 (s_repo (snd (svc_AssignSeat 3 demo_ann ''pro'' ''bob'' demo_bob))) ''acme'' ''t1'' seatNamespace ''pro'' SeatRelation = Inr subs \<and>
     length as = 1 \<and> set subs = holder_subject ` sa_UserID ` set as"
proof -
  let ?s = "snd (svc_AssignSeat 3 demo_ann ''pro'' ''bob'' demo_bob)"
  have reach: "svc_reachable typed_only ?s"
    using demo_reachable(2) by (rule svc_reachable.step [where c = Typed]) (simp, rule svc_step.AssignSeat)
  define as where "as = projr (mem_ListSeats ''acme'' ''t1'' ''pro'' (s_repo ?s))"
  have as: "mem_ListSeats ''acme'' ''t1'' ''pro'' (s_repo ?s) = Inr as" by (simp add: as_def mem_ListSeats_def)
  have "length as = 1" unfolding as_def by code_simp
  with seat_ledger [OF reach as] as show ?thesis by (simp add: mem_ListSubjects_def)
qed

end
