(* ===== verification/Service_Eval.thy ===== *)
theory Service_Eval
  imports Service_Gates Service_Owners
begin

section \<open>Properties of evaluation through the service\<close>

text \<open>
  The cache of the resolver is invisible in the answers: two services with the same repository and
  the same settings decide every check alike. Hence a batch is the list of its single checks, and
  every check ends with a decision or with one of two named errors.
\<close>

definition same_view :: "service \<Rightarrow> service \<Rightarrow> bool" where
  "same_view s s1 \<longleftrightarrow> s_repo s1 = s_repo s \<and> settings s1 = settings s \<and> cache_current s \<and> cache_current s1"

lemma resolve_same:
  assumes "same_view s s1"
  obtains e e1 s' s1' where "resolve now i s = (Inr e, s')" "resolve now i s1 = (Inr e1, s1')"
    "entry_settings e1 = entry_settings e" "rs_model e1 = rs_model e" "same_view s' s1'"
proof -
  from assms have cc: "cache_current s" "cache_current s1" and repo: "s_repo s1 = s_repo s" and set: "settings s1 = settings s"
    by (simp_all add: same_view_def)
  obtain e s' where e: "resolve now i s = (Inr e, s')" "entry_settings e = row_settings i (s_repo s)"
    "map_option (\<lambda>e. rs_model e) (case resolver_load 0 i (s_repo s) of Inr e \<Rightarrow> Some e | Inl _ \<Rightarrow> None) = Some (rs_model e)"
    "s_repo s' = s_repo s" "cache_current s'" using resolve_row [OF cc(1), of now i] by metis
  obtain e1 s1' where e1: "resolve now i s1 = (Inr e1, s1')" "entry_settings e1 = row_settings i (s_repo s1)"
    "map_option (\<lambda>e. rs_model e) (case resolver_load 0 i (s_repo s1) of Inr e \<Rightarrow> Some e | Inl _ \<Rightarrow> None) = Some (rs_model e1)"
    "s_repo s1' = s_repo s1" "cache_current s1'" using resolve_row [OF cc(2), of now i] by metis
  have "settings s' = settings s" "settings s1' = settings s1"
    using settings_resolve [of now i s] settings_resolve [of now i s1] e(1) e1(1) by simp_all
  then have "same_view s' s1'" using e(4,5) e1(4,5) repo set by (simp add: same_view_def)
  moreover have "rs_model e1 = rs_model e" using e(3) e1(3) unfolding repo by (metis option.inject)
  moreover have "entry_settings e1 = entry_settings e" by (simp add: e(2) e1(2) repo)
  ultimately show thesis using that e(1) e1(1) by blast
qed

lemma engine_same: "same_view s s1 \<Longrightarrow> svc_engine now s1 = svc_engine now s"
proof -
  assume view: "same_view s s1"
  have "fst (ModelFor now i s1) = fst (ModelFor now i s)" for i
    by (rule resolve_same [OF view, of now i]) (simp add: ModelFor_def bindR_def ret_def modelOrDefault_def)
  with view show ?thesis by (simp add: svc_engine_def same_view_def settings_def)
qed

lemma evaluation_same:
  assumes view: "same_view s s1"
    and f: "\<And>res res1 s s1. same_view s s1 \<Longrightarrow> entry_settings res1 = entry_settings res \<Longrightarrow> rs_model res1 = rs_model res \<Longrightarrow>
      fst (f res1 s1) = fst (f res s)"
  shows "fst (bindR (resolve now i) (\<lambda>res. bindR (regionServable res) (\<lambda>_. f res)) s1) =
    fst (bindR (resolve now i) (\<lambda>res. bindR (regionServable res) (\<lambda>_. f res)) s)"
proof (rule resolve_same [OF view, of now i])
  fix e e1 s' s1'
  assume e: "resolve now i s = (Inr e, s')" "resolve now i s1 = (Inr e1, s1')"
    "entry_settings e1 = entry_settings e" "rs_model e1 = rs_model e" "same_view s' s1'"
  then have "s_dataRegion s1' = s_dataRegion s'" by (simp add: same_view_def settings_def)
  with e f [OF e(5,3,4)] show ?thesis by (simp add: bindR_def regionServable_def entry_settings_def)
qed

lemma Check_same:
  assumes "same_view s s1"
  shows "fst (svc_Check now p ns obj rel u cc s1) = fst (svc_Check now p ns obj rel u cc s)"
proof -
  let ?f = "\<lambda>res. if rs_suspended res then ret False
        else (\<lambda>s. (mapBudgetErr (fst (CheckWithModel (svc_engine now s) None (modelOrDefault res) (p_ProjectID p) (p_TenantID p)
                      ns obj rel u cc (rs_maxCheckReads res))), s))"
  have "fst (?f res1 s1) = fst (?f res s)"
    if "same_view s s1" "entry_settings res1 = entry_settings res" "rs_model res1 = rs_model res" for res res1 s s1
    using that engine_same [OF that(1), of now] by (simp add: entry_settings_def modelOrDefault_def ret_def)
  note eq = evaluation_same [OF assms, of ?f now "p_ProjectID p", OF this]
  show ?thesis
    by (cases "ns = [] \<or> obj = [] \<or> rel = [] \<or> u = []")
      (simp_all only: svc_Check_def if_True if_False fail_def fst_conv fst_withDecisionLog eq)
qed

lemma Check_view:
  assumes "cache_current s"
  shows "same_view s (snd (svc_Check now p ns obj rel u cc s))"
  using assms keeps_snd [OF keeps_svc_Check] cache.I_evaluations(1) [of now p ns obj rel u cc]
    config.I_evaluations(1) [of "settings s" now p ns obj rel u cc]
  by (simp add: same_view_def preserves_def)

subsection \<open>Every check ends\<close>

lemma reader_svc_engine: "reader (svc_engine now s) = mem_ListSubjects now (s_repo s)"
  by (simp add: svc_engine_def WithMaxListObjects_def WithMaxReads_def NewEngine_def)

lemma budget_svc_engine: "effectiveMaxReads (svc_engine now s) mx > 0 \<Longrightarrow> mx > 0 \<or> s_maxCheckReads s > 0"
  by (auto simp: effectiveMaxReads_def svc_engine_def WithMaxListObjects_def WithMaxReads_def NewEngine_def split: if_splits)

lemma CheckWithModel_ends:
  assumes "\<And>ns obj rel. \<exists>subs. reader e p t ns obj rel = Inr subs"
    and "fst (CheckWithModel e b m p t ns obj rel u cc mx) = Inl err"
  shows "err = ErrEvalBudgetExceeded" and "effectiveMaxReads e mx > 0"
proof -
  let ?st = "newEvalState b (effectiveMaxReads e mx)"
  obtain st' where run: "check e m p t \<lparr>q_user = u, q_set = None\<rparr> cc 0 ns obj rel False ?st = (Inl err, st')"
    using assms(2) by (auto simp: CheckWithModel_def split: prod.splits)
  have "reader e p t ns' obj' rel' \<noteq> Inl err" for ns' obj' rel' using assms(1) [of ns' obj' rel'] by auto
  with check_budget [of e p t ?st m "\<lparr>q_user = u, q_set = None\<rparr>" cc 0 ns obj rel False] run
  show "err = ErrEvalBudgetExceeded" "effectiveMaxReads e mx > 0" by (auto simp: budget_out_def)
qed

text \<open>C28. Every well-formed check ends with a decision, or with one of two errors that name their cause: the read
  budget, and then one is configured for the instance or the project, or the region, and then the
  instance is bound to one. Cyclic and arbitrarily deep relations never make it run on.\<close>

theorem check_ends:
  assumes "svc_reachable ok s" and "ns \<noteq> []" and "obj \<noteq> []" and "rel \<noteq> []" and "u \<noteq> []"
  shows "case fst (svc_Check now p ns obj rel u cc s) of
      Inr _ \<Rightarrow> True
    | Inl err \<Rightarrow>
        err = ErrResourceExhausted \<and> (0 < s_maxCheckReads s \<or>
          (\<exists>pr. mem_GetProject (p_ProjectID p) (s_repo s) = Inr pr \<and> 0 < pr_MaxCheckReads pr)) \<or>
        err = ErrRegionNotServable \<and> s_dataRegion s \<noteq> []"
proof -
  obtain e s' where e: "resolve now (p_ProjectID p) s = (Inr e, s')" "entry_settings e = row_settings (p_ProjectID p) (s_repo s)"
    "s_repo s' = s_repo s" using resolve_row [OF reachable_cache [OF assms(1)], of now "p_ProjectID p"] by metis
  have set: "s_dataRegion s' = s_dataRegion s" "s_maxCheckReads s' = s_maxCheckReads s"
    using settings_resolve [of now "p_ProjectID p" s] e(1) by (simp_all add: settings_def)
  let ?r = "fst (CheckWithModel (svc_engine now s') None (modelOrDefault e) (p_ProjectID p) (p_TenantID p) ns obj rel u cc (rs_maxCheckReads e))"
  have total: "\<exists>subs. reader (svc_engine now s') (p_ProjectID p) (p_TenantID p) ns obj rel = Inr subs" for ns obj rel
    by (simp add: reader_svc_engine mem_ListSubjects_def)
  have budget: "0 < s_maxCheckReads s \<or> (\<exists>pr. mem_GetProject (p_ProjectID p) (s_repo s) = Inr pr \<and> 0 < pr_MaxCheckReads pr)"
    if "?r = Inl err" for err
    using budget_svc_engine [OF CheckWithModel_ends(2) [OF total that]] e(2) set
    by (auto simp: entry_settings_def row_settings_def split: sum.splits)
  have run: "fst (svc_Check now p ns obj rel u cc s) =
      (if s_dataRegion s = [] \<or> rs_dataRegion e = [] \<or> rs_dataRegion e = s_dataRegion s
       then if rs_suspended e then Inr False else mapBudgetErr ?r else Inl ErrRegionNotServable)"
    using assms(2-) e(1) set by (simp add: svc_Check_def fst_withDecisionLog bindR_def regionServable_def ret_def)
  show ?thesis
  proof (cases ?r)
    case (Inl err)
    with budget [OF Inl] CheckWithModel_ends(1) [OF total Inl] show ?thesis
      by (auto simp: run mapBudgetErr_def errors_Is_def)
  next
    case (Inr b)
    then show ?thesis by (simp add: run mapBudgetErr_def)
  qed
qed

theorem check_ends_witness:
  "case fst (svc_Check 9 demo_ann ''workspace'' ''w1'' RoleMember ''bob'' [] demo_bob) of
     Inr _ \<Rightarrow> True
   | Inl err \<Rightarrow> err = ErrResourceExhausted \<or> err = ErrRegionNotServable"
  using check_ends [OF demo_reachable(2), of "''workspace''" "''w1''" RoleMember "''bob''" demo_ann 9 "[]"]
  by (auto simp: RoleMember_def split: sum.splits)

subsection \<open>Batches\<close>

definition item_result :: "bool result \<Rightarrow> batchCheckResult" where
  "item_result r = (case r of Inr ok \<Rightarrow> \<lparr>br_Allowed = ok, br_Err = None\<rparr> | Inl err \<Rightarrow> \<lparr>br_Allowed = False, br_Err = Some err\<rparr>)"

lemma BatchCheck_Cons:
  "svc_BatchCheck now p ctxErr i (it # items) s = (Inr rs, s') \<Longrightarrow> ctxErr i = None \<Longrightarrow>
     \<exists>rest. rs = item_result (fst (svc_Check now p (bi_Namespace it) (bi_ObjectID it) (bi_Relation it) (bi_SubjectUserID it) [] s)) # rest \<and>
       svc_BatchCheck now p ctxErr (Suc i) items
         (snd (svc_Check now p (bi_Namespace it) (bi_ObjectID it) (bi_Relation it) (bi_SubjectUserID it) [] s)) = (Inr rest, s')"
  by (auto simp: tryR_def bindR_def item_result_def fail_def ret_def split: prod.splits sum.splits if_splits)

lemma same_view_trans: "same_view s s1 \<Longrightarrow> same_view s1 s2 \<Longrightarrow> same_view s s2"
  by (simp add: same_view_def)

text \<open>C29. A batch is its single checks: when no item meets a cancelled context and the call returns, the results
  are those of checking each item on its own, in the order of the request and one per item, an
  invalid or over-budget item being reported in its place as a denial with its error.\<close>

theorem BatchCheck_items:
  assumes "svc_reachable ok s" and "\<And>n. ctxErr n = None" and "svc_BatchCheck now p ctxErr 0 items s = (Inr rs, s')"
  shows "rs = map (\<lambda>it. item_result (fst (svc_Check now p (bi_Namespace it) (bi_ObjectID it) (bi_Relation it) (bi_SubjectUserID it) [] s))) items"
proof -
  have "rs = map (\<lambda>it. item_result (fst (svc_Check now p (bi_Namespace it) (bi_ObjectID it) (bi_Relation it) (bi_SubjectUserID it) [] s))) items"
    if "same_view s s1" "svc_BatchCheck now p ctxErr i items s1 = (Inr rs, s')" for s1 i
    using that
  proof (induction items arbitrary: s1 i rs)
    case Nil
    then show ?case by (simp add: ret_def)
  next
    case (Cons it items)
    from BatchCheck_Cons [OF Cons.prems(2) assms(2)] obtain rest where
      rest: "rs = item_result (fst (svc_Check now p (bi_Namespace it) (bi_ObjectID it) (bi_Relation it) (bi_SubjectUserID it) [] s1)) # rest"
      "svc_BatchCheck now p ctxErr (Suc i) items
         (snd (svc_Check now p (bi_Namespace it) (bi_ObjectID it) (bi_Relation it) (bi_SubjectUserID it) [] s1)) = (Inr rest, s')" by blast
    have "cache_current s1" using Cons.prems(1) by (simp add: same_view_def)
    from Cons.IH [OF same_view_trans [OF Cons.prems(1) Check_view [OF this]] rest(2)] rest(1) Check_same [OF Cons.prems(1)]
    show ?case by simp
  qed
  moreover have "same_view s s" using reachable_cache [OF assms(1)] by (simp add: same_view_def)
  ultimately show ?thesis using assms(3) by blast
qed

definition demo_items :: "batchCheckItem list" where
  "demo_items = [\<lparr>bi_Namespace = ''workspace'', bi_ObjectID = ''w1'', bi_Relation = RoleMember, bi_SubjectUserID = ''bob''\<rparr>,
     \<lparr>bi_Namespace = [], bi_ObjectID = ''w1'', bi_Relation = RoleMember, bi_SubjectUserID = ''bob''\<rparr>]"

theorem BatchCheck_items_witness:
  "\<exists>rs s'. svc_BatchCheck 9 demo_ann (\<lambda>_. None) 0 demo_items demo_bob = (Inr rs, s') \<and>
     rs = map (\<lambda>it. item_result (fst (svc_Check 9 demo_ann (bi_Namespace it) (bi_ObjectID it) (bi_Relation it) (bi_SubjectUserID it) [] demo_bob))) demo_items"
proof -
  let ?run = "svc_BatchCheck 9 demo_ann (\<lambda>_. None) 0 demo_items demo_bob"
  have "\<not> isl (fst ?run)" by code_simp
  then obtain rs s' where "?run = (Inr rs, s')" by (cases ?run; cases "fst ?run") auto
  with BatchCheck_items [OF demo_reachable(2) HOL.refl this] show ?thesis by blast
qed

subsection \<open>Offboarding\<close>

lemma DeleteAll_maps:
  "submap (m_tuples (snd (mem_DeleteAllSubjectTuplesInProject i u r))) sk =
     (if starts_with sk (i @ [NUL]) then filter (\<lambda>(k, t). \<not> is_user_tuple u t) (submap (m_tuples r) sk) else submap (m_tuples r) sk)"
  "submap (submap (m_seatAssigns (snd (mem_DeleteAllSubjectTuplesInProject i u r))) sk) sku =
     (if starts_with sk (i @ [NUL]) then AList.delete u (submap (submap (m_seatAssigns r) sk) sku)
      else submap (submap (m_seatAssigns r) sk) sku)"
  using submap_map_kv [of "\<lambda>sk m. if starts_with sk (i @ [NUL]) then filter (\<lambda>(k, t). \<not> is_user_tuple u t) m else m" "m_tuples r" sk]
    submap_map_kv [of "\<lambda>sk m. if starts_with sk (i @ [NUL]) then map (\<lambda>(sku, byUser). (sku, AList.delete u byUser)) m else m"
      "m_seatAssigns r" sk]
    submap_map_kv [of "\<lambda>_ m. AList.delete u m" "submap (m_seatAssigns r) sk" sku]
  by (simp_all add: mem_DeleteAllSubjectTuplesInProject_def Let_def)

lemma DeleteAll_shard:
  "shard (snd (mem_DeleteAllSubjectTuplesInProject i u r)) pr t =
     (if starts_with (scope pr t) (i @ [NUL]) then filter (\<lambda>tu. \<not> is_user_tuple u tu) (shard r pr t) else shard r pr t)"
  by (simp add: shard_def DeleteAll_maps filter_map comp_def case_prod_unfold)

lemma DeleteAll_seats:
  "mem_ListSeats pr t sku (snd (mem_DeleteAllSubjectTuplesInProject i u r)) =
     Inr (sort_Slice (before sa_AssignedAt sa_UserID) (map snd (if starts_with (scope pr t) (i @ [NUL])
       then AList.delete u (submap (submap (m_seatAssigns r) (scope pr t)) sku)
       else submap (submap (m_seatAssigns r) (scope pr t)) sku)))"
  by (simp add: mem_ListSeats_def DeleteAll_maps)

lemma DeleteAll_scan:
  "project_scan i (\<lambda>t. is_user_tuple u t \<and> Q t) (snd (mem_DeleteAllSubjectTuplesInProject i u r)) = []"
  by (auto simp: project_scan_def mem_DeleteAllSubjectTuplesInProject_def Let_def filter_empty_conv)

text \<open>C30. Offboarding a user from a project is complete and confined to it: afterwards no tuple names the user in any
  tenant of the project, no seat is held, the export of the user's grants is empty, all other tuples
  of the project are kept in their order, all other users keep their seats, and the tuples and seats of every other
  project are as they were. Tuples and seats are all it changes: every other table of the store, the membership
  rows of the user included, is left alone.\<close>

theorem deprovision_complete:
  assumes "svc_reachable ok s" and "DeprovisionUser now p u s = (Inr n, s')" and "NUL \<notin> set (p_ProjectID p)"
  shows "shard (s_repo s') (p_ProjectID p) t = filter (\<lambda>tu. \<not> is_user_tuple u tu) (shard (s_repo s) (p_ProjectID p) t) \<and>
    (\<exists>as as'. mem_ListSeats (p_ProjectID p) t sku (s_repo s) = Inr as \<and> mem_ListSeats (p_ProjectID p) t sku (s_repo s') = Inr as' \<and>
       set as' = {a \<in> set as. sa_UserID a \<noteq> u}) \<and>
    mem_ListSubjectTuplesInProject now' (p_ProjectID p) u (s_repo s') = Inr [] \<and>
    (\<forall>q. NUL \<notin> set q \<longrightarrow> q \<noteq> p_ProjectID p \<longrightarrow> shard (s_repo s') q t = shard (s_repo s) q t \<and>
       mem_ListSeats q t sku (s_repo s') = mem_ListSeats q t sku (s_repo s)) \<and>
    s_repo s' = (s_repo s)\<lparr>m_tuples := m_tuples (s_repo s'), m_seatAssigns := m_seatAssigns (s_repo s')\<rparr>"
proof -
  let ?r = "snd (mem_DeleteAllSubjectTuplesInProject (p_ProjectID p) u (s_repo s))"
  have r: "s_repo s' = ?r"
    using assms(2) by (auto simp: DeprovisionUser_def fail_def repo_write_def split: if_splits prod.splits
        elim!: keeps_bindE [OF keeps_ensureRegion])
  have own: "starts_with (scope q t) (p_ProjectID p @ [NUL]) \<longleftrightarrow> q = p_ProjectID p" if "NUL \<notin> set q" for q
    by (rule starts_with_scope [OF that assms(3)])
  let ?m = "submap (submap (m_seatAssigns (s_repo s)) (scope (p_ProjectID p) t)) sku"
  note seats = seat_map [OF reachable_store_ok [OF assms(1)], of "scope (p_ProjectID p) t" sku]
  have "snd ` set (AList.delete u ?m) = {a \<in> snd ` set ?m. sa_UserID a \<noteq> u}"
    using seats by (force simp: AList.delete_eq all_map_def list_all_iff)
  then have "\<exists>as as'. mem_ListSeats (p_ProjectID p) t sku (s_repo s) = Inr as \<and> mem_ListSeats (p_ProjectID p) t sku ?r = Inr as' \<and>
      set as' = {a \<in> set as. sa_UserID a \<noteq> u}"
    by (simp add: DeleteAll_seats own assms(3)) (simp add: mem_ListSeats_def)
  moreover have "?r = (s_repo s)\<lparr>m_tuples := m_tuples ?r, m_seatAssigns := m_seatAssigns ?r\<rparr>"
    by (simp add: mem_DeleteAllSubjectTuplesInProject_def Let_def)
  moreover have "mem_ListSubjectTuplesInProject now' (p_ProjectID p) u ?r = Inr []"
    by (simp add: mem_ListSubjectTuplesInProject_def DeleteAll_scan sortTupleAt_def sort_Slice_def)
  moreover have "mem_ListSeats q t sku ?r = mem_ListSeats q t sku (s_repo s)" if "NUL \<notin> set q" "q \<noteq> p_ProjectID p" for q
    using own [OF that(1)] that(2) by (simp add: DeleteAll_seats) (simp add: mem_ListSeats_def)
  ultimately show ?thesis unfolding r by (simp add: DeleteAll_shard own assms(3))
qed

theorem deprovision_complete_witness:
  "\<exists>n s'. DeprovisionUser 5 demo_ann ''bob'' demo_bob = (Inr n, s') \<and> n = 1 \<and>
     mem_ListSubjectTuplesInProject 6 ''acme'' ''bob'' (s_repo s') = Inr [] \<and>
     shard (s_repo s') ''acme'' ''t1'' = filter (\<lambda>tu. \<not> is_user_tuple ''bob'' tu) (shard (s_repo demo_bob) ''acme'' ''t1'')"
proof -
  let ?run = "DeprovisionUser 5 demo_ann ''bob'' demo_bob"
  have "fst ?run = Inr 1" by code_simp
  then obtain s' where run: "?run = (Inr 1, s')" by (cases ?run) simp
  have nul: "NUL \<notin> set (p_ProjectID demo_ann)" by code_simp
  from deprovision_complete [OF demo_reachable(2) run nul, of "''t1''" _ 6] run show ?thesis by (auto simp: demo_ann_def)
qed

subsection \<open>Slugs\<close>

text \<open>C31. Whatever name a workspace or a group is given, its slug is well formed: not empty, at most 48 bytes, of
  lower-case letters, digits and single dashes, with no dash at either end; and a slug is its own
  slug, so that passing one through creation again changes nothing.\<close>

theorem slugify_normal:
  "slug_shape (slugify s) \<and> slugify (slugify s) = slugify s"
  using slugify_shape slugify_id by blast

end
