(* ===== verification/Service_Invites.thy ===== *)
theory Service_Invites
  imports Service_Owners
begin

section \<open>Properties of invitations\<close>

text \<open>
  An invitation leaves the state pending once, and never returns to it. The lookup by token ranges over a Go
  map, whose order is not fixed; the properties ask that at most one row of the shard carries the hash
  of the token, so that the order does not matter.
\<close>

lemma find_update:
  "find (\<lambda>(k, v). f v = x) m = Some (k, v0) \<Longrightarrow> wf_map m \<Longrightarrow> f v = x \<Longrightarrow>
     find (\<lambda>(k, v). f v = x) (AList.update k v m) = Some (k, v)"
proof (induction m)
  case (Cons e m)
  show ?case
  proof (cases "f (snd e) = x")
    case False
    with Cons.prems have find: "find (\<lambda>(k, v). f v = x) m = Some (k, v0)" by (cases e) auto
    then have "k \<in> fst ` set m" by (force dest: find_SomeD)
    with Cons.prems(2) have "fst e \<noteq> k" by (auto simp: wf_map_def)
    with False Cons find show ?thesis by (cases e) (simp add: wf_map_def)
  qed (use Cons in \<open>auto simp: case_prod_beta\<close>)
qed simp

lemma accept_update:
  assumes ok: "store_ok r" and read: "mem_GetInvitationByTokenHash pr t h r = Inr iv" and same: "m_invitations r' = m_invitations r"
  shows "mem_UpdateInvitation (iv\<lparr>iv_Status := st\<rparr>) r' =
      (Inr (), r'\<lparr>m_invitations := put2 (scope pr t) (iv_ID iv) (iv\<lparr>iv_Status := st\<rparr>) (m_invitations r)\<rparr>)" (is ?upd)
    and "m_invitations r'' = put2 (scope pr t) (iv_ID iv) (iv\<lparr>iv_Status := st\<rparr>) (m_invitations r) \<Longrightarrow>
      mem_GetInvitationByTokenHash pr t h r'' = Inr (iv\<lparr>iv_Status := st\<rparr>)"
proof -
  note row = inv_row_token [OF ok read]
  then show ?upd by (simp add: mem_UpdateInvitation_def inv_row_def same Let_def)
  let ?P = "\<lambda>sk i iv. iv_ID iv = i \<and> scope (iv_ProjectID iv) (iv_TenantID iv) = sk"
  have wf: "all_map (?P (scope pr t)) (submap (m_invitations r) (scope pr t))"
    using ok by (intro all_map_submap [where P = ?P]) (simp add: store_ok_def)
  obtain k where k: "find (\<lambda>(k, iv). iv_TokenHash iv = h) (submap (m_invitations r) (scope pr t)) = Some (k, iv)"
    using read by (auto simp: mem_GetInvitationByTokenHash_def split: option.splits)
  have mem: "(k, iv) \<in> set (submap (m_invitations r) (scope pr t))" "iv_TokenHash iv = h" using find_SomeD [OF k] by auto
  with wf have "iv_ID iv = k" by (auto simp: all_map_def list_all_iff)
  with find_update [OF k all_map_wf [OF wf], of "iv\<lparr>iv_Status := st\<rparr>"] mem
  show "m_invitations r'' = put2 (scope pr t) (iv_ID iv) (iv\<lparr>iv_Status := st\<rparr>) (m_invitations r) \<Longrightarrow>
      mem_GetInvitationByTokenHash pr t h r'' = Inr (iv\<lparr>iv_Status := st\<rparr>)"
    by (simp add: mem_GetInvitationByTokenHash_def)
qed

lemma putMember_run:
  assumes "putMember now p w u role s = (Inr m, s')"
  shows "m_invitations (s_repo s') = m_invitations (s_repo s)"
    and "member_row (s_repo s') (scope (p_ProjectID p) (p_TenantID p)) w u = Some m"
    and "mb_Role m = role" and "mb_Status m = StatusActive"
proof -
  let ?m = "\<lparr>mb_ProjectID = p_ProjectID p, mb_TenantID = p_TenantID p, mb_WorkspaceID = w, mb_UserID = u, mb_Role = role,
     mb_Status = StatusActive, mb_CreatedAt = now, mb_UpdatedAt = now\<rparr>"
  from assms obtain s1 where "s_repo s1 = s_repo s"
    "bindR (repo_write (mem_PutMembershipAndTuples ?m [role_tuple w u role] [])) (\<lambda>_. ret ?m) s1 = (Inr m, s')"
    unfolding putMember_def Let_def by (elim keeps_bindE [OF keeps_ensureProjectActive])
  then show "m_invitations (s_repo s') = m_invitations (s_repo s)" "mb_Role m = role" "mb_Status m = StatusActive"
    "member_row (s_repo s') (scope (p_ProjectID p) (p_TenantID p)) w u = Some m"
    by (auto simp: bindR_def repo_write_def ret_def mem_PutMembershipAndTuples_def putMembershipLocked_def member_row_def)
qed

lemma AcceptInvitation_run:
  assumes ok: "store_ok (s_repo s)" and run: "svc_AcceptInvitation now p tok s = (Inr m, s')"
  obtains iv r1 where "mem_GetInvitationByTokenHash (p_ProjectID p) (p_TenantID p) (hashToken tok) (s_repo s) = Inr iv"
    "tok \<noteq> []" "iv_Status iv = InvitePending" "now \<le> iv_ExpiresAt iv"
    "m_invitations r1 = m_invitations (s_repo s)"
    "s_repo s' = snd (mem_UpdateInvitation (iv\<lparr>iv_Status := InviteAccepted\<rparr>) r1)"
    "member_row r1 (scope (p_ProjectID p) (p_TenantID p)) (iv_WorkspaceID iv) (p_UserID p) = Some m"
    "member_row (s_repo s) (scope (p_ProjectID p) (p_TenantID p)) (iv_WorkspaceID iv) (p_UserID p) = Some m \<or>
     member_row (s_repo s) (scope (p_ProjectID p) (p_TenantID p)) (iv_WorkspaceID iv) (p_UserID p) = None \<and>
       mb_Role m = iv_Role iv \<and> mb_Status m = StatusActive"
proof -
  let ?sk = "scope (p_ProjectID p) (p_TenantID p)"
  obtain iv where iv: "mem_GetInvitationByTokenHash (p_ProjectID p) (p_TenantID p) (hashToken tok) (s_repo s) = Inr iv"
    using run by (auto simp: svc_AcceptInvitation_def bindR_def repo_read_def split: if_splits sum.splits)
  have guards: "tok \<noteq> []" "iv_Status iv = InvitePending" "now \<le> iv_ExpiresAt iv"
    using run iv by (auto simp: svc_AcceptInvitation_def bindR_def tryR_def repo_read_def repo_write_def split: if_splits sum.splits prod.splits)
  show thesis
  proof (cases "member_row (s_repo s) ?sk (iv_WorkspaceID iv) (p_UserID p)")
    case None
    with run iv guards obtain s1 where put: "putMember now p (iv_WorkspaceID iv) (p_UserID p) (iv_Role iv) s = (Inr m, s1)"
      and s1: "s_repo s' = snd (mem_UpdateInvitation (iv\<lparr>iv_Status := InviteAccepted\<rparr>) (s_repo s1))"
      by (auto simp: svc_AcceptInvitation_def bindR_def tryR_def repo_read_def repo_write_def GetMembership_row ret_def
          split: prod.splits sum.splits)
    from putMember_run [OF put] that [OF iv guards, of "s_repo s1"] None s1 show ?thesis by simp
  next
    case (Some m0)
    with run iv guards accept_update(1) [OF ok iv, of "s_repo s" InviteAccepted]
    have "m = m0 \<and> s_repo s' = snd (mem_UpdateInvitation (iv\<lparr>iv_Status := InviteAccepted\<rparr>) (s_repo s))"
      by (auto simp: svc_AcceptInvitation_def bindR_def tryR_def repo_read_def repo_write_def GetMembership_row ret_def)
    with that [OF iv guards, of "s_repo s"] Some show ?thesis by simp
  qed
qed

subsection \<open>A spent token stays spent\<close>

text \<open>No invitation of the shard is pending under this hash.\<close>

definition spent :: "string \<Rightarrow> string \<Rightarrow> store \<Rightarrow> bool" where
  "spent sk h r \<longleftrightarrow> (\<forall>i iv. inv_row r sk i = Some iv \<longrightarrow> iv_TokenHash iv = h \<longrightarrow> iv_Status iv \<noteq> InvitePending)"

lemma spent_same: "m_invitations r' = m_invitations r \<Longrightarrow> spent sk h r' = spent sk h r"
  by (simp add: spent_def inv_row_def)

lemma invitation_frames:
  "m_invitations (snd (mem_CreateProject pr r)) = m_invitations r"
  "m_invitations (snd (mem_UpdateProject pr r)) = m_invitations r"
  "m_invitations (snd (mem_WriteTuples p t ins del r)) = m_invitations r"
  "m_invitations (snd (mem_DeleteAllSubjectTuplesInProject p u r)) = m_invitations r"
  "m_invitations (snd (mem_CreateWorkspace w r)) = m_invitations r"
  "m_invitations (snd (mem_UpdateWorkspace w r)) = m_invitations r"
  "m_invitations (snd (mem_PutMembershipAndTuples m ins del r)) = m_invitations r"
  "m_invitations (snd (mem_DeleteMembershipAndTuples p t i u del r)) = m_invitations r"
  "m_invitations (snd (mem_CreateGroup g r)) = m_invitations r"
  "m_invitations (snd (mem_DeleteGroup p t i r)) = m_invitations r"
  "m_invitations (snd (mem_SetEnrollmentAndTuples e ins del r)) = m_invitations r"
  "m_invitations (snd (mem_SetSeatLimit p t sku l r)) = m_invitations r"
  "m_invitations (snd (mem_AssignSeatAndTuple a tu r)) = m_invitations r"
  "m_invitations (snd (mem_RevokeSeatAndTuple p t sku u tu r)) = m_invitations r"
  by (simp_all add: store_write_defs deleteMembershipLocked_def putMembershipLocked_def Let_def bump_seq_def
      split: option.split prod.split)

lemma spent_put:
  assumes "spent sk h r" and "m_invitations r' = put2 sk' i iv (m_invitations r)" and "iv_TokenHash iv \<noteq> h \<or> iv_Status iv \<noteq> InvitePending"
  shows "spent sk h r'"
  using assms by (auto simp: spent_def inv_row_def split: if_splits)

lemma spent_invitations:
  assumes "spent sk h r" and "iv_TokenHash iv \<noteq> h \<or> iv_Status iv \<noteq> InvitePending"
  shows "spent sk h (snd (mem_CreateInvitation iv r))" and "spent sk h (snd (mem_UpdateInvitation iv r))"
  using assms by (auto simp: mem_CreateInvitation_def mem_UpdateInvitation_def Let_def intro: spent_put)

lemma spent_DeleteWorkspace:
  assumes "store_ok r" and "spent sk h r"
  shows "spent sk h (snd (mem_DeleteWorkspace p t i r))"
proof -
  let ?P = "\<lambda>sk i iv. iv_ID iv = i \<and> scope (iv_ProjectID iv) (iv_TenantID iv) = sk"
  have wf: "wf_map (submap (m_invitations r) sk)" for sk
    using assms(1) by (intro all_map_wf [OF all_map_submap [where P = ?P]]) (simp add: store_ok_def)
  have "inv_row (snd (mem_DeleteWorkspace p t i r)) sk k = Some iv \<Longrightarrow> inv_row r sk k = Some iv" for k iv
    by (auto simp: mem_DeleteWorkspace_def Let_def inv_row_def bump_seq_def submap_map_entry_Nil map_of_filter_wf [OF wf]
        simp del: submap_map_entry split: option.splits if_splits)
  with assms(2) show ?thesis unfolding spent_def by blast
qed

abbreviation spent_in :: "string \<Rightarrow> string \<Rightarrow> service \<Rightarrow> bool" where
  "spent_in sk h s \<equiv> store_ok (s_repo s) \<and> spent sk h (s_repo s)"

lemma spent_write:
  assumes "\<And>r. store_ok r \<Longrightarrow> store_ok (snd (f r))" and "\<And>r. store_ok r \<Longrightarrow> spent sk h r \<Longrightarrow> spent sk h (snd (f r))"
  shows "preserves (spent_in sk h) (repo_write f)"
  using assms by (intro preserves_repo_write [where J = "\<lambda>r. store_ok r \<and> spent sk h r"]) blast

lemma spent_projects:
  "preserves (spent_in sk h) (svc_CreateProject now i name model region mx)"
  "preserves (spent_in sk h) (svc_UpdateProject now i name status model region clearRegion mx clearBudget)"
  unfolding svc_CreateProject_def svc_UpdateProject_def Let_def
  by (intro preserve preserves_bindR_lift spent_write keeps_preserves [OF keeps_invalidate, where J = "\<lambda>r. store_ok r \<and> spent sk h r"]
      keeps_preserves [OF keeps_LogAdminMutation, where J = "\<lambda>r. store_ok r \<and> spent sk h r"];
      simp add: store_ok_writes spent_same [OF invitation_frames(1)] spent_same [OF invitation_frames(2)])+

interpretation unspent: member_invariant "spent_in sk h" "\<lambda>_. True" for sk h
  by unfold_locales
    (rule spent_projects keeps_preserves [OF keeps_resolve, where J = "\<lambda>r. store_ok r \<and> spent sk h r"] |
     (rule spent_write; simp add: store_ok_writes spent_DeleteWorkspace spent_same [OF invitation_frames(3)]
       spent_same [OF invitation_frames(4)] spent_same [OF invitation_frames(5)] spent_same [OF invitation_frames(6)]
       spent_same [OF invitation_frames(7)] spent_same [OF invitation_frames(8)] spent_same [OF invitation_frames(9)]
       spent_same [OF invitation_frames(10)] spent_same [OF invitation_frames(11)] spent_same [OF invitation_frames(12)]
       spent_same [OF invitation_frames(13)] spent_same [OF invitation_frames(14)]) |
     simp)+

lemma spent_handlers:
  "preserves (spent_in sk h) (svc_AcceptInvitation now p token)" "preserves (spent_in sk h) (svc_RevokeInvitation now p i)"
  "hashToken token \<noteq> h \<Longrightarrow> preserves (spent_in sk h) (svc_CreateInvitation now i token p w email role)"
  unfolding svc_AcceptInvitation_def svc_RevokeInvitation_def svc_CreateInvitation_def Let_def
  by (intro unspent.I_guards unspent.W_putMember spent_write;
      simp add: store_ok_writes spent_invitations InvitePending_def InviteAccepted_def InviteExpired_def InviteRevoked_def)+

interpretation token: svc_invariant "spent_in sk h" "\<lambda>_. True" True "\<lambda>tok. hashToken tok \<noteq> h" for sk h
  by unfold_locales
    (rule spent_projects spent_handlers unspent.W_workspaces unspent.W_members unspent.W_TransferOwnership unspent.W_DeleteAll
       unspent.W_CreateGroup unspent.W_DeleteGroup unspent.W_SetSeatLimit unspent.W_RevokeSeat unspent.W_WriteTuples
       unspent.W_SetEnrollment; simp add: unspent.W_AssignSeat list_all_iff |
     simp add: unspent.W_AssignSeat)+

text \<open>Services a state grows into by calls that mint no invitation under this hash again.\<close>

abbreviation later :: "string \<Rightarrow> service \<Rightarrow> service \<Rightarrow> bool" where
  "later h \<equiv> (\<lambda>a b. \<exists>c. call_ok (\<lambda>_. True) True (\<lambda>tok. hashToken tok \<noteq> h) c \<and> svc_step c a b)\<^sup>*\<^sup>*"

lemma later_spent: "later h s s' \<Longrightarrow> spent_in sk h s \<Longrightarrow> spent_in sk h s'"
proof (induction rule: rtranclp_induct)
  case (step y z)
  then obtain c where "svc_step c y z" "call_ok (\<lambda>_. True) True (\<lambda>tok. hashToken tok \<noteq> h) c" by blast
  from token.svc_step_keeps [OF this] step show ?case by blast
qed

lemma spent_refused:
  assumes "spent_in (scope (p_ProjectID p) (p_TenantID p)) (hashToken tok) s"
  shows "\<exists>e. svc_AcceptInvitation now p tok s = (Inl e, s)"
proof (cases "mem_GetInvitationByTokenHash (p_ProjectID p) (p_TenantID p) (hashToken tok) (s_repo s)")
  case (Inl e)
  then show ?thesis by (auto simp: svc_AcceptInvitation_def bindR_def repo_read_def fail_def)
next
  case (Inr iv)
  have "iv_TokenHash iv = hashToken tok"
    using Inr by (auto simp: mem_GetInvitationByTokenHash_def dest!: find_SomeD split: option.splits)
  with inv_row_token(1) [OF _ Inr] assms have "iv_Status iv \<noteq> InvitePending" unfolding spent_def by blast
  with Inr show ?thesis by (auto simp: svc_AcceptInvitation_def bindR_def repo_read_def fail_def)
qed

text \<open>At most one row of the shard carries the hash.\<close>

definition one_row :: "string \<Rightarrow> string \<Rightarrow> store \<Rightarrow> bool" where
  "one_row sk h r \<longleftrightarrow> length (filter (\<lambda>(i, iv). iv_TokenHash iv = h) (submap (m_invitations r) sk)) \<le> 1"

lemma one_rowD:
  assumes "one_row sk h r" and "inv_row r sk i = Some iv" "iv_TokenHash iv = h" and "inv_row r sk j = Some jv" "iv_TokenHash jv = h"
  shows "i = j"
proof -
  let ?f = "filter (\<lambda>(i, iv). iv_TokenHash iv = h) (submap (m_invitations r) sk)"
  have "(i, iv) \<in> set ?f" "(j, jv) \<in> set ?f" using assms(2-5) by (auto simp: inv_row_def dest: map_of_SomeD)
  with assms(1) show ?thesis unfolding one_row_def by (cases ?f; cases "tl ?f") auto
qed

text \<open>C22. An invitation is used at most once, and only while it is pending and not expired. Accepting it makes a
  caller who is no member an active member of the invited workspace with the invited role; a caller who already is a
  member keeps their row as it was, role and status included. The invitation is then accepted, and whatever calls
  the service serves afterwards, one at a time and minting no second invitation under the same token
  hash, any further call with the token fails and changes nothing. The shard is asked to hold one
  row under that hash, as it does when tokens are unique.\<close>

theorem accept_once:
  assumes "svc_reachable ok s" and "svc_AcceptInvitation now p tok s = (Inr m, s')"
    and "one_row (scope (p_ProjectID p) (p_TenantID p)) (hashToken tok) (s_repo s)"
    and "later (hashToken tok) s' s''" and "p_ProjectID p' = p_ProjectID p" and "p_TenantID p' = p_TenantID p"
  shows "\<exists>iv. mem_GetInvitationByTokenHash (p_ProjectID p) (p_TenantID p) (hashToken tok) (s_repo s) = Inr iv \<and>
    iv_Status iv = InvitePending \<and> now \<le> iv_ExpiresAt iv \<and>
    mem_GetMembership (p_ProjectID p) (p_TenantID p) (iv_WorkspaceID iv) (p_UserID p) (s_repo s') = Inr m \<and>
    (mem_GetMembership (p_ProjectID p) (p_TenantID p) (iv_WorkspaceID iv) (p_UserID p) (s_repo s) = Inr m \<or>
     mem_GetMembership (p_ProjectID p) (p_TenantID p) (iv_WorkspaceID iv) (p_UserID p) (s_repo s) = Inl ErrNotFound \<and>
       mb_Role m = iv_Role iv \<and> mb_Status m = StatusActive) \<and>
    mem_GetInvitation (p_ProjectID p) (p_TenantID p) (iv_ID iv) (s_repo s') = Inr (iv\<lparr>iv_Status := InviteAccepted\<rparr>) \<and>
    svc_AcceptInvitation now' p' tok s' = (Inl ErrFailedPrecondition, s') \<and>
    (\<exists>e. svc_AcceptInvitation now' p' tok s'' = (Inl e, s''))"
proof -
  let ?sk = "scope (p_ProjectID p) (p_TenantID p)"
  note ok = reachable_store_ok [OF assms(1)]
  from AcceptInvitation_run [OF ok assms(2)] obtain iv r1 where
    iv: "mem_GetInvitationByTokenHash (p_ProjectID p) (p_TenantID p) (hashToken tok) (s_repo s) = Inr iv"
    "tok \<noteq> []" "iv_Status iv = InvitePending" "now \<le> iv_ExpiresAt iv"
    and r1: "m_invitations r1 = m_invitations (s_repo s)"
    and s': "s_repo s' = snd (mem_UpdateInvitation (iv\<lparr>iv_Status := InviteAccepted\<rparr>) r1)"
    and row: "member_row r1 (scope (p_ProjectID p) (p_TenantID p)) (iv_WorkspaceID iv) (p_UserID p) = Some m"
      "member_row (s_repo s) (scope (p_ProjectID p) (p_TenantID p)) (iv_WorkspaceID iv) (p_UserID p) = Some m \<or>
       member_row (s_repo s) (scope (p_ProjectID p) (p_TenantID p)) (iv_WorkspaceID iv) (p_UserID p) = None \<and>
       mb_Role m = iv_Role iv \<and> mb_Status m = StatusActive" .
  note upd = accept_update(1) [OF ok iv(1) r1, of InviteAccepted]
  have inv: "m_invitations (s_repo s') = put2 (scope (p_ProjectID p) (p_TenantID p)) (iv_ID iv) (iv\<lparr>iv_Status := InviteAccepted\<rparr>)
      (m_invitations (s_repo s))" by (simp add: s' upd)
  have "svc_AcceptInvitation now' p' tok s' = (Inl ErrFailedPrecondition, s')"
    using iv(2) accept_update(2) [OF ok iv(1) r1 inv] assms(5,6)
    by (simp add: svc_AcceptInvitation_def bindR_def repo_read_def fail_def InvitePending_def InviteAccepted_def)
  moreover have "spent ?sk (hashToken tok) (s_repo s')"
    unfolding spent_def
  proof (intro allI impI)
    fix i jv
    assume jv: "inv_row (s_repo s') ?sk i = Some jv" "iv_TokenHash jv = hashToken tok"
    have hash: "iv_TokenHash iv = hashToken tok"
      using iv(1) by (auto simp: mem_GetInvitationByTokenHash_def dest!: find_SomeD split: option.splits)
    have "i = iv_ID iv"
    proof (rule ccontr)
      assume "i \<noteq> iv_ID iv"
      with jv inv have "inv_row (s_repo s) ?sk i = Some jv" by (simp add: inv_row_def)
      from one_rowD [OF assms(3) this jv(2) inv_row_token(1) [OF ok iv(1)] hash] \<open>i \<noteq> iv_ID iv\<close> show False by simp
    qed
    with jv(1) inv show "iv_Status jv \<noteq> InvitePending" by (auto simp: inv_row_def InvitePending_def InviteAccepted_def)
  qed
  moreover have "store_ok (s_repo s')"
    using rows.I_AcceptInvitation [of now p tok] assms(2) ok
    by (auto simp: preserves_def)
  moreover have "member_row (s_repo s') = member_row r1" by (simp add: s' upd member_row_def fun_eq_iff)
  ultimately show ?thesis using iv row inv spent_refused [where p = p' and tok = tok and s = s'' and now = now'] later_spent [OF assms(4), of ?sk] assms(5,6)
    by (auto simp: GetMembership_row mem_GetInvitation_def)
qed

definition demo_carol :: principal where
  "demo_carol = \<lparr>p_UserID = ''carol'', p_ProjectID = ''acme'', p_TenantID = ''t1'', p_Caller = ''web''\<rparr>"

definition demo_invited :: service where
  "demo_invited = snd (svc_CreateInvitation 3 ''i1'' ''secret'' demo_ann ''w1'' ''carol'' RoleMember demo_team)"

lemma demo_invited_repo:
  "demo_invited = demo_team\<lparr>s_repo := (s_repo demo_team)\<lparr>m_invitations := [(scope ''acme'' ''t1'', [(''i1'',
     \<lparr>iv_ID = ''i1'', iv_ProjectID = ''acme'', iv_TenantID = ''t1'', iv_WorkspaceID = ''w1'', iv_Email = ''carol'',
      iv_Role = RoleMember, iv_Status = InvitePending, iv_InvitedBy = ''ann'', iv_TokenHash = hashToken ''secret'',
      iv_CreatedAt = 3, iv_ExpiresAt = 3 + InvitationTTL\<rparr>)])]\<rparr>\<rparr>"
proof -
  have active: "ensureProjectActive 3 demo_ann demo_team = (Inr (), demo_team)" by code_simp
  have "(case requireWorkspace 3 demo_ann ''w1'' RoleAdmin demo_team of (Inr wk, s) \<Rightarrow> ws_Type wk = TypeTeam \<and> s = demo_team | _ \<Rightarrow> False)"
    by code_simp
  then obtain wk where wk: "requireWorkspace 3 demo_ann ''w1'' RoleAdmin demo_team = (Inr wk, demo_team)" "ws_Type wk \<noteq> TypePersonal"
    by (auto simp: TypeTeam_def TypePersonal_def split: prod.splits sum.splits)
  have "list_all (\<lambda>c. slug_char c \<or> c = CHR ''-'') ''carol''" by (simp add: slug_char_def)
  then have email: "trimName ''carol'' = ''carol''" by (simp add: trimName_def TrimSpace_id)
  have role: "Role_Valid RoleMember \<and> RoleMember \<noteq> RoleOwner" by code_simp
  have none: "m_invitations (s_repo demo_team) = []" by (simp add: demo_team_code mem_New_def)
  show ?thesis using wk role
    by (simp add: demo_invited_def svc_CreateInvitation_def bindR_def active email repo_write_def mem_CreateInvitation_def none
        put2_def Let_def) (simp add: demo_ann_def)
qed

theorem accept_once_witness:
  "\<exists>m s' s'' iv. svc_AcceptInvitation 4 demo_carol ''secret'' demo_invited = (Inr m, s') \<and>
     mem_GetInvitationByTokenHash ''acme'' ''t1'' (hashToken ''secret'') (s_repo demo_invited) = Inr iv \<and>
     mem_GetMembership ''acme'' ''t1'' (iv_WorkspaceID iv) ''carol'' (s_repo s') = Inr m \<and>
     s'' = snd (svc_DeleteWorkspace 5 demo_ann ''w1'' s') \<and>
     (\<exists>e. svc_AcceptInvitation 6 demo_ann ''secret'' s'' = (Inl e, s''))"
proof -
  have reach: "svc_reachable typed_only demo_invited"
    unfolding demo_invited_def using demo_reachable(1)
    by (rule svc_reachable.step [where c = "Invite ''secret''"]) (simp, rule svc_step.CreateInvitation)
  have "\<exists>m s'. svc_AcceptInvitation 4 demo_carol ''secret'' demo_invited = (Inr m, s')"
    by (simp add: svc_AcceptInvitation_def bindR_def tryR_def repo_read_def repo_write_def mem_GetInvitationByTokenHash_def
        demo_invited_repo demo_carol_def demo_team_code mem_New_def InvitationTTL_def mem_GetMembership_def putMember_def
        ensureProjectActive_def resolve_def resolver_lookup_def newModelResolver_def resolverTTL_def regionServable_def
        demo_start_def svc_New_def mem_PutMembershipAndTuples_def putMembershipLocked_def mem_UpdateInvitation_def Let_def
        isNotFound_def errors_Is_def submap_def put2_def put3_def)
  then obtain m s' where run: "svc_AcceptInvitation 4 demo_carol ''secret'' demo_invited = (Inr m, s')" by blast
  have one: "one_row (scope (p_ProjectID demo_carol) (p_TenantID demo_carol)) (hashToken ''secret'') (s_repo demo_invited)"
    by (simp add: one_row_def demo_invited_repo demo_carol_def submap_def)
  have "svc_step Typed s' (snd (svc_DeleteWorkspace 5 demo_ann ''w1'' s'))" by (rule svc_step.DeleteWorkspace)
  then have "later (hashToken ''secret'') s' (snd (svc_DeleteWorkspace 5 demo_ann ''w1'' s'))"
    by (intro r_into_rtranclp exI [of _ Typed]) simp
  from accept_once [OF reach run one this, of demo_ann 6] run show ?thesis by (auto simp: demo_carol_def demo_ann_def)
qed

end
