(* ===== verification/Spec2Isabelle.thy ===== *)
theory Spec2Isabelle
  imports Authz_Findings Authz_Flat Service_Writes Service_Eval Service_Invites
begin

text \<open>
  \<^bold>\<open>What is verified.\<close> The repository is a Go service that stores workspaces, memberships, invitations, groups, seats
  and relation tuples for many projects and tenants, and answers authorization questions over them in the
  manner of Zanzibar. A call enters through the Connect handlers (\<^verbatim>\<open>src/internal/connect\<close>), which authenticate and
  route it, into one method of the service (\<^verbatim>\<open>src/internal/service\<close>); the method resolves the settings of the project,
  checks its guards, reads and writes the repository (\<^verbatim>\<open>src/internal/repo\<close>), and asks the evaluation engine
  (\<^verbatim>\<open>src/pkg/authz\<close>), which reads tuples from the same repository under the model of the project.

  \<^bold>\<open>The theories.\<close>
  \<^item> \<^verbatim>\<open>Prelude\<close>, \<^verbatim>\<open>GoStd\<close>, \<^verbatim>\<open>GoStd_Text\<close>: the result type, Go maps as association lists without duplicate keys,
    and what the sources use of the Go library: decimal numbers, base64, JSON strings, SHA-256, sorting,
    prefixes, trimming.
  \<^item> \<^verbatim>\<open>Authz_Model\<close>, \<^verbatim>\<open>Authz_Conditions\<close>, \<^verbatim>\<open>Authz_Engine\<close>, \<^verbatim>\<open>Authz_Expand\<close>, \<^verbatim>\<open>Authz_CheckSet\<close>: the files \<^verbatim>\<open>model.go\<close>,
    \<^verbatim>\<open>conditions.go\<close>, \<^verbatim>\<open>engine.go\<close> with \<^verbatim>\<open>backstop.go\<close>, \<^verbatim>\<open>expand.go\<close> and \<^verbatim>\<open>checkset.go\<close>. The state of one request
    (visit set, memo table, read counter, cycle counter, backstop collector) is the record \<^typ>\<open>evalState\<close>, passed
    and returned explicitly.
  \<^item> \<^verbatim>\<open>Authz_Semantics\<close>, \<^verbatim>\<open>Authz_Grants\<close>, \<^verbatim>\<open>Authz_Check\<close>, \<^verbatim>\<open>Authz_Demo\<close>, \<^verbatim>\<open>Authz_Flat\<close>, \<^verbatim>\<open>Authz_Findings\<close>: a
    reference semantics without any of that state, derivations for models without exclusion, the comparison of
    the engine with both, the engine on flat stores as the service uses it for roles, and runs
    that differ from what a comment promises.
  \<^item> \<^verbatim>\<open>Model_Json\<close>: the document form of a model (\<^verbatim>\<open>model_json.go\<close>), both conversions, the reference check.
  \<^item> \<^verbatim>\<open>Memory_Store\<close>, \<^verbatim>\<open>Memory_Laws\<close>, \<^verbatim>\<open>Memory_Props\<close>: the in-memory driver (\<^verbatim>\<open>memory.go\<close>), one definition per
    method on the record \<^typ>\<open>store\<close>; the contract of a tuple repository as a locale, with the driver as its
    interpretation; the well-formedness of the store.
  \<^item> \<^verbatim>\<open>Consistency_Token\<close>: \<^verbatim>\<open>token.go\<close>, down to the bytes.
  \<^item> \<^verbatim>\<open>Service_Types\<close>, \<^verbatim>\<open>Service_Core\<close>, \<^verbatim>\<open>Service_Ops\<close>, \<^verbatim>\<open>Service_Authz\<close>: the entities, the service record with its
    settings, resolver cache and logs, and one definition per method, in the order of the files \<^verbatim>\<open>service.go\<close>,
    \<^verbatim>\<open>projects.go\<close>, \<^verbatim>\<open>workspaces.go\<close>, \<^verbatim>\<open>members.go\<close>, \<^verbatim>\<open>ownership.go\<close>, \<^verbatim>\<open>invitations.go\<close>, \<^verbatim>\<open>groups.go\<close>, \<^verbatim>\<open>seats.go\<close>,
    \<^verbatim>\<open>authz.go\<close>, \<^verbatim>\<open>batchcheck.go\<close>. A method is a function from the service to an error or a value and the
    service after it.
  \<^item> \<^verbatim>\<open>Service_Laws\<close>: the step relation \<^const>\<open>svc_step\<close> with a rule per method that can change the state, reachability, and
    the locales of invariants: a predicate the guards keep, one every method keeps, one every write of the repository
    keeps. \<^verbatim>\<open>Service_Seats\<close>, \<^verbatim>\<open>Service_Resolver\<close>, \<^verbatim>\<open>Service_Members\<close>, \<^verbatim>\<open>Service_Props\<close>, \<^verbatim>\<open>Service_Writes\<close>,
    \<^verbatim>\<open>Service_Invites\<close> and \<^verbatim>\<open>Service_Gates\<close> interpret them: seats and seat tuples agree, the cache agrees with
    the rows, membership rows agree with role tuples, settings do not change, sequences do not go back, a
    spent invitation stays spent, a barred project stays barred while its call runs.
  \<^item> \<^verbatim>\<open>Service_Access\<close>, \<^verbatim>\<open>Service_Owners\<close>, \<^verbatim>\<open>Service_Eval\<close>: what follows for users of the service.

  \<^bold>\<open>What the properties show.\<close>
  \<^item> C1 to C5, C33: the engine against the reference semantics: no unfounded grant, completeness up to the depth bound,
    exactness without backstops, the read budget, derivations for positive models.
  \<^item> C6 to C8, C34, C35: Expand and CheckSet. C9, C10: model documents.
  \<^item> C11 to C15: the driver: keys are injective, a tuple write implements the abstract one, rows sit under
    their own keys, the sequence is monotone, the seat cap holds. C16: tokens round-trip.
  \<^item> C17 to C22, C32, C36: access follows the membership table, suspension cuts it, one owner, transfers, the
    seat ledger, invitations.
  \<^item> C23 to C25: project settings, suspension, region. C26, C27: tuple writes and their tokens. C28 to C30:
    checks end, batches, offboarding. C31: slugs.

  \<^bold>\<open>Bounds and fuel.\<close> No definition has fuel. The recursions of \<^const>\<open>check\<close>, \<^const>\<open>expand\<close> and \<^const>\<open>resolveMembers\<close>
  end by the depth bound of the engine, as in the code; loops over stored tuples are recursions on lists. The
  reference semantics is indexed by the number of its stages, and the theorems quantify over it.

  \<^bold>\<open>Assumptions of the model.\<close>
  \<^item> One call of the service is one step. The in-memory driver serialises its methods with a mutex, but a method of
    the service that makes several repository calls can overlap with another. The property on the phases of a transfer
    looks inside one method, and the lemma on two transfers that overlap shows what is lost without the
    assumption. In the same way the cache of the resolver is modelled without \<^verbatim>\<open>singleflight\<close> and without an
    invalidation that comes between the load and the store of an entry.
  \<^item> The service runs over the in-memory driver. The repository interface is also implemented over PostgreSQL, whose
    statements are not modelled.
  \<^item> The range over a Go map has no fixed order. Where the order can matter the order is an argument of the model
    (the members visited by CheckSet) or the property has a hypothesis that makes it irrelevant (one
    invitation per token hash). The store keeps its maps as lists, in insertion order.
  \<^item> Strings are lists of bytes. Times and durations are integers in nanoseconds. The consistency
    sequence is an unbounded integer; the \<^verbatim>\<open>int64\<close> of the code would wrap after \<open>2\<^sup>6\<^sup>3\<close> writes to one shard.
  \<^item> New identifiers and invitation tokens, the clock, and the cancellation of a context are arguments.
  \<^item> Errors are values of one type, a constructor for each sentinel; messages wrapped around them are left out.

  \<^bold>\<open>What is not modelled.\<close> The JSON bytes of model documents (\<^verbatim>\<open>MarshalModel\<close>, \<^verbatim>\<open>ParseModel\<close> and the reading of the
  JSON by \<^verbatim>\<open>encoding/json\<close>); the PostgreSQL driver; the Connect handlers, their rate limiter and the HTTP
  middleware; generated protocol code; configuration other than the floor of the read budget; log
  sinks, metrics, entry points, generators and test suites.
\<close>

end
